(* ===== verification/Dfs_Prelude.thy ===== *)
theory Dfs_Prelude
  imports
    "HOL-Library.Word"
    "HOL-Library.Sublist"
    "HOL-Library.Signed_Division"
begin

text \<open>
  The shared ground of the development: the machine types of the C sources, their return
  codes (\<open>src/src/core/dfs_types.h\<close>), C strings as lists of bytes, and the generic
  lemmas on lists, options and bytes that the component theories rely on.

  Conventions used by every theory of the development:
  \<^item> a function that may run into undefined behaviour of C (a NULL dereference, a read
    through a dangling pointer) returns an \<open>option\<close>; \<^term>\<open>None\<close> is that crash;
  \<^item> a return code or an enum value of the C code is an \<^typ>\<open>int\<close>, written with the name
    of the macro or enumerator that the code uses;
  \<^item> \<open>uint64_t\<close>, \<open>uint32_t\<close> and \<open>uchar_t\<close> are words of that width; \<open>size_t\<close> counters
    that index memory are \<^typ>\<open>nat\<close>, with the wrap-around written out where it matters.
\<close>

section \<open>Machine types\<close>

type_synonym u8 = "8 word"
type_synonym u32 = "32 word"
type_synonym u64 = "64 word"
type_synonym bytes = "u8 list"

named_theorems dfs_code \<open>definitions of the return codes and constants of the C headers\<close>
named_theorems dfs_inv \<open>operations preserve the invariant of their component\<close>

definition DFS_OK :: int where [dfs_code]: "DFS_OK = 0"
definition DFS_ERROR :: int where [dfs_code]: "DFS_ERROR = -1"
definition DFS_TRUE :: int where [dfs_code]: "DFS_TRUE = 1"
definition DFS_FALSE :: int where [dfs_code]: "DFS_FALSE = 0"

section \<open>Byte strings\<close>

text \<open>
  A C string is the list of its bytes before the terminating NUL. \<open>str\<close> embeds the
  literals of the sources.
\<close>

definition str :: "string \<Rightarrow> bytes" where
  "str s = map (\<lambda>c. of_nat (of_char c)) s"

definition cstring :: "bytes \<Rightarrow> bool" where
  "cstring s \<longleftrightarrow> 0 \<notin> set s"

lemma cstring_simps [simp]:
  "cstring []"
  "cstring (b # s) \<longleftrightarrow> b \<noteq> 0 \<and> cstring s"
  "cstring (s @ t) \<longleftrightarrow> cstring s \<and> cstring t"
  by (auto simp: cstring_def)

lemma cstring_subset: "cstring s \<Longrightarrow> set t \<subseteq> set s \<Longrightarrow> cstring t"
  by (auto simp: cstring_def)

lemma cstring_take_drop [simp]:
  "cstring s \<Longrightarrow> cstring (take n s)" "cstring s \<Longrightarrow> cstring (drop n s)"
  by (auto simp: cstring_def dest: in_set_takeD in_set_dropD)

section \<open>Lists and options\<close>

lemma remove1_append_notin:
  "x \<notin> set xs \<Longrightarrow> remove1 x (xs @ x # ys) = xs @ ys"
  by (induction xs) auto

lemma filter_neq_remove1:
  "distinct xs \<Longrightarrow> filter (\<lambda>y. y \<noteq> x) xs = remove1 x xs"
  by (simp add: distinct_remove1_removeAll removeAll_filter_not_eq) (rule filter_cong, auto)

lemma map_filter_neq_inj:
  "inj f \<Longrightarrow> map f (filter (\<lambda>y. y \<noteq> x) xs) = filter (\<lambda>y. y \<noteq> f x) (map f xs)"
  by (induction xs) (auto simp: inj_eq)

lemma length_filter_neq:
  "distinct xs \<Longrightarrow> x \<in> set xs \<Longrightarrow> Suc (length (filter (\<lambda>y. y \<noteq> x) xs)) = length xs"
  by (induction xs) (auto intro!: arg_cong[of _ _ length] filter_True)

lemma bind_eq_SomeE:
  assumes "Option.bind m f = Some y"
  obtains x where "m = Some x" and "f x = Some y"
  using assms by (cases m) auto

end
