(* ===== verification/Dfs_Queue.thy ===== *)
theory Dfs_Queue
  imports Dfs_Prelude "HOL-Library.Monad_Syntax" "HOL-Library.Multiset"
begin

text \<open>
  The intrusive doubly linked queues of \<open>src/src/core/dfs_queue.h\<close> and \<open>dfs_queue.c\<close>, on
  an explicit pointer store. A queue is a ring of nodes through a sentinel \<open>h\<close>; the macros
  are the four assignments they expand to, in that order, and following a NULL pointer is
  \<^term>\<open>None\<close>. \<open>is_queue s h xs\<close> relates the store to the list of nodes a client sees: every
  operation is shown to refine the list operation it stands for and to leave every
  disjoint queue alone. The sort of the source is an insertion sort over the ring.
\<close>

section \<open>The code\<close>

record 'a qheap =
  q_prev :: "'a \<Rightarrow> 'a option"
  q_next :: "'a \<Rightarrow> 'a option"

definition set_prev :: "'a \<Rightarrow> 'a option \<Rightarrow> 'a qheap \<Rightarrow> 'a qheap" where
  "set_prev x p s = s\<lparr>q_prev := (q_prev s)(x := p)\<rparr>"

definition set_next :: "'a \<Rightarrow> 'a option \<Rightarrow> 'a qheap \<Rightarrow> 'a qheap" where
  "set_next x p s = s\<lparr>q_next := (q_next s)(x := p)\<rparr>"

definition queue_init :: "'a \<Rightarrow> 'a qheap \<Rightarrow> 'a qheap" where
  "queue_init q s = set_next q (Some q) (set_prev q (Some q) s)"

definition queue_empty :: "'a \<Rightarrow> 'a qheap \<Rightarrow> bool" where
  "queue_empty h s \<longleftrightarrow> q_prev s h = Some h"

definition queue_head :: "'a \<Rightarrow> 'a qheap \<Rightarrow> 'a option" where
  "queue_head h s = q_next s h"

definition queue_tail :: "'a \<Rightarrow> 'a qheap \<Rightarrow> 'a option" where
  "queue_tail h s = q_prev s h"

definition queue_insert_head :: "'a \<Rightarrow> 'a \<Rightarrow> 'a qheap \<Rightarrow> 'a qheap option" where
  "queue_insert_head h x s = do {
     let s = set_next x (q_next s h) s;
     n \<leftarrow> q_next s x;
     let s = set_prev n (Some x) s;
     let s = set_prev x (Some h) s;
     Some (set_next h (Some x) s) }"

definition queue_insert_tail :: "'a \<Rightarrow> 'a \<Rightarrow> 'a qheap \<Rightarrow> 'a qheap option" where
  "queue_insert_tail h x s = do {
     let s = set_prev x (q_prev s h) s;
     p \<leftarrow> q_prev s x;
     let s = set_next p (Some x) s;
     let s = set_next x (Some h) s;
     Some (set_prev h (Some x) s) }"

definition queue_insert_before :: "'a \<Rightarrow> 'a \<Rightarrow> 'a qheap \<Rightarrow> 'a qheap option" where
  "queue_insert_before l e s = do {
     let s = set_prev e (q_prev s l) s;
     let s = set_next e (Some l) s;
     p \<leftarrow> q_prev s l;
     let s = set_next p (Some e) s;
     Some (set_prev l (Some e) s) }"

definition queue_insert_after :: "'a \<Rightarrow> 'a \<Rightarrow> 'a qheap \<Rightarrow> 'a qheap option" where
  "queue_insert_after l e s = do {
     let s = set_next e (q_next s l) s;
     let s = set_prev e (Some l) s;
     n \<leftarrow> q_next s l;
     let s = set_prev n (Some e) s;
     Some (set_next l (Some e) s) }"

definition queue_remove :: "'a \<Rightarrow> 'a qheap \<Rightarrow> 'a qheap option" where
  "queue_remove x s = do {
     n \<leftarrow> q_next s x;
     let s = set_prev n (q_prev s x) s;
     p \<leftarrow> q_prev s x;
     let s = set_next p (q_next s x) s;
     Some (set_prev x None (set_next x None s)) }"

definition queue_add_queue :: "'a \<Rightarrow> 'a \<Rightarrow> 'a qheap \<Rightarrow> 'a qheap option" where
  "queue_add_queue h n s = do {
     hp \<leftarrow> q_prev s h;
     let s = set_next hp (q_next s n) s;
     nn \<leftarrow> q_next s n;
     let s = set_prev nn (q_prev s h) s;
     let s = set_prev h (q_prev s n) s;
     hp \<leftarrow> q_prev s h;
     Some (set_next hp (Some h) s) }"

definition queue_split :: "'a \<Rightarrow> 'a \<Rightarrow> 'a \<Rightarrow> 'a qheap \<Rightarrow> 'a qheap option" where
  "queue_split h q n s = do {
     let s = set_prev n (q_prev s h) s;
     np \<leftarrow> q_prev s n;
     let s = set_next np (Some n) s;
     let s = set_next n (Some q) s;
     let s = set_prev h (q_prev s q) s;
     hp \<leftarrow> q_prev s h;
     let s = set_next hp (Some h) s;
     Some (set_prev q (Some n) s) }"

text \<open>
  The four assignments with which \<open>pop_all\<close> and \<open>save_image\<close> hang the nodes of a non-empty
  queue \<open>h\<close> under another sentinel \<open>q\<close>. They do not touch \<open>h\<close> itself.
\<close>

definition queue_take_over :: "'a \<Rightarrow> 'a \<Rightarrow> 'a qheap \<Rightarrow> 'a qheap option" where
  "queue_take_over q h s = do {
     let s = set_next q (q_next s h) s;
     let s = set_prev q (q_prev s h) s;
     n \<leftarrow> q_next s q;
     let s = set_prev n (Some q) s;
     p \<leftarrow> q_prev s q;
     Some (set_next p (Some q) s) }"

partial_function (option) middle_loop :: "'a \<Rightarrow> 'a \<Rightarrow> 'a \<Rightarrow> 'a qheap \<Rightarrow> 'a option" where
  "middle_loop queue middle nxt s = do {
     middle \<leftarrow> q_next s middle;
     nxt \<leftarrow> q_next s nxt;
     if Some nxt = queue_tail queue s then Some middle
     else do {
       nxt \<leftarrow> q_next s nxt;
       if Some nxt = queue_tail queue s then Some middle
       else middle_loop queue middle nxt s } }"

definition queue_middle :: "'a \<Rightarrow> 'a qheap \<Rightarrow> 'a option" where
  "queue_middle queue s = do {
     middle \<leftarrow> queue_head queue s;
     if Some middle = queue_tail queue s then Some middle
     else middle_loop queue middle middle s }"

text \<open>
  \<open>queue_sort\<close>: \<open>sort_back\<close> is the inner do-while that walks \<open>prev\<close> towards the sentinel,
  \<open>sort_loop\<close> the outer for loop.
\<close>

partial_function (option) sort_back ::
    "('a \<Rightarrow> 'a \<Rightarrow> int) \<Rightarrow> 'a \<Rightarrow> 'a \<Rightarrow> 'a \<Rightarrow> 'a qheap \<Rightarrow> 'a option" where
  "sort_back cmp queue prv q s =
     (if cmp prv q \<le> 0 then Some prv
      else do {
        prv \<leftarrow> q_prev s prv;
        if prv \<noteq> queue then sort_back cmp queue prv q s else Some prv })"

partial_function (option) sort_loop ::
    "('a \<Rightarrow> 'a \<Rightarrow> int) \<Rightarrow> 'a \<Rightarrow> 'a \<Rightarrow> 'a qheap \<Rightarrow> 'a qheap option" where
  "sort_loop cmp queue q s =
     (if q = queue then Some s
      else do {
        prv \<leftarrow> q_prev s q;
        nxt \<leftarrow> q_next s q;
        s \<leftarrow> queue_remove q s;
        prv \<leftarrow> sort_back cmp queue prv q s;
        s \<leftarrow> queue_insert_head prv q s;
        sort_loop cmp queue nxt s })"

definition queue_sort :: "('a \<Rightarrow> 'a \<Rightarrow> int) \<Rightarrow> 'a \<Rightarrow> 'a qheap \<Rightarrow> 'a qheap option" where
  "queue_sort cmp queue s = do {
     q \<leftarrow> queue_head queue s;
     if Some q = queue_tail queue s then Some s
     else do {
       q \<leftarrow> q_next s q;
       sort_loop cmp queue q s } }"

section \<open>Rings and the lists they hold\<close>

fun linked :: "'a qheap \<Rightarrow> 'a \<Rightarrow> 'a list \<Rightarrow> 'a \<Rightarrow> bool" where
  "linked s a [] b \<longleftrightarrow> q_next s a = Some b \<and> q_prev s b = Some a"
| "linked s a (x # xs) b \<longleftrightarrow> q_next s a = Some x \<and> q_prev s x = Some a \<and> linked s x xs b"

definition is_queue :: "'a qheap \<Rightarrow> 'a \<Rightarrow> 'a list \<Rightarrow> bool" where
  "is_queue s h xs \<longleftrightarrow> distinct (h # xs) \<and> linked s h xs h"

lemma set_link_simps [simp]:
  "q_prev (set_prev x p s) = (q_prev s)(x := p)"
  "q_next (set_prev x p s) = q_next s"
  "q_prev (set_next x p s) = q_prev s"
  "q_next (set_next x p s) = (q_next s)(x := p)"
  by (simp_all add: set_prev_def set_next_def)

lemma linked_append:
  "linked s a (xs @ y # ys) b \<longleftrightarrow> linked s a xs y \<and> linked s y ys b"
  by (induction xs arbitrary: a) auto

lemma linked_cong:
  assumes "\<And>x. x \<in> insert a (set xs) \<Longrightarrow> q_next s' x = q_next s x"
    and "\<And>x. x \<in> insert b (set xs) \<Longrightarrow> q_prev s' x = q_prev s x"
  shows "linked s' a xs b = linked s a xs b"
  using assms by (induction xs arbitrary: a) auto

lemma linked_next: "linked s a xs b \<Longrightarrow> q_next s a = Some (hd (xs @ [b]))"
  by (cases xs) auto

lemma linked_prev: "linked s a xs b \<Longrightarrow> q_prev s b = Some (last (a # xs))"
  by (induction xs arbitrary: a) auto

text \<open>A ring is determined by the links of its own nodes: the frame rule.\<close>

lemma is_queue_cong:
  assumes "\<And>x. x \<in> insert h (set xs) \<Longrightarrow> q_next s' x = q_next s x"
    and "\<And>x. x \<in> insert h (set xs) \<Longrightarrow> q_prev s' x = q_prev s x"
  shows "is_queue s' h xs = is_queue s h xs"
  using linked_cong[of h xs s' s h] assms by (simp add: is_queue_def)

lemma is_queue_init: "is_queue (queue_init h s) h []"
  by (simp add: is_queue_def queue_init_def)

lemma queue_head_eq: "is_queue s h xs \<Longrightarrow> queue_head h s = Some (hd (xs @ [h]))"
  by (simp add: is_queue_def queue_head_def linked_next)

lemma queue_tail_eq: "is_queue s h xs \<Longrightarrow> queue_tail h s = Some (last (h # xs))"
  by (auto simp: is_queue_def queue_tail_def dest: linked_prev)

lemma queue_empty_eq: "is_queue s h xs \<Longrightarrow> queue_empty h s \<longleftrightarrow> xs = []"
  using queue_tail_eq[of s h xs]
  by (auto simp: queue_empty_def queue_tail_def is_queue_def split: if_splits)

lemma is_queue_inj: "is_queue s h xs \<Longrightarrow> is_queue s h ys \<Longrightarrow> xs = ys"
proof -
  have "linked s a xs h \<Longrightarrow> linked s a ys h \<Longrightarrow> h \<notin> set xs \<Longrightarrow> h \<notin> set ys \<Longrightarrow> xs = ys" for a
  proof (induction xs arbitrary: ys a)
    case Nil
    then show ?case by (cases ys) auto
  next
    case (Cons x xs)
    then show ?case by (cases ys) auto
  qed
  then show "is_queue s h xs \<Longrightarrow> is_queue s h ys \<Longrightarrow> xs = ys"
    by (auto simp: is_queue_def)
qed

section \<open>Linking a node in and out\<close>

definition link_in :: "'a \<Rightarrow> 'a \<Rightarrow> 'a \<Rightarrow> 'a qheap \<Rightarrow> 'a qheap" where
  "link_in p x n s = s\<lparr>q_next := (q_next s)(x := Some n, p := Some x),
                       q_prev := (q_prev s)(x := Some p, n := Some x)\<rparr>"

definition link_out :: "'a \<Rightarrow> 'a \<Rightarrow> 'a \<Rightarrow> 'a qheap \<Rightarrow> 'a qheap" where
  "link_out p x n s = s\<lparr>q_next := (q_next s)(p := Some n, x := None),
                        q_prev := (q_prev s)(n := Some p, x := None)\<rparr>"

lemma linked_link_in:
  assumes "linked s a (xs @ ys) b" and "x \<notin> {a, b} \<union> set (xs @ ys)"
    and "distinct (xs @ ys)" and "a \<notin> set (xs @ ys)" and "b \<notin> set (xs @ ys)"
  shows "linked (link_in (last (a # xs)) x (hd (ys @ [b])) s) a (xs @ x # ys) b"
  using assms
proof (induction xs arbitrary: a)
  case Nil
  show ?case
  proof (cases ys)
    case Nil
    with Nil.prems show ?thesis by (simp add: link_in_def)
  next
    case (Cons y zs)
    with Nil.prems have "linked s y zs b" by simp
    then have "linked (link_in a x y s) y zs b"
      using Nil.prems Cons by (subst linked_cong[where s = s]) (auto simp: link_in_def)
    then show ?thesis using Nil.prems Cons by (simp add: link_in_def)
  qed
next
  case (Cons z xs)
  have "linked (link_in (last (z # xs)) x (hd (ys @ [b])) s) z (xs @ x # ys) b"
    using Cons.prems by (intro Cons.IH) auto
  moreover have "last (z # xs) \<noteq> a" "hd (ys @ [b]) \<noteq> z"
    using Cons.prems by (auto simp: hd_append split: if_splits)
  ultimately show ?case using Cons.prems by (auto simp: link_in_def)
qed

lemma linked_link_out:
  assumes "linked s a (xs @ x # ys) b"
    and "distinct (xs @ x # ys)" and "a \<notin> set (xs @ x # ys)" and "b \<notin> set (xs @ x # ys)"
  shows "linked (link_out (last (a # xs)) x (hd (ys @ [b])) s) a (xs @ ys) b"
  using assms
proof (induction xs arbitrary: a)
  case Nil
  show ?case
  proof (cases ys)
    case Nil
    with Nil.prems show ?thesis by (simp add: link_out_def)
  next
    case (Cons y zs)
    with Nil.prems have "linked s y zs b" by simp
    then have "linked (link_out a x y s) y zs b"
      using Nil.prems Cons by (subst linked_cong[where s = s]) (auto simp: link_out_def)
    then show ?thesis using Nil.prems Cons by (auto simp: link_out_def)
  qed
next
  case (Cons z xs)
  have "linked (link_out (last (z # xs)) x (hd (ys @ [b])) s) z (xs @ ys) b"
    using Cons.prems by (intro Cons.IH) auto
  moreover have "last (z # xs) \<noteq> a" "hd (ys @ [b]) \<noteq> z"
    using Cons.prems by (auto simp: hd_append split: if_splits)
  ultimately show ?case using Cons.prems by (auto simp: link_out_def)
qed

lemma is_queue_link_in:
  "is_queue s h (xs @ ys) \<Longrightarrow> x \<notin> insert h (set (xs @ ys)) \<Longrightarrow>
     is_queue (link_in (last (h # xs)) x (hd (ys @ [h])) s) h (xs @ x # ys)"
  using linked_link_in[of s h xs ys h x] by (auto simp: is_queue_def)

lemma is_queue_link_out:
  "is_queue s h (xs @ x # ys) \<Longrightarrow>
     is_queue (link_out (last (h # xs)) x (hd (ys @ [h])) s) h (xs @ ys)"
  using linked_link_out[of s h xs x ys h] by (auto simp: is_queue_def)

lemma is_queue_neighbours:
  assumes "is_queue s h (xs @ x # ys)"
  shows "q_prev s x = Some (last (h # xs))" and "q_next s x = Some (hd (ys @ [h]))"
  using assms by (auto simp: is_queue_def linked_append dest: linked_prev linked_next)

lemma last_in_ring: "last (h # xs) \<in> insert h (set xs)"
  by auto

lemma hd_in_ring: "hd (ys @ [h]) \<in> insert h (set ys)"
  by (auto simp: hd_append)

text \<open>Which nodes an operation may write: everything else is the frame.\<close>

definition same_links :: "'a set \<Rightarrow> 'a qheap \<Rightarrow> 'a qheap \<Rightarrow> bool" where
  "same_links A s s' \<longleftrightarrow> (\<forall>x\<in>A. q_next s' x = q_next s x \<and> q_prev s' x = q_prev s x)"

lemma same_links_is_queue:
  "same_links A s s' \<Longrightarrow> insert h (set xs) \<subseteq> A \<Longrightarrow> is_queue s h xs \<Longrightarrow> is_queue s' h xs"
  by (subst is_queue_cong[where s = s]) (auto simp: same_links_def)

lemma same_links_trans:
  "same_links A s t \<Longrightarrow> same_links A t u \<Longrightarrow> same_links A s u"
  by (simp add: same_links_def)

lemma same_links_link_in: "A \<inter> {p, x, n} = {} \<Longrightarrow> same_links A s (link_in p x n s)"
  by (auto simp: same_links_def link_in_def)

lemma same_links_link_out: "A \<inter> {p, x, n} = {} \<Longrightarrow> same_links A s (link_out p x n s)"
  by (auto simp: same_links_def link_out_def)

section \<open>The macros refine list operations\<close>

lemma queue_insert_tail_refines:
  assumes "is_queue s h xs" and "x \<notin> insert h (set xs)"
  obtains s' where "queue_insert_tail h x s = Some s'" and "is_queue s' h (xs @ [x])"
    and "same_links (- insert x (insert h (set xs))) s s'"
proof
  let ?p = "last (h # xs)"
  have "q_prev s h = Some ?p" using queue_tail_eq[OF assms(1)] by (simp add: queue_tail_def)
  moreover have "?p \<noteq> x" using assms(2) last_in_ring[of h xs] by auto
  ultimately show "queue_insert_tail h x s = Some (link_in ?p x h s)"
    using assms(2) by (simp add: queue_insert_tail_def link_in_def set_prev_def set_next_def fun_upd_twist)
  show "is_queue (link_in ?p x h s) h (xs @ [x])"
    using is_queue_link_in[of s h xs "[]" x] assms by simp
  show "same_links (- insert x (insert h (set xs))) s (link_in ?p x h s)"
    using last_in_ring[of h xs] by (intro same_links_link_in) auto
qed

lemma queue_insert_head_refines:
  assumes "is_queue s h (xs @ ys)" and "x \<notin> insert h (set (xs @ ys))" and "a = last (h # xs)"
  obtains s' where "queue_insert_head a x s = Some s'" and "is_queue s' h (xs @ x # ys)"
    and "same_links (- insert x (insert h (set (xs @ ys)))) s s'"
proof
  let ?n = "hd (ys @ [h])"
  have "q_next s a = Some ?n"
  proof (cases xs rule: rev_cases)
    case Nil
    with assms(1,3) queue_head_eq[of s h ys] show ?thesis by (simp add: queue_head_def)
  next
    case (snoc zs z)
    with assms(1,3) is_queue_neighbours(2)[of s h zs z ys] show ?thesis by simp
  qed
  moreover have "?n \<noteq> x" "a \<noteq> x" using assms(2,3) last_in_ring[of h xs] hd_in_ring[of ys h] by auto
  ultimately show "queue_insert_head a x s = Some (link_in a x ?n s)"
    by (simp add: queue_insert_head_def link_in_def set_prev_def set_next_def fun_upd_twist)
  show "is_queue (link_in a x ?n s) h (xs @ x # ys)"
    using is_queue_link_in[of s h xs ys x] assms by simp
  show "same_links (- insert x (insert h (set (xs @ ys)))) s (link_in a x ?n s)"
    using assms(3) last_in_ring[of h xs] hd_in_ring[of ys h] by (intro same_links_link_in) auto
qed

lemma queue_remove_refines:
  assumes "is_queue s h (xs @ x # ys)"
  obtains s' where "queue_remove x s = Some s'" and "is_queue s' h (xs @ ys)"
    and "q_next s' x = None" and "q_prev s' x = None"
    and "same_links (- insert h (set (xs @ x # ys))) s s'"
proof
  let ?p = "last (h # xs)" and ?n = "hd (ys @ [h])"
  have "?p \<noteq> x" "?n \<noteq> x"
    using assms last_in_ring[of h xs] hd_in_ring[of ys h] by (auto simp: is_queue_def)
  then show "queue_remove x s = Some (link_out ?p x ?n s)"
    using is_queue_neighbours[OF assms]
    by (simp add: queue_remove_def link_out_def set_prev_def set_next_def fun_upd_twist)
  show "is_queue (link_out ?p x ?n s) h (xs @ ys)" by (rule is_queue_link_out[OF assms])
  show "q_next (link_out ?p x ?n s) x = None" "q_prev (link_out ?p x ?n s) x = None"
    by (simp_all add: link_out_def)
  show "same_links (- insert h (set (xs @ x # ys))) s (link_out ?p x ?n s)"
    using last_in_ring[of h xs] hd_in_ring[of ys h] by (intro same_links_link_out) auto
qed

lemma queue_take_over_refines:
  assumes "is_queue s h xs" and "xs \<noteq> []" and "q \<notin> insert h (set xs)"
  obtains s' where "queue_take_over q h s = Some s'" and "is_queue s' q xs"
    and "q_next s' h = q_next s h" and "q_prev s' h = q_prev s h"
    and "same_links (- insert q (set xs)) s s'"
proof
  define x y where "x = hd xs" and "y = last xs"
  let ?s = "s\<lparr>q_next := (q_next s)(q := Some x, y := Some q), q_prev := (q_prev s)(q := Some y, x := Some q)\<rparr>"
  have xy: "x \<in> set xs" "y \<in> set xs" using assms(2) by (auto simp: x_def y_def)
  have ends: "q_next s h = Some x" "q_prev s h = Some y"
    using queue_head_eq[OF assms(1)] queue_tail_eq[OF assms(1)] assms(2)
    by (auto simp: queue_head_def queue_tail_def x_def y_def)
  then show "queue_take_over q h s = Some ?s"
    using xy assms(3) by (auto simp: queue_take_over_def set_prev_def set_next_def Let_def)
  show "q_next ?s h = q_next s h" "q_prev ?s h = q_prev s h"
    using xy assms(1,3) by (auto simp: is_queue_def)
  show "same_links (- insert q (set xs)) s ?s" using xy by (auto simp: same_links_def)
  have "linked ?s q xs q"
  proof (cases "tl xs = []")
    case True
    then have "xs = [x]" using assms(2) by (cases xs) (auto simp: x_def)
    then show ?thesis using assms(3) by (auto simp: y_def)
  next
    case False
    then obtain mid where mid: "xs = x # mid @ [y]"
      using assms(2) by (cases xs; cases "tl xs" rule: rev_cases) (auto simp: x_def y_def)
    then have "linked s x mid y" using assms(1) by (simp add: is_queue_def linked_append)
    then have "linked ?s x mid y"
      using assms(1,3) mid by (subst linked_cong[where s = s]) (auto simp: is_queue_def)
    then show ?thesis using assms(1,3) mid by (auto simp: linked_append is_queue_def)
  qed
  then show "is_queue ?s q xs" using assms(1,3) by (simp add: is_queue_def)
qed

text \<open>A node that is not queued (its links are NULL) cannot be removed again.\<close>

lemma queue_remove_twice:
  assumes "is_queue s h (xs @ x # ys)" and "queue_remove x s = Some s'"
  shows "queue_remove x s' = None"
proof -
  obtain t where "queue_remove x s = Some t" and "q_next t x = None"
    using queue_remove_refines[OF assms(1)] .
  with assms(2) show ?thesis by (simp add: queue_remove_def)
qed

section \<open>The queue interface\<close>

text \<open>
  What the components that keep tasks, blocks and inodes in queues rely on. The laws are the
  list view of the three macros the name node uses; the client lemmas about whole batches
  are proved once from them.
\<close>

locale queue_interface =
  fixes holds :: "'s \<Rightarrow> 'a \<Rightarrow> 'a list \<Rightarrow> bool"
    and ins_head :: "'a \<Rightarrow> 'a \<Rightarrow> 's \<Rightarrow> 's option"
    and ins_tail :: "'a \<Rightarrow> 'a \<Rightarrow> 's \<Rightarrow> 's option"
    and rem :: "'a \<Rightarrow> 's \<Rightarrow> 's option"
  assumes holds_distinct: "holds s h xs \<Longrightarrow> distinct (h # xs)"
    and ins_head_holds: "holds s h xs \<Longrightarrow> x \<notin> insert h (set xs) \<Longrightarrow>
          \<exists>s'. ins_head h x s = Some s' \<and> holds s' h (x # xs)"
    and ins_tail_holds: "holds s h xs \<Longrightarrow> x \<notin> insert h (set xs) \<Longrightarrow>
          \<exists>s'. ins_tail h x s = Some s' \<and> holds s' h (xs @ [x])"
    and rem_holds: "holds s h (xs @ x # ys) \<Longrightarrow> \<exists>s'. rem x s = Some s' \<and> holds s' h (xs @ ys)"
begin

lemma ins_head_batch:
  "holds s h ys \<Longrightarrow> distinct xs \<Longrightarrow> set xs \<inter> insert h (set ys) = {} \<Longrightarrow>
     \<exists>s'. fold (\<lambda>x m. Option.bind m (ins_head h x)) xs (Some s) = Some s' \<and> holds s' h (rev xs @ ys)"
proof (induction xs arbitrary: s ys)
  case Nil
  then show ?case by simp
next
  case (Cons x xs)
  then obtain t where t: "ins_head h x s = Some t" "holds t h (x # ys)"
    using ins_head_holds[of s h ys x] by auto
  with Cons.prems Cons.IH[OF t(2)] show ?case by auto
qed

lemma ins_tail_batch:
  "holds s h ys \<Longrightarrow> distinct xs \<Longrightarrow> set xs \<inter> insert h (set ys) = {} \<Longrightarrow>
     \<exists>s'. fold (\<lambda>x m. Option.bind m (ins_tail h x)) xs (Some s) = Some s' \<and> holds s' h (ys @ xs)"
proof (induction xs arbitrary: s ys)
  case Nil
  then show ?case by simp
next
  case (Cons x xs)
  then obtain t where t: "ins_tail h x s = Some t" "holds t h (ys @ [x])"
    using ins_tail_holds[of s h ys x] by auto
  with Cons.prems Cons.IH[OF t(2)] show ?case by auto
qed

lemma rem_last: "holds s h (xs @ [x]) \<Longrightarrow> \<exists>s'. rem x s = Some s' \<and> holds s' h xs"
  using rem_holds[of s h xs x "[]"] by simp

lemma rem_first: "holds s h (x # xs) \<Longrightarrow> \<exists>s'. rem x s = Some s' \<and> holds s' h xs"
  using rem_holds[of s h "[]" x xs] by simp

end

interpretation dq: queue_interface is_queue queue_insert_head queue_insert_tail queue_remove
proof unfold_locales
  fix s h xs
  show "is_queue s h xs \<Longrightarrow> distinct (h # xs)" by (simp add: is_queue_def)
next
  fix s h xs x
  assume "is_queue s h xs" "x \<notin> insert h (set xs)"
  then show "\<exists>s'. queue_insert_head h x s = Some s' \<and> is_queue s' h (x # xs)"
    using queue_insert_head_refines[of s h "[]" xs x h] by auto
next
  fix s h xs x
  assume "is_queue s h xs" "x \<notin> insert h (set xs)"
  then show "\<exists>s'. queue_insert_tail h x s = Some s' \<and> is_queue s' h (xs @ [x])"
    using queue_insert_tail_refines[of s h xs x] by blast
next
  fix s h xs x ys
  assume "is_queue s h (xs @ x # ys)"
  then show "\<exists>s'. queue_remove x s = Some s' \<and> is_queue s' h (xs @ ys)"
    using queue_remove_refines[of s h xs x ys] by blast
qed

section \<open>The middle element\<close>

lemma is_queue_next_nth:
  assumes "is_queue s h xs" and "Suc i < length xs"
  shows "q_next s (xs ! i) = Some (xs ! Suc i)"
proof -
  have "xs = take i xs @ xs ! i # drop (Suc i) xs" using assms(2) by (simp add: id_take_nth_drop)
  moreover have "drop (Suc i) xs = xs ! Suc i # drop (Suc (Suc i)) xs"
    using assms(2) by (simp add: Cons_nth_drop_Suc)
  ultimately show ?thesis
    using is_queue_neighbours(2)[of s h "take i xs" "xs ! i" "drop (Suc i) xs"] assms(1)
    by (metis append_Cons list.sel(1))
qed

lemma is_queue_tail_nth:
  assumes "is_queue s h xs" and "i < length xs"
  shows "Some (xs ! i) = queue_tail h s \<longleftrightarrow> i = length xs - 1"
proof -
  have "last (h # xs) = xs ! (length xs - 1)" using assms(2) by (auto simp: last_conv_nth)
  then show ?thesis
    using assms queue_tail_eq[OF assms(1)] by (auto simp: is_queue_def nth_eq_iff_index_eq)
qed

lemma middle_loop_correct:
  assumes "is_queue s h xs" and "Suc (2 * i) < length xs"
  shows "middle_loop h (xs ! i) (xs ! (2 * i)) s = Some (xs ! (length xs div 2))"
  using assms(2)
proof (induction "length xs - 2 * i" arbitrary: i rule: less_induct)
  case less
  note nx = is_queue_next_nth[OF assms(1)] and tl = is_queue_tail_nth[OF assms(1)]
  show ?case
  proof (cases "Suc (2 * i) = length xs - 1")
    case True
    then have "length xs div 2 = Suc i" using less.prems by arith
    with True less.prems show ?thesis by (subst middle_loop.simps) (simp add: nx tl)
  next
    case more: False
    then have lt: "Suc (Suc (2 * i)) < length xs" using less.prems by arith
    show ?thesis
    proof (cases "Suc (Suc (2 * i)) = length xs - 1")
      case True
      then have "length xs div 2 = Suc i" using lt by arith
      with True more lt show ?thesis by (subst middle_loop.simps) (simp add: nx tl)
    next
      case False
      then have "Suc (2 * Suc i) < length xs" using lt by arith
      then have "middle_loop h (xs ! Suc i) (xs ! (2 * Suc i)) s = Some (xs ! (length xs div 2))"
        using lt by (intro less.hyps) auto
      with False more lt show ?thesis by (subst middle_loop.simps) (simp add: nx tl)
    qed
  qed
qed

lemma queue_middle_correct:
  assumes "is_queue s h xs" and "xs \<noteq> []"
  shows "queue_middle h s = Some (xs ! (length xs div 2))"
proof -
  have hd: "queue_head h s = Some (xs ! 0)"
    using queue_head_eq[OF assms(1)] assms(2) by (cases xs) auto
  show ?thesis
  proof (cases "length xs = 1")
    case True
    then have "queue_tail h s = Some (xs ! 0)" using is_queue_tail_nth[OF assms(1), of 0] by simp
    with True hd show ?thesis by (simp add: queue_middle_def)
  next
    case False
    with assms(2) have "Suc 0 < length xs" by (cases xs) auto
    then show ?thesis
      using hd assms(2) is_queue_tail_nth[OF assms(1), of 0] middle_loop_correct[OF assms(1), of 0]
      by (auto simp: queue_middle_def)
  qed
qed

section \<open>Sorting\<close>

text \<open>
  The list the sort computes: \<open>sort_split\<close> splits the sorted prefix where the inner loop
  stops, \<open>sort_list\<close> folds the remaining nodes into it.
\<close>

definition sort_split :: "('a \<Rightarrow> 'a \<Rightarrow> int) \<Rightarrow> 'a \<Rightarrow> 'a list \<Rightarrow> 'a list \<times> 'a list" where
  "sort_split cmp q pre =
     (rev (dropWhile (\<lambda>p. cmp p q > 0) (rev pre)), rev (takeWhile (\<lambda>p. cmp p q > 0) (rev pre)))"

fun sort_list :: "('a \<Rightarrow> 'a \<Rightarrow> int) \<Rightarrow> 'a list \<Rightarrow> 'a list \<Rightarrow> 'a list" where
  "sort_list cmp pre [] = pre"
| "sort_list cmp pre (q # qs) =
     (case sort_split cmp q pre of (us, vs) \<Rightarrow> sort_list cmp (us @ q # vs) qs)"

lemma sort_split_append: "sort_split cmp q pre = (us, vs) \<Longrightarrow> us @ vs = pre"
  by (auto simp: sort_split_def simp flip: rev_append)

lemma sort_split_snoc:
  "sort_split cmp q (pre @ [p]) =
     (if cmp p q > 0 then (case sort_split cmp q pre of (us, vs) \<Rightarrow> (us, vs @ [p])) else (pre @ [p], []))"
  by (simp add: sort_split_def)

lemma sort_back_correct:
  assumes "is_queue s h (pre @ rest)" and "pre \<noteq> []" and "sort_split cmp q pre = (us, vs)"
  shows "sort_back cmp h (last pre) q s = Some (last (h # us))"
  using assms
proof (induction pre arbitrary: rest us vs rule: rev_induct)
  case Nil
  then show ?case by simp
next
  case (snoc p pre)
  show ?case
  proof (cases "cmp p q > 0")
    case False
    with snoc.prems show ?thesis
      by (subst sort_back.simps) (auto simp: sort_split_snoc)
  next
    case gt: True
    from snoc.prems(1) have prv: "q_prev s p = Some (last (h # pre))"
      using is_queue_neighbours(1)[of s h pre p rest] by simp
    obtain us' vs' where sp: "sort_split cmp q pre = (us', vs')" by fastforce
    with gt snoc.prems(3) have us: "us = us'" by (simp add: sort_split_snoc)
    show ?thesis
    proof (cases "pre = []")
      case True
      with sp us have "us = []" by (simp add: sort_split_def)
      with True gt prv show ?thesis by (subst sort_back.simps) simp
    next
      case False
      then have "last (h # pre) \<noteq> h" using snoc.prems(1) by (auto simp: is_queue_def)
      moreover have "sort_back cmp h (last pre) q s = Some (last (h # us))"
        using snoc.IH[of "p # rest" us' vs'] snoc.prems(1) False sp us by simp
      ultimately show ?thesis using gt prv False by (subst sort_back.simps) simp
    qed
  qed
qed

lemma sort_loop_correct:
  assumes "is_queue s h (pre @ qs)" and "pre \<noteq> []"
  shows "\<exists>s'. sort_loop cmp h (hd (qs @ [h])) s = Some s' \<and> is_queue s' h (sort_list cmp pre qs)"
  using assms
proof (induction qs arbitrary: pre s)
  case Nil
  then show ?case by (subst sort_loop.simps) simp
next
  case (Cons q qs)
  obtain us vs where sp: "sort_split cmp q pre = (us, vs)" by fastforce
  note pre = sort_split_append[OF sp]
  have nb: "q_prev s q = Some (last pre)" "q_next s q = Some (hd (qs @ [h]))"
    using is_queue_neighbours[OF Cons.prems(1)] Cons.prems(2) by auto
  have qh: "q \<noteq> h" and qn: "q \<notin> insert h (set (us @ vs @ qs))"
    using Cons.prems(1) pre by (auto simp: is_queue_def)
  obtain s1 where s1: "queue_remove q s = Some s1" "is_queue s1 h (pre @ qs)"
    using queue_remove_refines[OF Cons.prems(1)] by blast
  have bk: "sort_back cmp h (last pre) q s1 = Some (last (h # us))"
    by (rule sort_back_correct[OF s1(2) Cons.prems(2) sp])
  have ring: "is_queue s1 h (us @ (vs @ qs))" using s1(2) pre by (simp flip: append_assoc)
  obtain s2 where s2: "queue_insert_head (last (h # us)) q s1 = Some s2"
      "is_queue s2 h (us @ q # (vs @ qs))"
    using queue_insert_head_refines[OF ring qn refl] .
  have "\<exists>s'. sort_loop cmp h (hd (qs @ [h])) s2 = Some s' \<and> is_queue s' h (sort_list cmp (us @ q # vs) qs)"
    using Cons.IH[of s2 "us @ q # vs"] s2(2) by simp
  moreover have "sort_loop cmp h q s = sort_loop cmp h (hd (qs @ [h])) s2"
    using qh nb s1(1) bk s2(1) by (subst sort_loop.simps) simp
  ultimately show ?case using sp by simp
qed

lemma queue_sort_refines:
  assumes "is_queue s h xs"
  shows "\<exists>s'. queue_sort cmp h s = Some s' \<and> is_queue s' h (sort_list cmp (take 1 xs) (drop 1 xs))"
proof (cases xs)
  case Nil
  then show ?thesis
    using assms queue_head_eq[OF assms] queue_tail_eq[OF assms] by (simp add: queue_sort_def)
next
  case (Cons x ys)
  have hd: "queue_head h s = Some x" using queue_head_eq[OF assms] Cons by simp
  show ?thesis
  proof (cases ys)
    case Nil
    then show ?thesis using assms hd Cons queue_tail_eq[OF assms] by (simp add: queue_sort_def)
  next
    case (Cons y zs)
    have "queue_tail h s \<noteq> Some x"
      using queue_tail_eq[OF assms] assms \<open>xs = x # ys\<close> Cons by (auto simp: is_queue_def)
    moreover have "q_next s x = Some y"
      using is_queue_neighbours(2)[of s h "[]" x ys] assms \<open>xs = x # ys\<close> Cons by simp
    ultimately have "queue_sort cmp h s = sort_loop cmp h y s"
      using hd by (auto simp: queue_sort_def)
    then show ?thesis
      using sort_loop_correct[of s h "[x]" ys cmp] assms \<open>xs = x # ys\<close> Cons by simp
  qed
qed

lemma sort_list_mset: "mset (sort_list cmp pre qs) = mset pre + mset qs"
proof (induction qs arbitrary: pre)
  case Nil
  then show ?case by simp
next
  case (Cons q qs)
  obtain us vs where sp: "sort_split cmp q pre = (us, vs)" by fastforce
  with Cons sort_split_append[OF sp] show ?case by auto
qed

locale queue_cmp =
  fixes cmp :: "'a \<Rightarrow> 'a \<Rightarrow> int"
  assumes cmp_total: "cmp a b > 0 \<Longrightarrow> cmp b a \<le> 0"
    and cmp_trans: "cmp a b \<le> 0 \<Longrightarrow> cmp b c \<le> 0 \<Longrightarrow> cmp a c \<le> 0"
begin

lemma sort_split_sorted:
  assumes "sorted_wrt (\<lambda>a b. cmp a b \<le> 0) pre" and sp: "sort_split cmp q pre = (us, vs)"
  shows "sorted_wrt (\<lambda>a b. cmp a b \<le> 0) (us @ q # vs)"
proof -
  have "us @ vs = pre" by (rule sort_split_append[OF sp])
  with assms(1) have so: "sorted_wrt (\<lambda>a b. cmp a b \<le> 0) (us @ vs)" by simp
  have vs: "cmp q v \<le> 0" if "v \<in> set vs" for v
    using sp that by (auto simp: sort_split_def intro!: cmp_total dest: set_takeWhileD)
  have us: "cmp u q \<le> 0" if "u \<in> set us" for u
  proof -
    have "us \<noteq> []" using that by auto
    with sp have "dropWhile (\<lambda>p. cmp p q > 0) (rev pre) \<noteq> []" by (auto simp: sort_split_def)
    from hd_dropWhile[OF this] have lst: "cmp (last us) q \<le> 0"
      using sp by (auto simp: sort_split_def last_rev)
    have "u = last us \<or> cmp u (last us) \<le> 0"
      using so that by (cases us rule: rev_cases) (auto simp: sorted_wrt_append)
    then show ?thesis using lst cmp_trans by blast
  qed
  show ?thesis using so us vs cmp_trans by (auto simp: sorted_wrt_append)
qed

lemma sort_list_sorted:
  "sorted_wrt (\<lambda>a b. cmp a b \<le> 0) pre \<Longrightarrow> sorted_wrt (\<lambda>a b. cmp a b \<le> 0) (sort_list cmp pre qs)"
proof (induction qs arbitrary: pre)
  case Nil
  then show ?case by simp
next
  case (Cons q qs)
  obtain us vs where sp: "sort_split cmp q pre = (us, vs)" by fastforce
  with Cons sort_split_sorted[OF Cons.prems sp] show ?case by simp
qed

lemma queue_sort_sorts:
  assumes "is_queue s h xs"
  shows "\<exists>s' ys. queue_sort cmp h s = Some s' \<and> is_queue s' h ys \<and> mset ys = mset xs \<and>
           sorted_wrt (\<lambda>a b. cmp a b \<le> 0) ys"
proof -
  let ?ys = "sort_list cmp (take 1 xs) (drop 1 xs)"
  have "mset ?ys = mset xs"
    by (simp add: sort_list_mset) (metis append_take_drop_id mset_append)
  moreover have "sorted_wrt (\<lambda>a b. cmp a b \<le> 0) ?ys"
    by (rule sort_list_sorted) (cases xs, auto)
  ultimately show ?thesis using queue_sort_refines[OF assms, of cmp] by blast
qed

end

text \<open>Nodes that carry an integer key, compared by the difference of their keys.\<close>

definition key_cmp :: "('a \<Rightarrow> int) \<Rightarrow> 'a \<Rightarrow> 'a \<Rightarrow> int" where
  "key_cmp k a b = k a - k b"

interpretation kc: queue_cmp "key_cmp k" for k :: "'a \<Rightarrow> int"
  by unfold_locales (auto simp: key_cmp_def)

text \<open>
  C36. \<open>queue_sort\<close> returns on every well-formed queue: the result is a well-formed queue with the same
  nodes, ordered by their keys.
\<close>

theorem queue_sort_by_key:
  assumes "is_queue s h xs"
  shows "\<exists>s' ys. queue_sort (key_cmp k) h s = Some s' \<and> is_queue s' h ys \<and> mset ys = mset xs \<and> sorted_wrt (\<lambda>a b. k a \<le> k b) ys"
proof -
  have "(\<lambda>a b. key_cmp k a b \<le> 0) = (\<lambda>a b. k a \<le> k b)" by (simp add: key_cmp_def)
  then show ?thesis using kc.queue_sort_sorts[OF assms, of k] by simp
qed

theorem queue_sort_by_key_witness:
  "\<exists>s s'. is_queue s (0 :: int) [1, 2] \<and> queue_sort (key_cmp uminus) 0 s = Some s' \<and> is_queue s' 0 [2, 1]"
proof -
  have "is_queue (queue_init 0 undefined) (0 :: int) []" by (rule is_queue_init)
  from dq.ins_tail_batch[OF this, of "[1, 2]"] obtain s where s: "is_queue s (0 :: int) [1, 2]" by auto
  from queue_sort_by_key[OF s, of uminus] obtain s' ys where
    ys: "queue_sort (key_cmp uminus) 0 s = Some s'" "is_queue s' 0 ys" "mset ys = mset [1, 2]" "sorted_wrt (\<lambda>a b. - a \<le> - b) ys" by blast
  have "length ys = 2" using arg_cong[OF ys(3), of size] by simp
  then obtain a b where ab: "ys = [a, b]" by (auto simp: numeral_2_eq_2 length_Suc_conv)
  have "ys = [2, 1]" using arg_cong[OF ys(3), of set_mset] ys(4) unfolding ab by (auto simp: doubleton_eq_iff)
  then show ?thesis using s ys(1,2) by blast
qed

end
