(* ===== verification/Nn_Task_Queue.thy ===== *)
theory Nn_Task_Queue
  imports Dfs_Queue
begin

text \<open>
  The task queues between the threads of the name node
  (\<open>src/src/namenode/nn_task_queue.c\<close>) and the loop with which a worker thread empties one
  (\<open>do_task_handler\<close> in \<open>nn_task_handler.c\<close>, \<open>do_paxos_task_handler\<close> in \<open>nn_paxos.c\<close>). A
  task queue is a sentinel of the pointer store of Dfs_Queue; the spin lock makes each
  operation one step. Handling a task is not modelled here: the loop returns the nodes in
  the order it dispatches them.
\<close>

section \<open>The code\<close>

definition push_task :: "'a \<Rightarrow> 'a \<Rightarrow> 'a qheap \<Rightarrow> 'a qheap option" where
  "push_task tq tnode s = queue_insert_head tq tnode s"

definition pop_task :: "'a \<Rightarrow> 'a qheap \<Rightarrow> ('a option \<times> 'a qheap) option" where
  "pop_task tq s =
     (if queue_empty tq s then Some (None, s)
      else do {
        q \<leftarrow> queue_tail tq s;
        s \<leftarrow> queue_remove q s;
        Some (Some q, s) })"

definition pop_all :: "'a \<Rightarrow> 'a \<Rightarrow> 'a qheap \<Rightarrow> 'a qheap option" where
  "pop_all tq queue s =
     (if \<not> queue_empty tq s
      then do {
        s \<leftarrow> queue_take_over queue tq s;
        Some (queue_init tq s) }
      else Some s)"

partial_function (option) drain_loop ::
    "bool \<Rightarrow> 'a \<Rightarrow> 'a \<Rightarrow> 'a list \<Rightarrow> 'a qheap \<Rightarrow> ('a list \<times> 'a qheap) option" where
  "drain_loop running qhead cur done s =
     (if \<not> queue_empty qhead s \<and> running
      then do {
        s \<leftarrow> queue_remove cur s;
        let done = done @ [cur];
        cur \<leftarrow> queue_head qhead s;
        drain_loop running qhead cur done s }
      else Some (done, s))"

definition do_task_handler :: "bool \<Rightarrow> 'a \<Rightarrow> 'a \<Rightarrow> 'a qheap \<Rightarrow> ('a list \<times> 'a qheap) option" where
  "do_task_handler running tq qhead s = do {
     let s = queue_init qhead s;
     s \<leftarrow> pop_all tq qhead s;
     cur \<leftarrow> queue_head qhead s;
     drain_loop running qhead cur [] s }"

section \<open>What the operations do to the list of waiting tasks\<close>

lemma push_task_eq: "push_task = queue_insert_head"
  by (intro ext) (simp add: push_task_def)

lemma pop_task_refines:
  assumes "is_queue s tq (xs @ [x])"
  shows "\<exists>s'. pop_task tq s = Some (Some x, s') \<and> is_queue s' tq xs"
proof -
  have "\<not> queue_empty tq s" "queue_tail tq s = Some x"
    using queue_empty_eq[OF assms] queue_tail_eq[OF assms] by auto
  with dq.rem_last[OF assms] show ?thesis by (auto simp: pop_task_def)
qed

lemma pop_all_refines:
  assumes "is_queue s tq xs" and "is_queue s qhead []" and "qhead \<notin> insert tq (set xs)"
  shows "\<exists>s'. pop_all tq qhead s = Some s' \<and> is_queue s' tq [] \<and> is_queue s' qhead xs"
proof (cases "xs = []")
  case True
  then show ?thesis using assms queue_empty_eq[OF assms(1)] by (simp add: pop_all_def)
next
  case False
  then obtain s1 where s1: "queue_take_over qhead tq s = Some s1" "is_queue s1 qhead xs"
    using queue_take_over_refines[OF assms(1) _ assms(3)] by blast
  have "is_queue (queue_init tq s1) qhead xs"
    using s1(2) assms(1,3) by (subst is_queue_cong[where s = s1]) (auto simp: queue_init_def is_queue_def)
  then show ?thesis
    using False s1 queue_empty_eq[OF assms(1)] by (simp add: pop_all_def is_queue_init)
qed

lemma drain_loop_correct:
  "is_queue s qh xs \<Longrightarrow>
     \<exists>s'. drain_loop True qh (hd (xs @ [qh])) acc s = Some (acc @ xs, s') \<and> is_queue s' qh []"
proof (induction xs arbitrary: s acc)
  case Nil
  then show ?case using queue_empty_eq[OF Nil] by (subst drain_loop.simps) simp
next
  case (Cons x xs)
  obtain s1 where s1: "queue_remove x s = Some s1" "is_queue s1 qh xs"
    using dq.rem_first[OF Cons.prems] by blast
  then have "drain_loop True qh x acc s = drain_loop True qh (hd (xs @ [qh])) (acc @ [x]) s1"
    using queue_empty_eq[OF Cons.prems] queue_head_eq[OF s1(2)]
    by (subst drain_loop.simps) simp
  with Cons.IH[OF s1(2), of "acc @ [x]"] show ?case by simp
qed

lemma push_batch:
  assumes "is_queue s tq []" and "distinct ts" and "tq \<notin> set ts"
  shows "\<exists>s'. fold (\<lambda>t m. Option.bind m (push_task tq t)) ts (Some s) = Some s' \<and> is_queue s' tq (rev ts)"
  using dq.ins_head_batch[OF assms(1,2)] assms(3) by (simp add: push_task_eq)

text \<open>
  C16. A worker that empties its queue dispatches the tasks of one batch in the reverse of
  the order in which they were pushed: \<open>push_task\<close> inserts at the head and the handler also
  takes from the head. The batch is dispatched completely and the queue is left empty.
\<close>

theorem handler_reverses_batch:
  assumes "is_queue s tq []" and "distinct ts" and "tq \<notin> set ts" and "qh \<notin> insert tq (set ts)"
  shows "\<exists>s' s''. fold (\<lambda>t m. Option.bind m (push_task tq t)) ts (Some s) = Some s' \<and>
           do_task_handler True tq qh s' = Some (rev ts, s'') \<and> is_queue s'' qh []"
proof -
  obtain s1 where s1: "fold (\<lambda>t m. Option.bind m (push_task tq t)) ts (Some s) = Some s1"
      "is_queue s1 tq (rev ts)"
    using push_batch[OF assms(1-3)] by blast
  define s2 where "s2 = queue_init qh s1"
  have "is_queue s2 tq (rev ts)"
    using s1(2) assms(4) unfolding s2_def
    by (subst is_queue_cong[where s = s1]) (auto simp: queue_init_def)
  moreover have "is_queue s2 qh []" by (simp add: s2_def is_queue_init)
  ultimately obtain s3 where s3: "pop_all tq qh s2 = Some s3" "is_queue s3 qh (rev ts)"
    using pop_all_refines[of s2 tq "rev ts" qh] assms(4) by auto
  with drain_loop_correct[OF s3(2), of "[]"] show ?thesis
    using s1(1) queue_head_eq[OF s3(2)] by (auto simp: do_task_handler_def s2_def)
qed

theorem handler_reverses_batch_witness:
  "\<exists>s' s''. fold (\<lambda>t m. Option.bind m (push_task (0::nat) t)) [1, 2, 3]
        (Some (queue_init 0 \<lparr>q_prev = (\<lambda>_. None), q_next = (\<lambda>_. None)\<rparr>)) = Some s' \<and>
      do_task_handler True 0 4 s' = Some ([3, 2, 1], s'') \<and> is_queue s'' 4 []"
  using handler_reverses_batch[OF is_queue_init, of "[1, 2, 3]" "0::nat" 4] by simp



end
