(* ===== verification/Dfs_Queue_Family.thy ===== *)
theory Dfs_Queue_Family
  imports Dfs_Queue
begin

text \<open>
  Several queues in one pointer store. The records of the name node carry the links of
  several queues at once; \<open>qfam s F\<close> says that the store holds, for every sentinel \<open>h\<close> with
  \<open>F h = Some xs\<close>, the queue \<open>xs\<close>, and that no node is on two of them. A node that was
  initialised with \<open>queue_init\<close> and not inserted yet is a sentinel with an empty queue, which
  is also how the code treats it. Each macro updates the family at one place.
\<close>

definition in_queue :: "('a \<rightharpoonup> 'a list) \<Rightarrow> 'a \<Rightarrow> bool" where
  "in_queue F x \<longleftrightarrow> (\<exists>h xs. F h = Some xs \<and> x \<in> set xs)"

lemma in_queueI: "F h = Some xs \<Longrightarrow> x \<in> set xs \<Longrightarrow> in_queue F x"
  by (auto simp: in_queue_def)

definition qfam :: "'a qheap \<Rightarrow> ('a \<rightharpoonup> 'a list) \<Rightarrow> bool" where
  "qfam s F \<longleftrightarrow>
     (\<forall>h xs. F h = Some xs \<longrightarrow> is_queue s h xs) \<and>
     (\<forall>x. in_queue F x \<longrightarrow> F x = None) \<and>
     (\<forall>h xs k ys x. F h = Some xs \<longrightarrow> F k = Some ys \<longrightarrow> x \<in> set xs \<longrightarrow> x \<in> set ys \<longrightarrow> h = k)"

lemma qfam_queue: "qfam s F \<Longrightarrow> F h = Some xs \<Longrightarrow> is_queue s h xs"
  by (simp add: qfam_def)

lemma qfam_sentinel: "qfam s F \<Longrightarrow> in_queue F x \<Longrightarrow> F x = None"
  by (simp add: qfam_def)

lemma qfam_unique: "qfam s F \<Longrightarrow> F h = Some xs \<Longrightarrow> F k = Some ys \<Longrightarrow> x \<in> set xs \<Longrightarrow> x \<in> set ys \<Longrightarrow> h = k"
  unfolding qfam_def by blast

lemma qfam_distinct: "qfam s F \<Longrightarrow> F h = Some xs \<Longrightarrow> distinct xs"
  using qfam_queue[of s F h xs] by (simp add: is_queue_def)

lemma qfam_head: "qfam s F \<Longrightarrow> F h = Some xs \<Longrightarrow> q_next s h = Some (hd (xs @ [h]))"
  using queue_head_eq[OF qfam_queue] by (simp add: queue_head_def)

lemma qfam_empty: "qfam s F \<Longrightarrow> F h = Some xs \<Longrightarrow> queue_empty h s \<longleftrightarrow> xs = []"
  using queue_empty_eq[OF qfam_queue] .

lemma qfam_next:
  "qfam s F \<Longrightarrow> F h = Some (us @ x # vs) \<Longrightarrow> q_next s x = Some (hd (vs @ [h]))"
  using is_queue_neighbours(2)[OF qfam_queue] .

text \<open>A family survives when the links of its nodes do.\<close>

lemma qfam_frame:
  assumes "qfam s F" and "\<And>x. F x \<noteq> None \<or> in_queue F x \<Longrightarrow> q_next s' x = q_next s x \<and> q_prev s' x = q_prev s x"
  shows "qfam s' F"
proof -
  have "is_queue s' h xs" if "F h = Some xs" for h xs
  proof -
    have "is_queue s' h xs = is_queue s h xs"
      by (rule is_queue_cong) (use that assms(2) in \<open>auto simp: in_queue_def\<close>)
    with qfam_queue[OF assms(1) that] show ?thesis by simp
  qed
  with assms(1) show ?thesis by (simp add: qfam_def)
qed

lemma qfam_forget: "qfam s F \<Longrightarrow> qfam s (F(h := None))"
proof -
  assume fam: "qfam s F"
  have "in_queue (F(h := None)) x \<Longrightarrow> in_queue F x" for x
    by (auto simp: in_queue_def split: if_splits)
  with fam show ?thesis unfolding qfam_def by (auto split: if_splits)
qed

text \<open>The links of a node that is on no queue may be overwritten, as zeroing a block does.\<close>

definition clear_links :: "'a \<Rightarrow> 'a qheap \<Rightarrow> 'a qheap" where
  "clear_links x s = set_prev x None (set_next x None s)"

lemma qfam_clear: "qfam s F \<Longrightarrow> F x = None \<Longrightarrow> \<not> in_queue F x \<Longrightarrow> qfam (clear_links x s) F"
  by (erule qfam_frame) (auto simp: clear_links_def)

lemma qfam_init:
  assumes "qfam s F" "\<not> in_queue F h" "F h \<in> {None, Some []}"
  shows "qfam (queue_init h s) (F(h \<mapsto> []))"
proof -
  have "is_queue (queue_init h s) k xs" if "(F(h \<mapsto> [])) k = Some xs" for k xs
  proof (cases "k = h")
    case True
    with that show ?thesis by (simp add: is_queue_init)
  next
    case False
    with that have k: "F k = Some xs" by simp
    have "is_queue (queue_init h s) k xs = is_queue s k xs"
      by (rule is_queue_cong) (use k False assms(2) in \<open>auto simp: in_queue_def queue_init_def\<close>)
    with qfam_queue[OF assms(1) k] show ?thesis by simp
  qed
  moreover have "in_queue (F(h \<mapsto> [])) x \<longleftrightarrow> in_queue F x" for x
  proof
    assume "in_queue F x"
    then obtain k xs where "F k = Some xs" "x \<in> set xs" by (auto simp: in_queue_def)
    moreover from this assms(3) have "k \<noteq> h" by auto
    ultimately show "in_queue (F(h \<mapsto> [])) x" by (intro in_queueI[of _ k xs]) auto
  qed (auto simp: in_queue_def split: if_splits)
  ultimately show ?thesis
    using assms(1,2) unfolding qfam_def by (auto split: if_splits)
qed

lemma qfam_update:
  assumes fam: "qfam s F" and new: "is_queue s' h ys"
    and frame: "\<And>k xs. k \<noteq> h \<Longrightarrow> F k = Some xs \<Longrightarrow> k \<noteq> x \<Longrightarrow> is_queue s' k xs"
    and h: "F h = Some zs" and x: "F x \<in> {None, Some []}" "x \<noteq> h"
    and ys: "\<And>y. y \<in> set ys \<Longrightarrow> y \<in> set zs \<or> (y = x \<and> \<not> in_queue F x)"
  shows "qfam s' (F(x := None, h \<mapsto> ys))"
proof -
  let ?G = "F(x := None, h \<mapsto> ys)"
  have inG: "in_queue ?G y \<Longrightarrow> in_queue F y \<or> y = x" for y
    using ys h x by (fastforce simp: in_queue_def split: if_splits)
  have "?G y = None" if "in_queue ?G y" for y
  proof (cases "y = x")
    case True
    then show ?thesis using x(2) by simp
  next
    case False
    with inG[OF that] have "in_queue F y" by simp
    with qfam_sentinel[OF fam this] h show ?thesis by auto
  qed
  moreover have "k = l" if kl: "?G k = Some us" "?G l = Some vs" "y \<in> set us" "y \<in> set vs" for k l us vs y
  proof (rule ccontr)
    assume "k \<noteq> l"
    have old: "F j = Some ts" if "j \<noteq> h" "?G j = Some ts" for j ts
      using that by (auto split: if_splits)
    have other: False if "j \<noteq> h" "?G j = Some ts" "y \<in> set ts" "y \<in> set ys" for j ts
    proof -
      have "in_queue F y" by (rule in_queueI[of F j ts y, OF old[OF that(1,2)] that(3)])
      with ys[OF that(4)] have "y \<in> set zs" by auto
      with qfam_unique[OF fam old[OF that(1,2)] h that(3)] that(1) show False by simp
    qed
    consider "k = h" "l \<noteq> h" | "l = h" "k \<noteq> h" | "k \<noteq> h" "l \<noteq> h" using \<open>k \<noteq> l\<close> by blast
    then show False
    proof cases
      case 1
      then have "y \<in> set ys" using kl(1,3) by simp
      then show False by (rule other[OF 1(2) kl(2,4)])
    next
      case 2
      then have "y \<in> set ys" using kl(2,4) by simp
      then show False by (rule other[OF 2(2) kl(1,3)])
    next
      case 3
      from qfam_unique[OF fam old[OF 3(1) kl(1)] old[OF 3(2) kl(2)] kl(3,4)] \<open>k \<noteq> l\<close> show False by simp
    qed
  qed
  moreover have "is_queue s' k us" if "?G k = Some us" for k us
    using that new frame by (auto split: if_splits)
  ultimately show ?thesis unfolding qfam_def by blast
qed

lemma qfam_insert_tail:
  assumes fam: "qfam s F" and h: "F h = Some xs" and x: "\<not> in_queue F x" "F x \<in> {None, Some []}" "x \<noteq> h"
  shows "\<exists>s'. queue_insert_tail h x s = Some s' \<and> qfam s' (F(x := None, h \<mapsto> xs @ [x]))"
proof -
  have "x \<notin> insert h (set xs)" using h x by (auto simp: in_queue_def)
  then obtain s' where s': "queue_insert_tail h x s = Some s'" "is_queue s' h (xs @ [x])"
      "same_links (- insert x (insert h (set xs))) s s'"
    using queue_insert_tail_refines[OF qfam_queue[OF fam h], of x] by blast
  have "is_queue s' k us" if "k \<noteq> h" "F k = Some us" "k \<noteq> x" for k us
  proof (rule same_links_is_queue[OF s'(3)])
    have "k \<notin> set xs" using qfam_sentinel[OF fam, of k] h that(2) by (auto simp: in_queue_def)
    moreover have "h \<notin> set us" using qfam_sentinel[OF fam, of h] h that(2) by (auto simp: in_queue_def)
    moreover have "x \<notin> set us" using x(1) that(2) by (auto simp: in_queue_def)
    moreover have "set us \<inter> set xs = {}" using qfam_unique[OF fam that(2) h] that(1) by auto
    ultimately show "insert k (set us) \<subseteq> - insert x (insert h (set xs))" using that by auto
  qed (rule qfam_queue[OF fam that(2)])
  with qfam_update[OF fam s'(2) _ h x(2,3)] x(1) have "qfam s' (F(x := None, h \<mapsto> xs @ [x]))" by auto
  with s'(1) show ?thesis by blast
qed

lemma qfam_remove:
  assumes fam: "qfam s F" and h: "F h = Some xs" and x: "x \<in> set xs"
  shows "\<exists>s'. queue_remove x s = Some s' \<and> qfam s' (F(h \<mapsto> remove1 x xs))"
proof -
  obtain us vs where uv: "xs = us @ x # vs" using x by (meson split_list)
  have "remove1 x xs = us @ vs"
    using uv qfam_distinct[OF fam h] remove1_append_notin[of x us vs] by auto
  from h uv have h': "F h = Some (us @ x # vs)" by simp
  obtain s' where s': "queue_remove x s = Some s'" "is_queue s' h (us @ vs)"
      "same_links (- insert h (set (us @ x # vs))) s s'"
    using queue_remove_refines[OF qfam_queue[OF fam h']] by blast
  have x0: "F x = None" by (rule qfam_sentinel[OF fam in_queueI[of F h xs x, OF h x]])
  with h have x0': "x \<noteq> h" by auto
  have "is_queue s' k ws" if "k \<noteq> h" "F k = Some ws" "k \<noteq> x" for k ws
  proof (rule same_links_is_queue[OF s'(3)])
    have "k \<notin> set xs" using qfam_sentinel[OF fam, of k] h that(2) by (auto simp: in_queue_def)
    moreover have "h \<notin> set ws" using qfam_sentinel[OF fam, of h] h that(2) by (auto simp: in_queue_def)
    moreover have "set ws \<inter> set xs = {}" using qfam_unique[OF fam that(2) h] that(1) by auto
    ultimately show "insert k (set ws) \<subseteq> - insert h (set (us @ x # vs))" using that uv by auto
  qed (rule qfam_queue[OF fam that(2)])
  with qfam_update[OF fam s'(2) _ h, of x] x0 x0' uv have "qfam s' (F(x := None, h \<mapsto> us @ vs))" by auto
  moreover have "F(x := None, h \<mapsto> us @ vs) = F(h \<mapsto> us @ vs)" using x0 by (simp add: fun_upd_idem)
  ultimately show ?thesis using s'(1) \<open>remove1 x xs = us @ vs\<close> by auto
qed

lemma qfam_remove_single:
  assumes fam: "qfam s F" and x: "F x = Some []"
  shows "\<exists>s'. queue_remove x s = Some s' \<and> qfam s' (F(x := None))"
proof -
  have "q_next s x = Some x" "q_prev s x = Some x"
    using qfam_queue[OF fam x] by (auto simp: is_queue_def)
  then have "queue_remove x s = Some (clear_links x s)"
    by (simp add: queue_remove_def clear_links_def set_prev_def set_next_def)
  moreover have "qfam (clear_links x s) (F(x := None))"
  proof (rule qfam_clear[OF qfam_forget[OF fam]])
    show "\<not> in_queue (F(x := None)) x"
      using qfam_sentinel[OF fam, of x] x by (auto simp: in_queue_def split: if_splits)
  qed simp
  ultimately show ?thesis by blast
qed

end
