(* ===== verification/Dfs_Mblks.thy ===== *)
theory Dfs_Mblks
  imports Dfs_Prelude "HOL-Library.Monad_Syntax"
begin

text \<open>
  The fixed-size block pools of \<open>src/src/core/dfs_mblks.c\<close>: every inode, block and data node
  record of the name node lives in one. A pool of \<open>count\<close> blocks is an array; the header
  word \<open>next\<close> of a free block is the address of the next free block, and the header word of
  a block in use is the address of the pool, which is how \<open>mem_put\<close> finds it. Blocks are
  numbered by their position, so adding the padded size of a block is adding one; the
  payload of block \<open>i\<close> is \<open>mb_data m i\<close>.
\<close>

section \<open>The code\<close>

datatype mem_link = MNull | MNext nat | MPool

record 'd mem_mblks =
  hot_count :: int
  cold_count :: int
  free_blks :: nat
  mb_next :: "nat \<Rightarrow> mem_link"
  mb_data :: "nat \<Rightarrow> 'd"

text \<open>
  The arguments of the constructor: whether \<open>param->mem_alloc\<close> returns memory, and the
  all-zero payload that \<open>memset\<close> leaves behind.
\<close>

definition mem_mblks_new_fn :: "bool \<Rightarrow> 'd \<Rightarrow> nat \<Rightarrow> 'd mem_mblks option" where
  "mem_mblks_new_fn alloc_ok zero count =
     (if \<not> alloc_ok then None
      else Some \<lparr>hot_count = 0, cold_count = int count, free_blks = 0,
                 mb_next = fold (\<lambda>idx nx. nx(idx := MNext (idx + 1))) [0..<count] (\<lambda>_. MNull),
                 mb_data = (\<lambda>_. zero)\<rparr>)"

definition mem_get :: "'d mem_mblks \<Rightarrow> (nat option \<times> 'd mem_mblks) option" where
  "mem_get m =
     (if cold_count m \<noteq> 0
      then let pdata = free_blks m in
        (case mb_next m pdata of
           MNext n \<Rightarrow>
             Some (Some pdata,
                   m\<lparr>free_blks := n, mb_next := (mb_next m)(pdata := MPool),
                     hot_count := hot_count m + 1, cold_count := cold_count m - 1\<rparr>)
         | _ \<Rightarrow> None)
      else Some (None, m))"

definition mem_get0 :: "'d \<Rightarrow> 'd mem_mblks \<Rightarrow> (nat option \<times> 'd mem_mblks) option" where
  "mem_get0 zero m = do {
     (r, m) \<leftarrow> mem_get m;
     Some (case r of
             None \<Rightarrow> (None, m)
           | Some p \<Rightarrow> (Some p, m\<lparr>mb_data := (mb_data m)(p := zero)\<rparr>)) }"

definition mem_put :: "nat \<Rightarrow> 'd mem_mblks \<Rightarrow> 'd mem_mblks option" where
  "mem_put p m =
     (case mb_next m p of
        MNull \<Rightarrow> Some m
      | MNext _ \<Rightarrow> None
      | MPool \<Rightarrow> Some (m\<lparr>hot_count := hot_count m - 1, cold_count := cold_count m + 1,
                          mb_next := (mb_next m)(p := MNext (free_blks m)), free_blks := p\<rparr>))"

section \<open>The free chain\<close>

fun free_chain :: "(nat \<Rightarrow> mem_link) \<Rightarrow> nat \<Rightarrow> nat list \<Rightarrow> bool" where
  "free_chain nx a [] \<longleftrightarrow> True"
| "free_chain nx a (x # xs) \<longleftrightarrow> a = x \<and> (\<exists>b. nx x = MNext b \<and> free_chain nx b xs)"

text \<open>
  \<open>pool_state count m used\<close>: the blocks of \<open>used\<close> are handed out, the remaining ones form the
  free chain, and the two counters count them.
\<close>

definition pool_state :: "nat \<Rightarrow> 'd mem_mblks \<Rightarrow> nat set \<Rightarrow> bool" where
  "pool_state count m used \<longleftrightarrow>
     (\<exists>fs. free_chain (mb_next m) (free_blks m) fs \<and> distinct fs \<and> set fs = {..<count} - used \<and>
           cold_count m = int (length fs)) \<and>
     used \<subseteq> {..<count} \<and> hot_count m = int (card used) \<and> (\<forall>u\<in>used. mb_next m u = MPool)"

lemma free_chain_cong:
  "(\<And>x. x \<in> set xs \<Longrightarrow> nx' x = nx x) \<Longrightarrow> free_chain nx' a xs = free_chain nx a xs"
  by (induction xs arbitrary: a) auto

lemma free_chain_next: "free_chain nx a xs \<Longrightarrow> x \<in> set xs \<Longrightarrow> \<exists>b. nx x = MNext b"
  by (induction xs arbitrary: a) auto

lemma free_chain_upt:
  "(\<And>i. a \<le> i \<Longrightarrow> i < b \<Longrightarrow> nx i = MNext (i + 1)) \<Longrightarrow> free_chain nx a [a..<b]"
proof (induction "b - a" arbitrary: a)
  case 0
  then show ?case by simp
next
  case (Suc k)
  then have "[a..<b] = a # [Suc a..<b]" by (simp add: upt_conv_Cons)
  with Suc show ?case by auto
qed

lemma fold_next_upt: "fold (\<lambda>i nx. nx(i := f i)) [0..<n] g = (\<lambda>i. if i < n then f i else g i)"
  by (induction n) (auto simp: fun_eq_iff less_Suc_eq)

lemma mem_mblks_new_state [dfs_inv]:
  "mem_mblks_new_fn True zero count = Some m \<Longrightarrow> pool_state count m {}"
  unfolding mem_mblks_new_fn_def pool_state_def
  by (auto simp: fold_next_upt intro!: exI[of _ "[0..<count]"] free_chain_upt)

lemma pool_state_card: "pool_state count m used \<Longrightarrow> cold_count m = int (count - card used)"
  unfolding pool_state_def
  by (auto simp: distinct_card[symmetric] card_Diff_subset finite_subset)

lemma pool_state_data: "pool_state count (m\<lparr>mb_data := d\<rparr>) used = pool_state count m used"
  by (simp add: pool_state_def)

lemma mem_get_ok:
  assumes "pool_state count m used" and "card used < count"
  shows "\<exists>p m'. mem_get m = Some (Some p, m') \<and> p \<notin> used \<and> p < count \<and> mb_data m' = mb_data m \<and>
           pool_state count m' (insert p used)"
proof -
  obtain fs where fs: "free_chain (mb_next m) (free_blks m) fs" "distinct fs"
      "set fs = {..<count} - used" "cold_count m = int (length fs)"
    using assms(1) by (auto simp: pool_state_def)
  have "cold_count m \<noteq> 0" using pool_state_card[OF assms(1)] assms(2) by simp
  with fs(4) obtain p gs where p: "fs = p # gs" by (cases fs) auto
  with fs(1) obtain b where b: "free_blks m = p" "mb_next m p = MNext b" "free_chain (mb_next m) b gs"
    by auto
  let ?m = "m\<lparr>free_blks := b, mb_next := (mb_next m)(p := MPool),
              hot_count := hot_count m + 1, cold_count := cold_count m - 1\<rparr>"
  have pu: "p \<notin> used" "p < count" and gs: "set gs = {..<count} - insert p used" "distinct gs"
    using fs(2,3) p by auto
  have "free_chain (mb_next ?m) b gs"
    using b(3) fs(2) p by (subst free_chain_cong[where nx = "mb_next m"]) auto
  moreover have "finite used" using assms(1) finite_subset by (auto simp: pool_state_def)
  ultimately have "pool_state count ?m (insert p used)"
    using assms(1) gs pu p fs(4) by (auto simp: pool_state_def intro!: exI[of _ gs])
  moreover have "mem_get m = Some (Some p, ?m)"
    using \<open>cold_count m \<noteq> 0\<close> b by (simp add: mem_get_def)
  ultimately show ?thesis using pu by (intro exI[of _ p] exI[of _ ?m]) simp
qed

lemma mem_get_full:
  "pool_state count m used \<Longrightarrow> card used = count \<Longrightarrow> mem_get m = Some (None, m)"
  using pool_state_card[of count m used] by (simp add: mem_get_def)

lemma mem_put_ok:
  assumes "pool_state count m used" and "p \<in> used"
  shows "\<exists>m'. mem_put p m = Some m' \<and> mb_data m' = mb_data m \<and> pool_state count m' (used - {p})"
proof -
  obtain fs where fs: "free_chain (mb_next m) (free_blks m) fs" "distinct fs"
      "set fs = {..<count} - used" "cold_count m = int (length fs)"
    using assms(1) by (auto simp: pool_state_def)
  let ?m = "m\<lparr>hot_count := hot_count m - 1, cold_count := cold_count m + 1,
              mb_next := (mb_next m)(p := MNext (free_blks m)), free_blks := p\<rparr>"
  have pn: "p \<notin> set fs" and pc: "p < count" using fs(3) assms by (auto simp: pool_state_def)
  have "free_chain (mb_next ?m) (free_blks m) fs"
    using fs(1) pn by (subst free_chain_cong[where nx = "mb_next m"]) auto
  then have "free_chain (mb_next ?m) p (p # fs)" by simp
  moreover have "set (p # fs) = {..<count} - (used - {p})" using fs(3) pc by auto
  moreover have "finite used" using assms(1) finite_subset by (auto simp: pool_state_def)
  then have "int (card (used - {p})) = int (card used) - 1"
    using card_Suc_Diff1[OF _ assms(2)] by simp
  ultimately have "pool_state count ?m (used - {p})"
    using assms(1) fs(2,4) pn by (auto simp: pool_state_def intro!: exI[of _ "p # fs"])
  moreover have "mem_put p m = Some ?m" using assms by (simp add: mem_put_def pool_state_def)
  ultimately show ?thesis by (intro exI[of _ ?m]) simp
qed

text \<open>Freeing a free block makes the pool follow its own chain word as a pool pointer.\<close>

lemma mem_put_free:
  assumes "pool_state count m used" and "p < count" and "p \<notin> used"
  shows "mem_put p m = None"
proof -
  obtain fs where "free_chain (mb_next m) (free_blks m) fs" "p \<in> set fs"
    using assms by (auto simp: pool_state_def)
  from free_chain_next[OF this] show ?thesis by (auto simp: mem_put_def)
qed

lemma mem_get0_ok:
  assumes "pool_state count m used" and "card used < count"
  shows "\<exists>p m'. mem_get0 z m = Some (Some p, m') \<and> p \<notin> used \<and> p < count \<and>
           mb_data m' = (mb_data m)(p := z) \<and> pool_state count m' (insert p used)"
  using mem_get_ok[OF assms] by (fastforce simp: mem_get0_def pool_state_data)

lemma mem_get0_full:
  "pool_state count m used \<Longrightarrow> card used = count \<Longrightarrow> mem_get0 z m = Some (None, m)"
  by (simp add: mem_get0_def mem_get_full)

section \<open>The pool interface\<close>

text \<open>
  What the index components rely on: a pool of \<open>count\<close> blocks hands out blocks that are not
  in use, says so when there is none, and takes back what it handed out.
\<close>

locale block_pool =
  fixes count :: nat
    and state :: "'m \<Rightarrow> nat set \<Rightarrow> bool"
    and get :: "'m \<Rightarrow> (nat option \<times> 'm) option"
    and put :: "nat \<Rightarrow> 'm \<Rightarrow> 'm option"
  assumes state_bound: "state m used \<Longrightarrow> used \<subseteq> {..<count}"
    and get_fresh: "state m used \<Longrightarrow> card used < count \<Longrightarrow>
          \<exists>p m'. get m = Some (Some p, m') \<and> p \<notin> used \<and> state m' (insert p used)"
    and get_full: "state m used \<Longrightarrow> card used = count \<Longrightarrow> get m = Some (None, m)"
    and put_used: "state m used \<Longrightarrow> p \<in> used \<Longrightarrow> \<exists>m'. put p m = Some m' \<and> state m' (used - {p})"
begin

lemma card_used: "state m used \<Longrightarrow> card used \<le> count"
  using state_bound[of m used] card_mono[of "{..<count}" used] by simp

lemma get_total: "state m used \<Longrightarrow> get m \<noteq> None"
  using get_fresh[of m used] get_full[of m used] card_used[of m used] by force

lemma get_cases:
  assumes "state m used" and "get m = Some (r, m')"
  obtains (full) "r = None" "m' = m" "card used = count"
  | (fresh) p where "r = Some p" "p \<notin> used" "state m' (insert p used)" "card used < count"
  using get_fresh[OF assms(1)] get_full[OF assms(1)] card_used[OF assms(1)] assms(2)
  by (cases "card used = count") auto

lemma get_put: "state m used \<Longrightarrow> get m = Some (Some p, m') \<Longrightarrow> \<exists>m''. put p m' = Some m'' \<and> state m'' used"
  by (erule (1) get_cases) (use put_used in fastforce)+

text \<open>A run of \<open>k\<close> allocations: \<open>k\<close> different blocks, none of them in use before.\<close>

lemma get_many:
  "state m used \<Longrightarrow> card used + k \<le> count \<Longrightarrow>
     \<exists>ps m'. length ps = k \<and> distinct ps \<and> set ps \<inter> used = {} \<and> state m' (set ps \<union> used) \<and>
       fold (\<lambda>p acc. Option.bind acc (\<lambda>m. Option.bind (get m) (\<lambda>(r, m). if r = Some p then Some m else None)))
         ps (Some m) = Some m'"
proof (induction k arbitrary: m used)
  case 0
  then show ?case by (intro exI[of _ "[]"] exI[of _ m]) simp
next
  case (Suc k)
  then obtain p m1 where p: "get m = Some (Some p, m1)" "p \<notin> used" "state m1 (insert p used)"
    using get_fresh[of m used] by auto
  have fin: "finite used" using state_bound[OF Suc.prems(1)] finite_subset by blast
  with Suc.prems p obtain ps m2 where "length ps = k" "distinct ps" "set ps \<inter> insert p used = {}"
      "state m2 (set ps \<union> insert p used)"
      "fold (\<lambda>p acc. Option.bind acc (\<lambda>m. Option.bind (get m) (\<lambda>(r, m). if r = Some p then Some m else None)))
         ps (Some m1) = Some m2"
    using Suc.IH[of m1 "insert p used"] by auto
  with p show ?case by (intro exI[of _ "p # ps"] exI[of _ m2]) auto
qed

end

interpretation mb: block_pool count "pool_state count" "mem_get0 z" mem_put for count z
proof unfold_locales
  fix m :: "'a mem_mblks" and used p
  show "pool_state count m used \<Longrightarrow> used \<subseteq> {..<count}" by (simp add: pool_state_def)
  show "pool_state count m used \<Longrightarrow> card used < count \<Longrightarrow>
     \<exists>p m'. mem_get0 z m = Some (Some p, m') \<and> p \<notin> used \<and> pool_state count m' (insert p used)"
    using mem_get0_ok[of count m used z] by blast
  show "pool_state count m used \<Longrightarrow> card used = count \<Longrightarrow> mem_get0 z m = Some (None, m)"
    by (rule mem_get0_full)
  show "pool_state count m used \<Longrightarrow> p \<in> used \<Longrightarrow> \<exists>m'. mem_put p m = Some m' \<and> pool_state count m' (used - {p})"
    using mem_put_ok[of count m used p] by blast
qed



end
