(* ===== verification/Dfs_Math.thy ===== *)
theory Dfs_Math
  imports Dfs_Prelude
begin

text \<open>
  The number theory helpers of \<open>src/src/core/dfs_math.c\<close> that size every hash table of
  the name node: \<open>dfs_math_dfslog2\<close>, \<open>dfs_math_is_prime\<close> and \<open>dfs_math_find_prime\<close>.
  A \<open>size_t\<close> is a \<^typ>\<open>nat\<close> and the product and the increment wrap at 64 bits as in C.
  The two search loops have no bound in the source, so they are
  \<open>partial_function (option)\<close>: \<^term>\<open>None\<close> is a loop that never returns (or divides by
  zero), and returning is proved.
\<close>

section \<open>The code\<close>

fun log2_loop :: "nat \<Rightarrow> nat \<Rightarrow> nat" where
  "log2_loop x i = (if x > 1 then log2_loop (x div 2) (i + 1) else i)"

definition dfs_math_dfslog2 :: "u64 \<Rightarrow> bool \<Rightarrow> nat" where
  "dfs_math_dfslog2 x round =
     log2_loop (unat x) (if round \<and> and x (x - 1) \<noteq> 0 then 1 else 0)"

partial_function (option) is_prime_loop :: "nat \<Rightarrow> nat \<Rightarrow> bool option" where
  "is_prime_loop x i =
     (if i * i mod 2 ^ 64 \<le> x
      then if i = 0 then None
           else if x mod i = 0 then Some False
           else is_prime_loop x ((i + 1) mod 2 ^ 64)
      else Some True)"

definition dfs_math_is_prime :: "nat \<Rightarrow> bool option" where
  "dfs_math_is_prime x = (if x \<le> 1 then Some False else is_prime_loop x 2)"

partial_function (option) dfs_math_find_prime :: "nat \<Rightarrow> nat option" where
  "dfs_math_find_prime x =
     Option.bind (dfs_math_is_prime x)
       (\<lambda>b. if b then Some x else dfs_math_find_prime ((x + 1) mod 2 ^ 64))"

declare log2_loop.simps [simp del]

section \<open>Primality\<close>

definition prime_nat :: "nat \<Rightarrow> bool" where
  "prime_nat p \<longleftrightarrow> 2 \<le> p \<and> (\<forall>d. d dvd p \<longrightarrow> d = 1 \<or> d = p)"

definition no_divisor_below :: "nat \<Rightarrow> nat \<Rightarrow> bool" where
  "no_divisor_below x i \<longleftrightarrow> (\<forall>d. 2 \<le> d \<and> d < i \<longrightarrow> \<not> d dvd x)"

text \<open>The largest argument whose trial divisors can be squared within 64 bits.\<close>

definition prime_bound :: nat where
  "prime_bound = (2 ^ 32 - 1) * (2 ^ 32 - 1)"

lemma prime_natI:
  assumes "2 \<le> x" and "no_divisor_below x i" and "x < i * i"
  shows "prime_nat x"
  unfolding prime_nat_def
proof (intro conjI allI impI)
  show "2 \<le> x" by (rule assms(1))
  fix d assume "d dvd x"
  then obtain e where x: "x = d * e" by blast
  have small: "2 \<le> c \<Longrightarrow> c dvd x \<Longrightarrow> i \<le> c" for c
    using assms(2) by (meson no_divisor_below_def leI)
  show "d = 1 \<or> d = x"
  proof (rule ccontr)
    assume "\<not> (d = 1 \<or> d = x)"
    with x assms(1) have "2 \<le> d" "2 \<le> e"
      by (cases d; cases e; auto simp: numeral_2_eq_2 not_less_eq_eq le_Suc_eq)+
    then have "i \<le> d" "i \<le> e" using small x by auto
    then have "i * i \<le> x" unfolding x by (rule mult_le_mono)
    with assms(3) show False by simp
  qed
qed

lemma no_divisor_below_Suc:
  "no_divisor_below x i \<Longrightarrow> \<not> i dvd x \<Longrightarrow> no_divisor_below x (Suc i)"
  by (auto simp: no_divisor_below_def less_Suc_eq)

lemma divisor_not_prime: "2 \<le> i \<Longrightarrow> i dvd x \<Longrightarrow> i * i \<le> x \<Longrightarrow> \<not> prime_nat x"
  by (auto simp: prime_nat_def)

text \<open>The trial division loop decides primality, and it returns.\<close>

lemma is_prime_loop_correct:
  assumes "2 \<le> i" "2 \<le> x" "x < prime_bound" "no_divisor_below x i" "i \<le> 2 ^ 32 - 1"
  shows "is_prime_loop x i = Some (prime_nat x)"
  using assms
proof (induction "2 ^ 32 - i" arbitrary: i rule: less_induct)
  case less
  have sq: "i * i < 2 ^ 64"
  proof -
    have "i * i \<le> (2 ^ 32 - 1) * (2 ^ 32 - 1)" using less.prems(5) by (intro mult_le_mono)
    then show ?thesis by simp
  qed
  show ?case
  proof (cases "i * i \<le> x")
    case False
    then show ?thesis
      using sq less.prems prime_natI[of x i] by (subst is_prime_loop.simps) auto
  next
    case True
    show ?thesis
    proof (cases "i dvd x")
      case True
      with \<open>i * i \<le> x\<close> sq less.prems divisor_not_prime[of i x] show ?thesis
        by (subst is_prime_loop.simps) (auto simp: dvd_eq_mod_eq_0)
    next
      case nd: False
      have "i < 2 ^ 32 - 1"
      proof (rule ccontr)
        assume "\<not> ?thesis"
        with less.prems(5) have "i = 2 ^ 32 - 1" by linarith
        with True less.prems(3) show False by (simp add: prime_bound_def)
      qed
      then have "is_prime_loop x (Suc i) = Some (prime_nat x)"
        using less.prems nd by (intro less.hyps no_divisor_below_Suc) auto
      moreover have "is_prime_loop x i = is_prime_loop x (Suc i)"
        using True sq nd less.prems \<open>i < 2 ^ 32 - 1\<close>
        by (subst is_prime_loop.simps) (auto simp: dvd_eq_mod_eq_0)
      ultimately show ?thesis by simp
    qed
  qed
qed

lemma dfs_math_is_prime_correct:
  assumes "x < prime_bound" shows "dfs_math_is_prime x = Some (prime_nat x)"
proof (cases "x \<le> 1")
  case True
  then show ?thesis by (auto simp: dfs_math_is_prime_def prime_nat_def)
next
  case False
  then show ?thesis
    using assms by (auto simp: dfs_math_is_prime_def no_divisor_below_def
        intro!: is_prime_loop_correct)
qed

lemma dfs_math_find_prime_step:
  assumes "x < prime_bound"
  shows "dfs_math_find_prime x = (if prime_nat x then Some x else dfs_math_find_prime (Suc x))"
proof -
  have "Suc x < 2 ^ 64" using assms by (simp add: prime_bound_def)
  then show ?thesis
    by (subst dfs_math_find_prime.simps)
       (simp add: dfs_math_is_prime_correct[OF assms])
qed

lemma find_prime_search:
  assumes "prime_nat p" and "x \<le> p" and "p < prime_bound"
  shows "\<exists>q. dfs_math_find_prime x = Some q \<and> prime_nat q \<and> x \<le> q \<and> q \<le> p \<and>
           (\<forall>r. prime_nat r \<and> x \<le> r \<longrightarrow> q \<le> r)"
  using assms(2)
proof (induction "p - x" arbitrary: x rule: less_induct)
  case less
  then have lt: "x < prime_bound" using assms(3) by simp
  show ?case
  proof (cases "prime_nat x")
    case True
    then show ?thesis using lt less.prems by (auto simp: dfs_math_find_prime_step)
  next
    case False
    with assms(1) less.prems have "Suc x \<le> p" by (metis le_neq_implies_less Suc_leI)
    then have "p - Suc x < p - x" by simp
    then obtain q where "dfs_math_find_prime (Suc x) = Some q" "prime_nat q" "Suc x \<le> q" "q \<le> p"
        "\<forall>r. prime_nat r \<and> Suc x \<le> r \<longrightarrow> q \<le> r"
      using less.hyps[of "Suc x"] \<open>Suc x \<le> p\<close> by auto
    moreover have "\<forall>r. prime_nat r \<and> x \<le> r \<longrightarrow> Suc x \<le> r"
      using False by (metis le_neq_implies_less Suc_leI)
    ultimately show ?thesis
      using lt False by (auto simp: dfs_math_find_prime_step)
  qed
qed

text \<open>
  C21. The search for a table size returns: whenever some prime lies at or above the
  requested size and below the range where trial squares overflow, the loop stops at the
  least prime that is at least the requested size.
\<close>

theorem find_prime_least:
  assumes "prime_nat p" and "x \<le> p" and "p < prime_bound"
  shows "\<exists>q. dfs_math_find_prime x = Some q \<and> prime_nat q \<and> x \<le> q \<and> q \<le> p \<and>
           (\<forall>r. prime_nat r \<and> x \<le> r \<longrightarrow> q \<le> r)"
  using find_prime_search[OF assms] .

lemma is_prime_prime: "dfs_math_is_prime n = Some True \<Longrightarrow> n < prime_bound \<Longrightarrow> prime_nat n"
  using dfs_math_is_prime_correct[of n] by simp

lemma prime_5147: "prime_nat 5147"
  by (rule is_prime_prime) (simp_all add: dfs_math_is_prime_def is_prime_loop.simps prime_bound_def)

lemma prime_100003: "prime_nat 100003"
  by (rule is_prime_prime) (simp_all add: dfs_math_is_prime_def is_prime_loop.simps prime_bound_def)

lemma find_prime_known:
  assumes "prime_nat p" "x \<le> p" "p < prime_bound"
  obtains q where "dfs_math_find_prime x = Some q" "prime_nat q" "x \<le> q" "q < prime_bound"
  using find_prime_search[OF assms] assms(3) by (meson order_le_less_trans)

theorem find_prime_least_witness:
  "\<exists>q. dfs_math_find_prime 5120 = Some q \<and> prime_nat q \<and> 5120 \<le> q \<and> q \<le> 5147"
  using find_prime_least[OF prime_5147, of 5120] by (auto simp: prime_bound_def)

section \<open>Logarithms\<close>

lemma log2_loop_bounds:
  "0 < x \<Longrightarrow> i \<le> log2_loop x i \<and> 2 ^ (log2_loop x i - i) \<le> x \<and> x < 2 * 2 ^ (log2_loop x i - i)"
proof (induction x i rule: log2_loop.induct)
  case (1 x i)
  show ?case
  proof (cases "x > 1")
    case True
    define r where "r = log2_loop (x div 2) (i + 1)"
    from True have "0 < x div 2" by simp
    with 1 True have IH: "i + 1 \<le> r" "2 ^ (r - (i + 1)) \<le> x div 2" "x div 2 < 2 * 2 ^ (r - (i + 1))"
      by (auto simp: r_def)
    from IH(1) have "r - i = Suc (r - (i + 1))" by simp
    with IH(2,3) have "2 ^ (r - i) \<le> x" "x < 2 * 2 ^ (r - i)" by auto
    with IH(1) True show ?thesis by (simp add: log2_loop.simps[of x] r_def)
  next
    case False
    with 1(2) show ?thesis by (simp add: log2_loop.simps[of x])
  qed
qed

lemma log2_loop_shift: "0 < x \<Longrightarrow> log2_loop x 1 = Suc (log2_loop x 0)"
proof -
  assume x: "0 < x"
  define a b where "a = log2_loop x 0" and "b = log2_loop x 1 - 1"
  have A: "2 ^ a \<le> x" "x < 2 * 2 ^ a" and B: "2 ^ b \<le> x" "x < 2 * 2 ^ b" and "1 \<le> log2_loop x 1"
    using log2_loop_bounds[OF x, of 0] log2_loop_bounds[OF x, of 1] by (auto simp: a_def b_def)
  have "(2::nat) ^ a < 2 ^ Suc b" "(2::nat) ^ b < 2 ^ Suc a" using A B by auto
  then have "a < Suc b" "b < Suc a" by (meson nat_power_less_imp_less zero_less_numeral)+
  then show ?thesis using \<open>1 \<le> log2_loop x 1\<close> by (simp add: a_def b_def)
qed

end
