(* ===== verification/Dfs_String.thy ===== *)
theory Dfs_String
  imports Dfs_Prelude "HOL-Library.Monad_Syntax"
begin

text \<open>
  The comparison and number routines of \<open>src/src/core/dfs_string.c\<close>, and the \<open>strncmp\<close> of the
  C library that \<open>dfs_string.h\<close> wraps. A C string is the list of its bytes before the NUL,
  so reading at its end yields 0; a buffer with an explicit length is the list of the bytes
  readable from its start, and reading beyond it is \<^term>\<open>None\<close>. The comparisons are shown
  to decide equality up to case, and the number readers to invert decimal and hexadecimal
  notation, with the wrap-around of their result type.
\<close>

section \<open>Comparison\<close>

definition string_xxctolower :: "u8 \<Rightarrow> u8" where
  "string_xxctolower c = (if 65 \<le> c \<and> c \<le> 90 then or c 0x20 else c)"

definition string_xxctoupper :: "u8 \<Rightarrow> u8" where
  "string_xxctoupper c = (if 97 \<le> c \<and> c \<le> 122 then and c (not 0x20) else c)"

definition string_xxstrtolower :: "bytes \<Rightarrow> nat \<Rightarrow> bytes" where
  "string_xxstrtolower src n = map string_xxctolower (take n src)"

text \<open>Reading the byte at the start of a C string.\<close>

fun chr0 :: "bytes \<Rightarrow> u8" where
  "chr0 [] = 0"
| "chr0 (c # s) = c"

text \<open>The library's \<open>strncmp\<close>, whose result the sources only compare with 0.\<close>

fun string_strncmp :: "bytes \<Rightarrow> bytes \<Rightarrow> nat \<Rightarrow> int" where
  "string_strncmp s t 0 = 0"
| "string_strncmp s t (Suc n) =
     (if chr0 s \<noteq> chr0 t then uint (chr0 s) - uint (chr0 t)
      else if chr0 s = 0 then 0
      else string_strncmp (tl s) (tl t) n)"

text \<open>Position of the first \<open>c\<close> in the buffer, if any.\<close>

fun string_xxstrlchr :: "bytes \<Rightarrow> u8 \<Rightarrow> nat option" where
  "string_xxstrlchr [] c = None"
| "string_xxstrlchr (p # s) c = (if p = c then Some 0 else map_option Suc (string_xxstrlchr s c))"

fun string_xxstrncasecmp :: "bytes \<Rightarrow> bytes \<Rightarrow> nat \<Rightarrow> int" where
  "string_xxstrncasecmp s1 s2 0 = 0"
| "string_xxstrncasecmp s1 s2 (Suc n) =
     (let c1 = string_xxctolower (chr0 s1); c2 = string_xxctolower (chr0 s2)
      in if c1 = c2
         then if c1 \<noteq> 0 then string_xxstrncasecmp (tl s1) (tl s2) n else 0
         else uint c1 - uint c2)"

lemma ctolower_0 [simp]: "string_xxctolower 0 = 0"
  by (simp add: string_xxctolower_def)

function string_xxstrcasecmp :: "bytes \<Rightarrow> bytes \<Rightarrow> int" where
  "string_xxstrcasecmp s1 s2 =
     (let c1 = string_xxctolower (chr0 s1); c2 = string_xxctolower (chr0 s2)
      in if c1 = c2
         then if c1 \<noteq> 0 then string_xxstrcasecmp (tl s1) (tl s2) else 0
         else uint c1 - uint c2)"
  by auto

termination
proof (relation "measure (\<lambda>(s1, s2). length s1)")
  fix s1 s2 :: bytes and c1 c2
  assume "c1 = string_xxctolower (chr0 s1)" "c1 \<noteq> 0"
  then show "((tl s1, tl s2), s1, s2) \<in> measure (\<lambda>(s1, s2). length s1)" by (cases s1) auto
qed simp

text \<open>The comparisons from the end read \<open>s1[n-1], \<dots>, s1[0]\<close> of two buffers.\<close>

fun string_xxstrnrcmp :: "bytes \<Rightarrow> bytes \<Rightarrow> nat \<Rightarrow> int option" where
  "string_xxstrnrcmp s1 s2 0 = Some 0"
| "string_xxstrnrcmp s1 s2 (Suc n) =
     (if n < length s1 \<and> n < length s2
      then if s1 ! n \<noteq> s2 ! n then Some (uint (s1 ! n) - uint (s2 ! n)) else string_xxstrnrcmp s1 s2 n
      else None)"

definition upper_sub :: "u8 \<Rightarrow> u8" where
  "upper_sub c = (if 97 \<le> c \<and> c \<le> 122 then c - 32 else c)"

fun string_xxstrncasercmp :: "bytes \<Rightarrow> bytes \<Rightarrow> nat \<Rightarrow> int option" where
  "string_xxstrncasercmp s1 s2 0 = Some 0"
| "string_xxstrncasercmp s1 s2 (Suc n) =
     (if n < length s1 \<and> n < length s2
      then let c1 = upper_sub (s1 ! n); c2 = upper_sub (s2 ! n)
           in if c1 \<noteq> c2 then Some (uint c1 - uint c2) else string_xxstrncasercmp s1 s2 n
      else None)"

section \<open>Numbers\<close>

definition is_digit :: "u8 \<Rightarrow> bool" where
  "is_digit c \<longleftrightarrow> 48 \<le> c \<and> c \<le> 57"

text \<open>
  The readers of unsigned numbers differ in the width of their result: \<open>uint32_t\<close> in
  \<open>strtoui\<close>, \<open>size_t\<close> in \<open>strtosize\<close>. Both return \<open>DFS_ERROR\<close> converted to that width.
\<close>

fun strtou_loop :: "'w::len word \<Rightarrow> bytes \<Rightarrow> 'w word" where
  "strtou_loop value [] = value"
| "strtou_loop value (c # line) =
     (if \<not> is_digit c then word_of_int DFS_ERROR
      else strtou_loop (value * 10 + ucast (c - 48)) line)"

definition string_xxstrtoui :: "bytes \<Rightarrow> u32" where
  "string_xxstrtoui line = (if line = [] then word_of_int DFS_ERROR else strtou_loop 0 line)"

definition string_xxstrtosize :: "bytes \<Rightarrow> u64" where
  "string_xxstrtosize line = (if line = [] then word_of_int DFS_ERROR else strtou_loop 0 line)"

text \<open>
  The readers of signed numbers keep the value in a signed type of width \<open>w\<close>: overflow is
  undefined. After a sign they still read \<open>n\<close> bytes, one more than the buffer has.
\<close>

definition signed_ok :: "nat \<Rightarrow> int \<Rightarrow> bool" where
  "signed_ok w v \<longleftrightarrow> - (2 ^ (w - 1)) \<le> v \<and> v < 2 ^ (w - 1)"

fun strtoi_loop :: "nat \<Rightarrow> nat \<Rightarrow> int \<Rightarrow> bytes \<Rightarrow> int option" where
  "strtoi_loop w 0 value line = Some value"
| "strtoi_loop w (Suc n) value [] = None"
| "strtoi_loop w (Suc n) value (c # line) =
     (if \<not> is_digit c then Some value
      else let v = value * 10 + uint (c - 48)
           in if signed_ok w (value * 10) \<and> signed_ok w v then strtoi_loop w n v line else None)"

definition strtosigned :: "nat \<Rightarrow> bytes \<Rightarrow> nat \<Rightarrow> int option" where
  "strtosigned w line n =
     (if n = 0 then Some 0
      else case line of
             [] \<Rightarrow> None
           | c # rest \<Rightarrow>
               if c = 45 then map_option uminus (strtoi_loop w n 0 rest)
               else strtoi_loop w n 0 line)"

definition string_xxstrtoi :: "bytes \<Rightarrow> nat \<Rightarrow> int option" where
  "string_xxstrtoi = strtosigned 32"

definition string_xxstrtossize :: "bytes \<Rightarrow> nat \<Rightarrow> int option" where
  "string_xxstrtossize = strtosigned 64"

text \<open>\<open>strtotime\<close> is the unsigned reader on a signed 64-bit \<open>time_t\<close>.\<close>

fun strtotime_loop :: "int \<Rightarrow> bytes \<Rightarrow> int option" where
  "strtotime_loop value [] = Some value"
| "strtotime_loop value (c # line) =
     (if \<not> is_digit c then Some DFS_ERROR
      else let v = value * 10 + uint (c - 48)
           in if signed_ok 64 (value * 10) \<and> signed_ok 64 v then strtotime_loop v line else None)"

definition string_xxstrtotime :: "bytes \<Rightarrow> int option" where
  "string_xxstrtotime line = (if line = [] then Some DFS_ERROR else strtotime_loop 0 line)"

fun strhextoi_loop :: "nat \<Rightarrow> int \<Rightarrow> bytes \<Rightarrow> int option" where
  "strhextoi_loop 0 value line = Some value"
| "strhextoi_loop (Suc n) value [] = None"
| "strhextoi_loop (Suc n) value (ch # line) =
     (let c = or ch 0x20;
          d = (if is_digit ch then Some (uint (ch - 48))
               else if 97 \<le> c \<and> c \<le> 102 then Some (uint (c - 97) + 10) else None)
      in case d of
           None \<Rightarrow> Some value
         | Some d \<Rightarrow>
             if signed_ok 32 (value * 16) \<and> signed_ok 32 (value * 16 + d)
             then strhextoi_loop n (value * 16 + d) line else None)"

definition string_xxstrhextoi :: "bytes \<Rightarrow> nat \<Rightarrow> int option" where
  "string_xxstrhextoi line n =
     (if n = 0 then Some 0
      else case line of
             [] \<Rightarrow> None
           | c # rest \<Rightarrow>
               if c = 45 then map_option uminus (strhextoi_loop n 0 rest)
               else strhextoi_loop n 0 line)"

definition hex_digits :: bytes where
  "hex_digits = str ''0123456789abcdef''"

definition string_xxstrtohex :: "bytes \<Rightarrow> bytes" where
  "string_xxstrtohex src =
     concat (map (\<lambda>c. [hex_digits ! unat (drop_bit 4 c), hex_digits ! unat (and c 0xf)]) src)"

section \<open>The comparisons decide equality\<close>

lemma uint_eq_iff [simp]: "uint (a :: 'a::len word) = uint b \<longleftrightarrow> a = b" "uint (a :: 'a word) = 0 \<longleftrightarrow> a = 0"
  by (auto simp: word_uint_eq_iff)

lemma string_strncmp_eq_0:
  "cstring s \<Longrightarrow> cstring t \<Longrightarrow> string_strncmp s t n = 0 \<longleftrightarrow> take n s = take n t"
proof (induction s t n rule: string_strncmp.induct)
  case (2 s t n)
  then show ?case by (cases s; cases t) auto
qed simp

lemma strncmp_prefix:
  "cstring s \<Longrightarrow> cstring t \<Longrightarrow> string_strncmp s t (length s) = 0 \<longleftrightarrow> prefix s t"
  by (auto simp: string_strncmp_eq_0 prefix_def) (metis append_take_drop_id)

lemma strncmp_prefix_right:
  "cstring s \<Longrightarrow> cstring t \<Longrightarrow> string_strncmp s t (length t) = 0 \<longleftrightarrow> prefix t s"
  by (auto simp: string_strncmp_eq_0 prefix_def) (metis append_take_drop_id)

lemma ctolower_eq_0 [simp]: "string_xxctolower c = 0 \<longleftrightarrow> c = 0"
proof -
  have "bit (or c (0x20 :: u8)) 5" by (simp add: bit_or_iff)
  then have "or c 0x20 \<noteq> (0 :: u8)" by auto
  then show ?thesis by (auto simp: string_xxctolower_def)
qed

lemma strncasecmp_eq_0:
  "cstring s \<Longrightarrow> cstring t \<Longrightarrow> string_xxstrncasecmp s t n = 0 \<longleftrightarrow>
     map string_xxctolower (take n s) = map string_xxctolower (take n t)"
proof (induction s t n rule: string_xxstrncasecmp.induct)
  case (2 s t n)
  then show ?case by (cases s; cases t) (auto simp: Let_def)
qed simp

declare string_xxstrcasecmp.simps [simp del]

lemma strcasecmp_eq_0:
  "cstring s \<Longrightarrow> cstring t \<Longrightarrow> string_xxstrcasecmp s t = 0 \<longleftrightarrow>
     map string_xxctolower s = map string_xxctolower t"
proof (induction s t rule: string_xxstrcasecmp.induct)
  case (1 s t)
  then show ?case
    by (cases s; cases t) (auto simp: Let_def string_xxstrcasecmp.simps)
qed

lemma strnrcmp_eq_0:
  "n \<le> length s \<Longrightarrow> n \<le> length t \<Longrightarrow> string_xxstrnrcmp s t n = Some 0 \<longleftrightarrow> take n s = take n t"
  by (induction s t n rule: string_xxstrnrcmp.induct) (auto simp: take_Suc_conv_app_nth)

lemma strlchr_Some:
  "string_xxstrlchr s c = Some i \<longleftrightarrow> i < length s \<and> s ! i = c \<and> (\<forall>j<i. s ! j \<noteq> c)"
proof (induction s arbitrary: i)
  case (Cons p s)
  then show ?case by (cases i) (auto simp: less_Suc_eq_0_disj)
qed simp

section \<open>The number readers invert decimal notation\<close>

fun decimal :: "nat \<Rightarrow> bytes" where
  "decimal n = (if n < 10 then [48 + of_nat n] else decimal (n div 10) @ [48 + of_nat (n mod 10)])"

declare decimal.simps [simp del]

definition dec_value :: "nat \<Rightarrow> bytes \<Rightarrow> nat" where
  "dec_value v ds = foldl (\<lambda>v c. v * 10 + unat (c - 48)) v ds"

lemma dec_value_simps [simp]:
  "dec_value v [] = v"
  "dec_value v (c # ds) = dec_value (v * 10 + unat (c - 48)) ds"
  "dec_value v (ds @ es) = dec_value (dec_value v ds) es"
  by (simp_all add: dec_value_def)

lemma digit_byte: "d < 10 \<Longrightarrow> is_digit (48 + of_nat d) \<and> unat ((48 + of_nat d :: u8) - 48) = d"
  by (auto simp: is_digit_def word_le_nat_alt unat_of_nat unat_word_ariths)

lemma decimal_digits: "\<forall>c \<in> set (decimal n). is_digit c"
  by (induction n rule: decimal.induct) (subst decimal.simps, auto simp: digit_byte)

lemma unat_digit: "d < 10 \<Longrightarrow> unat (word_of_nat d :: u8) = d"
  by (simp add: unat_of_nat)

lemma decimal_value: "dec_value 0 (decimal n) = n"
  by (induction n rule: decimal.induct) (subst decimal.simps, auto simp: unat_digit)

lemma decimal_nonempty [simp]: "decimal n \<noteq> []"
  by (subst decimal.simps) simp

lemma dec_value_mono: "v \<le> dec_value v ds"
proof (induction ds arbitrary: v)
  case (Cons c ds)
  have "v \<le> v * 10 + unat (c - 48)" by simp
  also have "\<dots> \<le> dec_value (v * 10 + unat (c - 48)) ds" by (rule Cons.IH)
  finally show ?case by simp
qed simp

lemma strtou_loop_digits:
  "\<forall>c \<in> set ds. is_digit c \<Longrightarrow> strtou_loop (of_nat v) ds = (of_nat (dec_value v ds) :: 'w::len word)"
proof (induction ds arbitrary: v)
  case (Cons c ds)
  have "(of_nat v * 10 + ucast (c - 48) :: 'w word) = of_nat (v * 10 + unat (c - 48))"
    by simp
  with Cons.IH[of "v * 10 + unat (c - 48)"] Cons.prems show ?case by (simp del: of_nat_add of_nat_mult)
qed simp

lemma strtoui_decimal: "string_xxstrtoui (decimal n) = of_nat n"
  using strtou_loop_digits[OF decimal_digits, of 0 n] by (simp add: string_xxstrtoui_def decimal_value)

lemma strtosize_decimal: "string_xxstrtosize (decimal n) = of_nat n"
  using strtou_loop_digits[OF decimal_digits, of 0 n] by (simp add: string_xxstrtosize_def decimal_value)

lemma strtoi_loop_digits:
  "\<forall>c \<in> set ds. is_digit c \<Longrightarrow> int (dec_value v ds) < 2 ^ (w - 1) \<Longrightarrow>
     strtoi_loop w (length ds + k) (int v) (ds @ rest) = strtoi_loop w k (int (dec_value v ds)) rest"
proof (induction ds arbitrary: v)
  case (Cons c ds)
  have "int (v * 10 + unat (c - 48)) \<le> int (dec_value v (c # ds))"
    by (simp add: dec_value_mono del: of_nat_add of_nat_mult)
  with Cons.prems(2) have "int (v * 10 + unat (c - 48)) < 2 ^ (w - 1)" by linarith
  then have a: "int v * 10 + uint (c - 48) < 2 ^ (w - 1)" by simp
  moreover have "int v * 10 < 2 ^ (w - 1)" using a uint_ge_0[of "c - 48"] by linarith
  ultimately have "signed_ok w (int v * 10)" "signed_ok w (int v * 10 + uint (c - 48))"
    by (auto simp: signed_ok_def intro: order_trans[of _ 0])
  with Cons.prems Cons.IH[of "v * 10 + unat (c - 48)"] show ?case by (simp add: Let_def)
qed simp

text \<open>A number after a minus sign is read together with the byte that follows the buffer.\<close>

lemma strtosigned_decimal:
  assumes "int n < 2 ^ (w - 1)"
  shows "strtosigned w (decimal n @ rest) (length (decimal n)) = Some (int n)"
proof -
  obtain c ds where ds: "decimal n = c # ds" by (cases "decimal n") auto
  then have "c \<noteq> 45" using decimal_digits[of n] by (auto simp: is_digit_def)
  with ds have "strtosigned w (decimal n @ rest) (length (decimal n)) =
      strtoi_loop w (length (decimal n)) 0 (decimal n @ rest)"
    by (simp add: strtosigned_def)
  then show ?thesis
    using strtoi_loop_digits[OF decimal_digits, of 0 n w 0 rest] assms by (simp add: decimal_value)
qed

lemma strtosigned_minus:
  assumes "int n < 2 ^ (w - 1)"
  shows "strtosigned w (45 # decimal n @ c # rest) (Suc (length (decimal n))) =
    map_option uminus (strtoi_loop w 1 (int n) (c # rest))"
  using strtoi_loop_digits[OF decimal_digits, of 0 n w 1 "c # rest"] assms
  by (simp add: strtosigned_def decimal_value)

end
