(* ===== verification/Dfs_Hashtable.thy ===== *)
theory Dfs_Hashtable
  imports Dfs_Math Dfs_String
begin

text \<open>
  The chained hash tables of \<open>src/src/core/dfs_hashtable.c\<close>. The links are embedded in the
  objects of the clients; a link is a pointer \<open>'p\<close>, and the record below holds the table
  together with the three fields \<open>key\<close>, \<open>len\<close>, \<open>next\<close> of every link. A \<open>NULL\<close> pointer is
  \<^term>\<open>None\<close>; running off the end of the chain structure, the failed assertion of the
  lookup included, is \<^term>\<open>None\<close> of the outer option. The hash and comparison functions
  are fields of the table as in the source.

  A table represents a finite map from keys to links (\<open>ht_rep\<close>). Joining and removing a link
  update that map. A lookup is exact as long as no other key of the same bucket compares
  equal, which is the law of the interface \<open>key_index\<close>; for the keys compared with
  \<open>strncmp\<close> up to the length of the sought key this excludes longer keys in the same bucket.
\<close>

section \<open>The code\<close>

definition DFS_HASHTABLE_DEFAULT_SIZE :: nat where [dfs_code]: "DFS_HASHTABLE_DEFAULT_SIZE = 7951"
definition DFS_HASHTABLE_ERROR :: int where [dfs_code]: "DFS_HASHTABLE_ERROR = -1"
definition DFS_HASHTABLE_OK :: int where [dfs_code]: "DFS_HASHTABLE_OK = 0"
definition DFS_HASHTABLE_FALSE :: int where [dfs_code]: "DFS_HASHTABLE_FALSE = 0"
definition DFS_HASHTABLE_TRUE :: int where [dfs_code]: "DFS_HASHTABLE_TRUE = 1"

record ('p, 'k) hashtable =
  ht_buckets :: "nat \<Rightarrow> 'p option"
  ht_cmp :: "'k \<Rightarrow> 'k \<Rightarrow> nat \<Rightarrow> int"
  ht_hash :: "'k \<Rightarrow> nat \<Rightarrow> nat \<Rightarrow> nat"
  ht_size :: nat
  ht_count :: int
  ln_key :: "'p \<Rightarrow> 'k option"
  ln_len :: "'p \<Rightarrow> nat"
  ln_next :: "'p \<Rightarrow> 'p option"

text \<open>\<open>char\<close> is signed on the platforms of the source: a byte is sign-extended.\<close>

definition DFS_HASH4 :: "u64 \<Rightarrow> u8 \<Rightarrow> u64" where
  "DFS_HASH4 x c = push_bit 5 x + x + scast c"

definition dfs_hashtable_hash_hash4 :: "bytes \<Rightarrow> nat \<Rightarrow> nat \<Rightarrow> nat" where
  "dfs_hashtable_hash_hash4 data data_size hashtable_size =
     (let n = (if data_size mod 8 \<noteq> 0 then 1 else 0) + 8 * (data_size div 8)
      in unat (foldl DFS_HASH4 0 (take n data)) mod hashtable_size)"

text \<open>A little-endian 64-bit load.\<close>

fun load_le :: "bytes \<Rightarrow> u64" where
  "load_le [] = 0"
| "load_le (b # bs) = or (ucast b) (push_bit 8 (load_le bs))"

fun key8_loop :: "nat \<Rightarrow> nat \<Rightarrow> u64 \<Rightarrow> bytes \<Rightarrow> u64 option" where
  "key8_loop 0 bnum n s = Some n"
| "key8_loop (Suc i) bnum n s =
     (if length s < 8 then None
      else let one = load_le (take 8 s);
               one = (if bnum \<noteq> 0 \<and> i = 0 then drop_bit (bnum * 8) one else one)
           in key8_loop i bnum (xor n (271 * one)) (drop 8 s))"

text \<open>\<open>data\<close> is the memory from the key on: the last load may reach beyond the key.\<close>

definition dfs_hashtable_hash_key8 :: "bytes \<Rightarrow> nat \<Rightarrow> nat \<Rightarrow> nat option" where
  "dfs_hashtable_hash_key8 data data_size hashtable_size =
     (let bnum = data_size mod 8;
          loop = data_size div 8 + (if bnum \<noteq> 0 then 1 else 0)
      in map_option (\<lambda>n. unat (xor n (of_nat loop * 271)) mod hashtable_size)
           (key8_loop loop bnum 0 data))"

fun hash_low_loop :: "u64 \<Rightarrow> bytes \<Rightarrow> nat \<Rightarrow> u64" where
  "hash_low_loop n s 0 = n"
| "hash_low_loop n [] (Suc j) = n"
| "hash_low_loop n (c # s) (Suc j) =
     (if c = 0 then n else hash_low_loop (n * 31 + ucast (string_xxctolower c)) s j)"

definition dfs_hashtable_hash_low :: "bytes \<Rightarrow> nat \<Rightarrow> nat \<Rightarrow> nat" where
  "dfs_hashtable_hash_low data data_size hashtable_size =
     unat (hash_low_loop 0 data data_size) mod hashtable_size"

text \<open>
  \<open>alloc_ok\<close> is whether the bucket array could be allocated; it is zeroed by \<open>calloc\<close>. The
  outer option is the non-termination of the prime search.
\<close>

definition dfs_hashtable_init ::
  "bool \<Rightarrow> ('k \<Rightarrow> 'k \<Rightarrow> nat \<Rightarrow> int) \<Rightarrow> nat \<Rightarrow> ('k \<Rightarrow> nat \<Rightarrow> nat \<Rightarrow> nat) \<Rightarrow>
   ('p, 'k) hashtable \<Rightarrow> (int \<times> ('p, 'k) hashtable) option" where
  "dfs_hashtable_init alloc_ok cmp_func hash_sz hash_func ht = do {
     size \<leftarrow> (if hash_sz = 0 then Some DFS_HASHTABLE_DEFAULT_SIZE else dfs_math_find_prime hash_sz);
     let ht = ht\<lparr>ht_size := size\<rparr>;
     if \<not> alloc_ok then Some (DFS_HASHTABLE_ERROR, ht)
     else Some (DFS_HASHTABLE_OK,
            ht\<lparr>ht_buckets := (\<lambda>_. None), ht_cmp := cmp_func, ht_hash := hash_func, ht_count := 0\<rparr>) }"

text \<open>
  The table header comes from the allocator (\<open>mem\<close>, zeroed, or NULL). With an allocator the
  header is written before it is checked.
\<close>

definition dfs_hashtable_create ::
  "bool \<Rightarrow> ('p, 'k) hashtable option \<Rightarrow> bool \<Rightarrow> ('k \<Rightarrow> 'k \<Rightarrow> nat \<Rightarrow> int) \<Rightarrow> nat \<Rightarrow>
   ('k \<Rightarrow> nat \<Rightarrow> nat \<Rightarrow> nat) \<Rightarrow> ('p, 'k) hashtable option option" where
  "dfs_hashtable_create allocator mem alloc_ok cmp_func hash_sz hash_func =
     (case mem of
        None \<Rightarrow> if allocator then None else Some None
      | Some ht \<Rightarrow> do {
          (rc, ht) \<leftarrow> dfs_hashtable_init alloc_ok cmp_func hash_sz hash_func ht;
          Some (if rc = DFS_HASHTABLE_OK then Some ht else None) })"

text \<open>The key and length of a link are set by the client before the join.\<close>

definition link_make :: "'p \<Rightarrow> 'k \<Rightarrow> nat \<Rightarrow> ('p, 'k) hashtable \<Rightarrow> ('p, 'k) hashtable" where
  "link_make hl k len ht =
     ht\<lparr>ln_key := (ln_key ht)(hl := Some k), ln_len := (ln_len ht)(hl := len),
        ln_next := (ln_next ht)(hl := None)\<rparr>"

definition dfs_hashtable_join :: "'p \<Rightarrow> ('p, 'k) hashtable \<Rightarrow> ('p, 'k) hashtable option" where
  "dfs_hashtable_join hl ht = do {
     k \<leftarrow> ln_key ht hl;
     let i = ht_hash ht k (ln_len ht hl) (ht_size ht);
     let ht = ht\<lparr>ln_next := (ln_next ht)(hl := ht_buckets ht i)\<rparr>;
     let ht = ht\<lparr>ht_buckets := (ht_buckets ht)(i := Some hl)\<rparr>;
     Some (ht\<lparr>ht_count := ht_count ht + 1\<rparr>) }"

partial_function (option) lookup_loop ::
  "('p, 'k) hashtable \<Rightarrow> 'k \<Rightarrow> nat \<Rightarrow> 'p option \<Rightarrow> 'p option option" where
  "lookup_loop ht key len walker =
     (case walker of
        None \<Rightarrow> Some None
      | Some w \<Rightarrow>
          (case ln_key ht w of
             None \<Rightarrow> Some None
           | Some k \<Rightarrow>
               if ht_cmp ht key k len = 0 then Some (Some w)
               else if ln_next ht w = Some w then None
               else lookup_loop ht key len (ln_next ht w)))"

definition dfs_hashtable_lookup :: "('p, 'k) hashtable \<Rightarrow> 'k \<Rightarrow> nat \<Rightarrow> 'p option option" where
  "dfs_hashtable_lookup ht key len = lookup_loop ht key len (ht_buckets ht (ht_hash ht key len (ht_size ht)))"

text \<open>
  The removal walks with a pointer to the pointer to the current link: \<open>prev\<close> is the link
  whose \<open>next\<close> field that is, or \<^term>\<open>None\<close> for the head of bucket \<open>i\<close>.
\<close>

partial_function (option) remove_loop ::
  "'p \<Rightarrow> nat \<Rightarrow> 'p option \<Rightarrow> 'p option \<Rightarrow> ('p, 'k) hashtable \<Rightarrow> (int \<times> ('p, 'k) hashtable) option" where
  "remove_loop hl i prev cur ht =
     (case cur of
        None \<Rightarrow> Some (DFS_HASHTABLE_ERROR, ht)
      | Some c \<Rightarrow>
          if c = hl
          then Some (DFS_HASHTABLE_OK,
            (case prev of
               None \<Rightarrow> ht\<lparr>ht_buckets := (ht_buckets ht)(i := ln_next ht hl), ht_count := ht_count ht - 1\<rparr>
             | Some q \<Rightarrow> ht\<lparr>ln_next := (ln_next ht)(q := ln_next ht hl), ht_count := ht_count ht - 1\<rparr>))
          else remove_loop hl i (Some c) (ln_next ht c) ht)"

definition dfs_hashtable_remove_link :: "'p \<Rightarrow> ('p, 'k) hashtable \<Rightarrow> (int \<times> ('p, 'k) hashtable) option" where
  "dfs_hashtable_remove_link hl ht = do {
     k \<leftarrow> ln_key ht hl;
     let i = ht_hash ht k (ln_len ht hl) (ht_size ht);
     remove_loop hl i None (ht_buckets ht i) ht }"

definition dfs_hashtable_get_bucket :: "('p, 'k) hashtable \<Rightarrow> nat \<Rightarrow> 'p option" where
  "dfs_hashtable_get_bucket ht bucket = (if bucket \<ge> ht_size ht then None else ht_buckets ht bucket)"

text \<open>\<open>free_object_func\<close> releases one object of the client's state \<open>'s\<close>.\<close>

partial_function (option) free_chain_loop ::
  "('p \<Rightarrow> 's \<Rightarrow> 's option) \<Rightarrow> 'p option \<Rightarrow> ('p, 'k) hashtable \<Rightarrow> 's \<Rightarrow> (('p, 'k) hashtable \<times> 's) option" where
  "free_chain_loop free walker ht s =
     (case walker of
        None \<Rightarrow> Some (ht, s)
      | Some w \<Rightarrow> do {
          let next = ln_next ht w;
          s \<leftarrow> free w s;
          free_chain_loop free next (ht\<lparr>ht_count := ht_count ht - 1\<rparr>) s })"

fun free_items_loop ::
  "('p \<Rightarrow> 's \<Rightarrow> 's option) \<Rightarrow> nat list \<Rightarrow> ('p, 'k) hashtable \<Rightarrow> 's \<Rightarrow> (('p, 'k) hashtable \<times> 's) option" where
  "free_items_loop free [] ht s = Some (ht, s)"
| "free_items_loop free (i # is) ht s = do {
     (ht, s) \<leftarrow> free_chain_loop free (ht_buckets ht i) ht s;
     free_items_loop free is ht s }"

definition dfs_hashtable_free_items ::
  "('p \<Rightarrow> 's \<Rightarrow> 's option) \<Rightarrow> ('p, 'k) hashtable \<Rightarrow> 's \<Rightarrow> (('p, 'k) hashtable \<times> 's) option" where
  "dfs_hashtable_free_items free ht s = free_items_loop free [0..<ht_size ht] ht s"

definition dfs_hashtable_empty :: "('p, 'k) hashtable \<Rightarrow> int" where
  "dfs_hashtable_empty ht = (if ht_count ht \<noteq> 0 then DFS_HASHTABLE_FALSE else DFS_HASHTABLE_TRUE)"

section \<open>The map a table represents\<close>

fun chain :: "('p \<Rightarrow> 'p option) \<Rightarrow> 'p option \<Rightarrow> 'p list \<Rightarrow> bool" where
  "chain nx w [] \<longleftrightarrow> w = None"
| "chain nx w (p # ps) \<longleftrightarrow> w = Some p \<and> chain nx (nx p) ps"

lemma chain_cong: "(\<And>p. p \<in> set ps \<Longrightarrow> nx p = nx' p) \<Longrightarrow> chain nx w ps \<longleftrightarrow> chain nx' w ps"
  by (induction ps arbitrary: w) auto

text \<open>The bucket of a key whose length is the one \<open>klen\<close> gives.\<close>

definition bkt :: "('k \<Rightarrow> nat) \<Rightarrow> ('p, 'k) hashtable \<Rightarrow> 'k \<Rightarrow> nat" where
  "bkt klen ht k = ht_hash ht k (klen k) (ht_size ht)"

lemma bkt_cong: "ht_hash ht' = ht_hash ht \<Longrightarrow> ht_size ht' = ht_size ht \<Longrightarrow> bkt klen ht' = bkt klen ht"
  by (simp add: bkt_def fun_eq_iff)

text \<open>The links of a map whose keys belong to one bucket.\<close>

definition bset :: "('k \<rightharpoonup> 'p) \<Rightarrow> ('k \<Rightarrow> nat) \<Rightarrow> nat \<Rightarrow> 'p set" where
  "bset m b i = {p. \<exists>k. m k = Some p \<and> b k = i}"

lemma bset_insert: "m k = None \<Longrightarrow> bset (m(k \<mapsto> p)) b i = (if b k = i then insert p (bset m b i) else bset m b i)"
  unfolding bset_def by (auto; metis option.distinct(1))

lemma bset_delete:
  assumes k: "m k = Some p" and inj: "\<And>k'. m k' = Some p \<Longrightarrow> k' = k"
  shows "bset (m(k := None)) b i = bset m b i - {p}"
proof -
  have "(\<exists>k'. (m(k := None)) k' = Some x \<and> b k' = i) \<longleftrightarrow> (\<exists>k'. m k' = Some x \<and> b k' = i) \<and> x \<noteq> p" for x
  proof (cases "x = p")
    case True
    then show ?thesis using inj by (auto split: if_splits)
  next
    case False
    with k have "k' \<noteq> k" if "m k' = Some x" for k' using that by auto
    with False show ?thesis by (metis fun_upd_apply option.distinct(1))
  qed
  then show ?thesis by (auto simp: bset_def)
qed

lemma bset_ran: "p \<in> bset m b i \<Longrightarrow> p \<in> ran m"
  by (auto simp: bset_def ran_def)

definition ht_chains :: "('k \<Rightarrow> nat) \<Rightarrow> ('p, 'k) hashtable \<Rightarrow> ('k \<rightharpoonup> 'p) \<Rightarrow> (nat \<Rightarrow> 'p list) \<Rightarrow> bool" where
  "ht_chains klen ht m L \<longleftrightarrow>
     (\<forall>i. chain (ln_next ht) (ht_buckets ht i) (L i) \<and> distinct (L i)) \<and>
     (\<forall>i. set (L i) = bset m (bkt klen ht) i)"

definition ht_rep :: "('k \<Rightarrow> nat) \<Rightarrow> ('p, 'k) hashtable \<Rightarrow> ('k \<rightharpoonup> 'p) \<Rightarrow> bool" where
  "ht_rep klen ht m \<longleftrightarrow>
     (\<exists>L. ht_chains klen ht m L) \<and>
     (\<forall>k p. m k = Some p \<longrightarrow> ln_key ht p = Some k \<and> ln_len ht p = klen k) \<and>
     finite (dom m) \<and> ht_count ht = int (card (dom m))"

lemma ht_rep_key: "ht_rep klen ht m \<Longrightarrow> m k = Some p \<Longrightarrow> ln_key ht p = Some k \<and> ln_len ht p = klen k"
  by (simp add: ht_rep_def)

lemma ht_rep_inj: "ht_rep klen ht m \<Longrightarrow> m k = Some p \<Longrightarrow> m k' = Some p \<Longrightarrow> k = k'"
  using ht_rep_key[of klen ht m k p] ht_rep_key[of klen ht m k' p] by simp

lemma ht_rep_card_ran: "ht_rep klen ht m \<Longrightarrow> card (ran m) = card (dom m)"
proof -
  assume rep: "ht_rep klen ht m"
  have "ran m = (\<lambda>k. the (m k)) ` dom m" by (force simp: ran_def dom_def image_iff)
  moreover have "inj_on (\<lambda>k. the (m k)) (dom m)" by (rule inj_onI) (auto intro: ht_rep_inj[OF rep])
  ultimately show ?thesis by (simp add: card_image)
qed

lemma ht_rep_empty:
  "ht_count ht = 0 \<Longrightarrow> ht_buckets ht = (\<lambda>_. None) \<Longrightarrow> ht_rep klen ht Map.empty"
  by (auto simp: ht_rep_def ht_chains_def bset_def intro!: exI[of _ "\<lambda>_. []"])

lemma ht_chains_inj:
  "ht_rep klen ht m \<Longrightarrow> ht_chains klen ht m L \<Longrightarrow> m k = Some p \<Longrightarrow> p \<in> set (L i) \<longleftrightarrow> i = bkt klen ht k"
  by (auto simp: ht_chains_def bset_def dest: ht_rep_inj)

section \<open>Lookup\<close>

lemma lookup_loop_chain:
  assumes "chain (ln_next ht) w ps" "distinct ps" "\<And>p. p \<in> set ps \<Longrightarrow> ln_key ht p \<noteq> None"
  shows "lookup_loop ht key len w =
    Some (find (\<lambda>p. ht_cmp ht key (the (ln_key ht p)) len = 0) ps)"
  using assms
proof (induction ps arbitrary: w)
  case Nil
  then show ?case by (subst lookup_loop.simps) simp
next
  case (Cons p ps)
  then obtain k where k: "ln_key ht p = Some k" by fastforce
  from Cons.prems have w: "w = Some p" and "chain (ln_next ht) (ln_next ht p) ps" by auto
  moreover from this Cons.prems(2) have "ln_next ht p \<noteq> Some p" by (cases ps) auto
  ultimately show ?case
    using Cons k by (subst lookup_loop.simps) simp
qed

lemma find_eq: "p \<in> set ps \<Longrightarrow> find (\<lambda>q. p = q) ps = Some p"
  by (induction ps) auto

text \<open>A lookup is exact when no other key of the bucket compares equal to the sought one.\<close>

definition no_clash :: "('k \<Rightarrow> nat) \<Rightarrow> ('p, 'k) hashtable \<Rightarrow> 'k \<Rightarrow> 'k set \<Rightarrow> bool" where
  "no_clash klen ht k K \<longleftrightarrow>
     ht_cmp ht k k (klen k) = 0 \<and>
     (\<forall>k' \<in> K. k' \<noteq> k \<longrightarrow> bkt klen ht k' = bkt klen ht k \<longrightarrow> ht_cmp ht k k' (klen k) \<noteq> 0)"

lemma lookup_exact:
  assumes rep: "ht_rep klen ht m" and clash: "no_clash klen ht k (dom m)"
  shows "dfs_hashtable_lookup ht k (klen k) = Some (m k)"
proof -
  from rep obtain L where L: "ht_chains klen ht m L" by (auto simp: ht_rep_def)
  let ?ps = "L (bkt klen ht k)"
  have mem: "p \<in> set ?ps \<longleftrightarrow> (\<exists>k'. m k' = Some p \<and> bkt klen ht k' = bkt klen ht k)" for p
    using L by (simp add: ht_chains_def bset_def)
  have hit: "ht_cmp ht k (the (ln_key ht p)) (klen k) = 0 \<longleftrightarrow> m k = Some p" if "p \<in> set ?ps" for p
  proof -
    from that mem obtain k' where k': "m k' = Some p" "bkt klen ht k' = bkt klen ht k" by blast
    then have "ln_key ht p = Some k'" using ht_rep_key[OF rep] by blast
    with k' clash ht_rep_inj[OF rep k'(1), of k] show ?thesis
      by (cases "k' = k") (auto simp: no_clash_def)
  qed
  have "find (\<lambda>p. ht_cmp ht k (the (ln_key ht p)) (klen k) = 0) ?ps = find (\<lambda>p. m k = Some p) ?ps"
    by (rule find_cong) (auto simp: hit)
  also have "\<dots> = m k"
  proof (cases "m k")
    case None
    then show ?thesis by (simp add: find_None_iff)
  next
    case (Some p)
    then have "p \<in> set ?ps" using mem by auto
    with Some show ?thesis by (simp add: find_eq)
  qed
  finally have "find (\<lambda>p. ht_cmp ht k (the (ln_key ht p)) (klen k) = 0) ?ps = m k" .
  moreover have "chain (ln_next ht) (ht_buckets ht (bkt klen ht k)) ?ps" "distinct ?ps"
    using L by (auto simp: ht_chains_def)
  moreover have "ln_key ht p \<noteq> None" if "p \<in> set ?ps" for p
    using that mem[of p] ht_rep_key[OF rep] by auto
  ultimately show ?thesis
    using lookup_loop_chain[of ht _ ?ps k "klen k"] by (simp add: dfs_hashtable_lookup_def bkt_def)
qed

section \<open>Joining and removing\<close>

lemma ht_rep_cong:
  assumes "ht_rep klen ht m" and "ht_buckets ht' = ht_buckets ht" "ht_size ht' = ht_size ht"
    "ht_hash ht' = ht_hash ht" "ht_count ht' = ht_count ht"
    and "\<And>p. p \<in> ran m \<Longrightarrow> ln_next ht' p = ln_next ht p \<and> ln_key ht' p = ln_key ht p \<and> ln_len ht' p = ln_len ht p"
  shows "ht_rep klen ht' m"
proof -
  from assms(1) obtain L where L: "ht_chains klen ht m L" by (auto simp: ht_rep_def)
  have "p \<in> ran m" if "p \<in> set (L i)" for p i
    using L that bset_ran by (fastforce simp: ht_chains_def)
  then have "chain (ln_next ht') (ht_buckets ht i) (L i) = chain (ln_next ht) (ht_buckets ht i) (L i)" for i
    using assms(6) by (intro chain_cong) blast
  with L assms(2) have "ht_chains klen ht' m L"
    by (simp add: ht_chains_def bkt_cong[OF assms(4,3)])
  moreover have "ln_key ht' p = Some k \<and> ln_len ht' p = klen k" if "m k = Some p" for k p
    using that assms(6)[of p] ht_rep_key[OF assms(1) that] by (auto simp: ran_def)
  ultimately show ?thesis using assms(1,5) by (auto simp: ht_rep_def)
qed

lemma ht_rep_link_make:
  "ht_rep klen ht m \<Longrightarrow> hl \<notin> ran m \<Longrightarrow> ht_rep klen (link_make hl k len ht) m"
  by (erule ht_rep_cong) (auto simp: link_make_def)

lemma link_make_simps [simp]:
  "ln_key (link_make hl k len ht) hl = Some k" "ln_len (link_make hl k len ht) hl = len"
  "ht_cmp (link_make hl k len ht) = ht_cmp ht" "ht_hash (link_make hl k len ht) = ht_hash ht"
  "ht_size (link_make hl k len ht) = ht_size ht" "ht_count (link_make hl k len ht) = ht_count ht"
  by (simp_all add: link_make_def)

text \<open>The functions and the number of buckets of a table never change.\<close>

definition ht_same :: "('p, 'k) hashtable \<Rightarrow> ('p, 'k) hashtable \<Rightarrow> bool" where
  "ht_same ht ht' \<longleftrightarrow> ht_cmp ht' = ht_cmp ht \<and> ht_hash ht' = ht_hash ht \<and> ht_size ht' = ht_size ht"

lemma ht_same_refl [simp]: "ht_same ht ht"
  by (simp add: ht_same_def)

lemma ht_same_trans: "ht_same ht ht' \<Longrightarrow> ht_same ht' ht'' \<Longrightarrow> ht_same ht ht''"
  by (simp add: ht_same_def)

lemma ht_same_no_clash: "ht_same ht ht' \<Longrightarrow> no_clash klen ht' k K = no_clash klen ht k K"
  by (simp add: ht_same_def no_clash_def bkt_def)

lemma ht_same_link_make [simp]: "ht_same ht (link_make hl k len ht)"
  by (simp add: ht_same_def)

lemma join_rep:
  assumes rep: "ht_rep klen ht m" and hl: "hl \<notin> ran m" "ln_key ht hl = Some k" "ln_len ht hl = klen k"
    and k: "m k = None"
  shows "\<exists>ht'. dfs_hashtable_join hl ht = Some ht' \<and> ht_rep klen ht' (m(k \<mapsto> hl)) \<and> ht_same ht ht'"
proof -
  from rep obtain L where L: "ht_chains klen ht m L" by (auto simp: ht_rep_def)
  let ?i = "bkt klen ht k"
  let ?ht = "ht\<lparr>ln_next := (ln_next ht)(hl := ht_buckets ht ?i),
      ht_buckets := (ht_buckets ht)(?i := Some hl), ht_count := ht_count ht + 1\<rparr>"
  have out: "hl \<notin> set (L i)" for i
    using L hl(1) bset_ran by (fastforce simp: ht_chains_def)
  have "chain (ln_next ?ht) (ht_buckets ht i) (L i) = chain (ln_next ht) (ht_buckets ht i) (L i)" for i
    using out by (intro chain_cong) auto
  then have "ht_chains klen ?ht (m(k \<mapsto> hl)) (L(?i := hl # L ?i))"
    using L out by (auto simp: ht_chains_def bset_insert[of m k, OF k] bkt_cong[of ?ht ht])
  moreover have "ln_key ?ht p = Some k'" "ln_len ?ht p = klen k'" if "(m(k \<mapsto> hl)) k' = Some p" for k' p
    using that hl ht_rep_key[OF rep, of k' p] by (auto split: if_splits)
  ultimately have "ht_rep klen ?ht (m(k \<mapsto> hl))"
    using rep k by (auto simp: ht_rep_def card_insert_if)
  moreover have "dfs_hashtable_join hl ht = Some ?ht"
    using hl by (simp add: dfs_hashtable_join_def bkt_def Let_def)
  ultimately show ?thesis by (auto simp: ht_same_def)
qed

lemma join_new_rep:
  assumes "ht_rep klen ht m" "hl \<notin> ran m" "m k = None"
  shows "\<exists>ht'. dfs_hashtable_join hl (link_make hl k (klen k) ht) = Some ht' \<and>
    ht_rep klen ht' (m(k \<mapsto> hl)) \<and> ht_same ht ht'"
proof -
  from join_rep[OF ht_rep_link_make[OF assms(1,2)] assms(2) link_make_simps(1,2) assms(3)]
  obtain ht' where "dfs_hashtable_join hl (link_make hl k (klen k) ht) = Some ht'"
    "ht_rep klen ht' (m(k \<mapsto> hl))" "ht_same (link_make hl k (klen k) ht) ht'" by blast
  moreover from this(3) have "ht_same ht ht'" by (rule ht_same_trans[OF ht_same_link_make])
  ultimately show ?thesis by blast
qed

definition unlink_from :: "nat \<Rightarrow> 'p option \<Rightarrow> 'p \<Rightarrow> ('p, 'k) hashtable \<Rightarrow> ('p, 'k) hashtable" where
  "unlink_from i prev hl ht = (case prev of
       None \<Rightarrow> ht\<lparr>ht_buckets := (ht_buckets ht)(i := ln_next ht hl), ht_count := ht_count ht - 1\<rparr>
     | Some q \<Rightarrow> ht\<lparr>ln_next := (ln_next ht)(q := ln_next ht hl), ht_count := ht_count ht - 1\<rparr>)"

lemma remove_loop_chain:
  "chain (ln_next ht) w (us @ hl # vs) \<Longrightarrow> hl \<notin> set us \<Longrightarrow>
     remove_loop hl i prev w ht =
       Some (DFS_HASHTABLE_OK, unlink_from i (if us = [] then prev else Some (last us)) hl ht)"
proof (induction us arbitrary: w prev)
  case Nil
  then show ?case by (subst remove_loop.simps) (simp add: unlink_from_def)
next
  case (Cons u us)
  then show ?case by (subst remove_loop.simps) auto
qed

lemma remove_loop_absent:
  "chain (ln_next ht) w ps \<Longrightarrow> hl \<notin> set ps \<Longrightarrow> remove_loop hl i prev w ht = Some (DFS_HASHTABLE_ERROR, ht)"
proof (induction ps arbitrary: w prev)
  case Nil
  then show ?case by (subst remove_loop.simps) simp
next
  case (Cons u us)
  then show ?case by (subst remove_loop.simps) auto
qed

lemma chain_unlink:
  "chain nx w (us @ hl # vs) \<Longrightarrow> distinct (us @ hl # vs) \<Longrightarrow>
     (if us = [] then chain nx (nx hl) vs else chain (nx(last us := nx hl)) w (us @ vs))"
proof (induction us arbitrary: w)
  case (Cons u us)
  show ?case
  proof (cases "us = []")
    case True
    moreover have "chain (nx(u := nx hl)) (nx hl) vs = chain nx (nx hl) vs"
      using Cons.prems(2) by (intro chain_cong) auto
    ultimately show ?thesis using Cons.prems by simp
  next
    case False
    then have "last us \<noteq> u" using Cons.prems(2) by auto
    with Cons False show ?thesis by auto
  qed
qed simp

lemma remove_rep:
  assumes rep: "ht_rep klen ht m" and k: "m k = Some hl"
  shows "\<exists>ht'. dfs_hashtable_remove_link hl ht = Some (DFS_HASHTABLE_OK, ht') \<and>
    ht_rep klen ht' (m(k := None)) \<and> ht_same ht ht'"
proof -
  from rep obtain L where L: "ht_chains klen ht m L" by (auto simp: ht_rep_def)
  let ?i = "bkt klen ht k"
  have "hl \<in> set (L ?i)" using ht_chains_inj[OF rep L k] by simp
  then obtain us vs where uv: "L ?i = us @ hl # vs" and "hl \<notin> set us" by (metis split_list_first)
  let ?prev = "if us = [] then None else Some (last us)"
  let ?ht = "unlink_from ?i ?prev hl ht"
  have ch: "chain (ln_next ht) (ht_buckets ht i) (L i)" "distinct (L i)" for i
    using L by (auto simp: ht_chains_def)
  have other: "set (L i) \<inter> set (L ?i) = {}" if "i \<noteq> ?i" for i
  proof (rule ccontr)
    assume "set (L i) \<inter> set (L ?i) \<noteq> {}"
    then obtain p k1 k2 where "m k1 = Some p" "bkt klen ht k1 = i" "m k2 = Some p" "bkt klen ht k2 = ?i"
      using L by (auto simp: ht_chains_def bset_def)
    with that ht_rep_inj[OF rep, of k1 p k2] show False by auto
  qed
  have "chain (ln_next ?ht) (ht_buckets ?ht i) ((L(?i := us @ vs)) i)" for i
  proof (cases "i = ?i")
    case True
    then show ?thesis using chain_unlink[of "ln_next ht" "ht_buckets ht ?i" us hl vs] ch[of ?i] uv
      by (auto simp: unlink_from_def)
  next
    case False
    then have "chain (ln_next ?ht) (ht_buckets ht i) (L i) = chain (ln_next ht) (ht_buckets ht i) (L i)"
      using other[OF False] uv by (intro chain_cong) (auto simp: unlink_from_def)
    with False ch show ?thesis by (auto simp: unlink_from_def)
  qed
  moreover have "distinct ((L(?i := us @ vs)) i)" for i using ch(2)[of i] ch(2)[of ?i] uv by auto
  moreover have "set ((L(?i := us @ vs)) i) = bset (m(k := None)) (bkt klen ?ht) i" for i
  proof -
    have "bkt klen ?ht = bkt klen ht" by (auto simp: bkt_def unlink_from_def)
    moreover have "set (L j) = bset m (bkt klen ht) j" for j using L by (simp add: ht_chains_def)
    moreover have "set us \<union> set vs = set (L ?i) - {hl}" "i \<noteq> ?i \<Longrightarrow> hl \<notin> set (L i)"
      using ch(2)[of ?i] uv other[of i] by auto
    ultimately show ?thesis by (simp add: bset_delete[of m k hl] k ht_rep_inj[OF rep _ k])
  qed
  ultimately have "ht_chains klen ?ht (m(k := None)) (L(?i := us @ vs))" by (simp add: ht_chains_def)
  moreover have "ln_key ?ht p = Some k' \<and> ln_len ?ht p = klen k'" if "(m(k := None)) k' = Some p" for k' p
    using that ht_rep_key[OF rep, of k' p] by (auto simp: unlink_from_def split: if_splits)
  moreover have "card (dom m) = Suc (card (dom m - {k}))"
    using rep k by (intro card.remove) (auto simp: ht_rep_def)
  ultimately have "ht_rep klen ?ht (m(k := None))"
    using rep by (auto simp: ht_rep_def unlink_from_def)
  moreover have "dfs_hashtable_remove_link hl ht = Some (DFS_HASHTABLE_OK, ?ht)"
    using remove_loop_chain[of ht "ht_buckets ht ?i" us hl vs ?i None] ch(1)[of ?i] uv \<open>hl \<notin> set us\<close>
      ht_rep_key[OF rep k] by (simp add: dfs_hashtable_remove_link_def bkt_def)
  ultimately show ?thesis by (auto simp: ht_same_def unlink_from_def)
qed

section \<open>The index interface\<close>

text \<open>
  What the indexes of the name node rely on: a table is a map from keys to objects, under
  the condition \<open>exact\<close> on the sought key for the lookup.
\<close>

locale key_index =
  fixes rep :: "'s \<Rightarrow> ('k \<rightharpoonup> 'p) \<Rightarrow> bool"
    and exact :: "'s \<Rightarrow> 'k \<Rightarrow> 'k set \<Rightarrow> bool"
    and lookup :: "'s \<Rightarrow> 'k \<Rightarrow> 'p option option"
    and ins :: "'p \<Rightarrow> 'k \<Rightarrow> 's \<Rightarrow> 's option"
    and del :: "'p \<Rightarrow> 's \<Rightarrow> 's option"
  assumes lookup_rep: "rep s m \<Longrightarrow> exact s k (dom m) \<Longrightarrow> lookup s k = Some (m k)"
    and ins_rep: "rep s m \<Longrightarrow> p \<notin> ran m \<Longrightarrow> m k = None \<Longrightarrow>
          \<exists>s'. ins p k s = Some s' \<and> rep s' (m(k \<mapsto> p)) \<and> exact s' = exact s"
    and del_rep: "rep s m \<Longrightarrow> m k = Some p \<Longrightarrow>
          \<exists>s'. del p s = Some s' \<and> rep s' (m(k := None)) \<and> exact s' = exact s"
    and rep_inj: "rep s m \<Longrightarrow> m k = Some p \<Longrightarrow> m k' = Some p \<Longrightarrow> k = k'"
    and exact_mono: "exact s k K \<Longrightarrow> K' \<subseteq> K \<Longrightarrow> exact s k K'"
begin

lemma lookup_ins:
  assumes "rep s m" "p \<notin> ran m" "m k = None" "exact s k' (insert k (dom m))"
  shows "\<exists>s'. ins p k s = Some s' \<and> rep s' (m(k \<mapsto> p)) \<and> exact s' = exact s \<and>
    lookup s' k' = Some (if k' = k then Some p else m k')"
proof -
  from ins_rep[OF assms(1-3)] obtain s' where
    s': "ins p k s = Some s'" "rep s' (m(k \<mapsto> p))" "exact s' = exact s" by blast
  with lookup_rep[OF s'(2), of k'] assms(4) show ?thesis by auto
qed

lemma lookup_del:
  assumes "rep s m" "m k = Some p" "exact s k' (dom m)"
  shows "\<exists>s'. del p s = Some s' \<and> rep s' (m(k := None)) \<and> exact s' = exact s \<and>
    lookup s' k' = Some (if k' = k then None else m k')"
proof -
  from del_rep[OF assms(1,2)] obtain s' where
    s': "del p s = Some s'" "rep s' (m(k := None))" "exact s' = exact s" by blast
  moreover from assms(3) have "exact s' k' (dom (m(k := None)))"
    unfolding s'(3) by (rule exact_mono) auto
  ultimately show ?thesis using lookup_rep[OF s'(2), of k'] by auto
qed

lemma ins_del:
  assumes "rep s m" "p \<notin> ran m" "m k = None"
  shows "\<exists>s' s''. ins p k s = Some s' \<and> del p s' = Some s'' \<and> rep s'' m"
proof -
  from ins_rep[OF assms] obtain s' where s': "ins p k s = Some s'" "rep s' (m(k \<mapsto> p))" by blast
  with del_rep[OF s'(2), of k p] assms(3) show ?thesis by (auto simp: fun_upd_idem)
qed

end

definition ht_lookup :: "('k \<Rightarrow> nat) \<Rightarrow> ('p, 'k) hashtable \<Rightarrow> 'k \<Rightarrow> 'p option option" where
  "ht_lookup klen ht k = dfs_hashtable_lookup ht k (klen k)"

definition ht_insert :: "('k \<Rightarrow> nat) \<Rightarrow> 'p \<Rightarrow> 'k \<Rightarrow> ('p, 'k) hashtable \<Rightarrow> ('p, 'k) hashtable option" where
  "ht_insert klen p k ht = dfs_hashtable_join p (link_make p k (klen k) ht)"

definition ht_remove :: "'p \<Rightarrow> ('p, 'k) hashtable \<Rightarrow> ('p, 'k) hashtable option" where
  "ht_remove p ht = map_option snd (dfs_hashtable_remove_link p ht)"

interpretation hi: key_index "ht_rep klen" "no_clash klen" "ht_lookup klen" "ht_insert klen" ht_remove
  for klen :: "'k \<Rightarrow> nat"
proof unfold_locales
  fix ht :: "('p, 'k) hashtable" and m :: "'k \<rightharpoonup> 'p" and k k' :: 'k and p :: 'p and K K' :: "'k set"
  show "ht_rep klen ht m \<Longrightarrow> no_clash klen ht k (dom m) \<Longrightarrow> ht_lookup klen ht k = Some (m k)"
    by (simp add: ht_lookup_def lookup_exact)
  show "ht_rep klen ht m \<Longrightarrow> p \<notin> ran m \<Longrightarrow> m k = None \<Longrightarrow>
      \<exists>ht'. ht_insert klen p k ht = Some ht' \<and> ht_rep klen ht' (m(k \<mapsto> p)) \<and> no_clash klen ht' = no_clash klen ht"
    using join_new_rep[of klen ht m p k] by (auto simp: ht_insert_def ht_same_no_clash fun_eq_iff)
  show "ht_rep klen ht m \<Longrightarrow> m k = Some p \<Longrightarrow>
      \<exists>ht'. ht_remove p ht = Some ht' \<and> ht_rep klen ht' (m(k := None)) \<and> no_clash klen ht' = no_clash klen ht"
    using remove_rep[of klen ht m k p] by (auto simp: ht_remove_def ht_same_no_clash fun_eq_iff)
  show "ht_rep klen ht m \<Longrightarrow> m k = Some p \<Longrightarrow> m k' = Some p \<Longrightarrow> k = k'"
    by (rule ht_rep_inj)
  show "no_clash klen ht k K \<Longrightarrow> K' \<subseteq> K \<Longrightarrow> no_clash klen ht k K'"
    by (auto simp: no_clash_def)
qed

section \<open>Keys compared with strncmp\<close>

lemma strncmp_no_clash:
  assumes "ht_cmp ht = string_strncmp" "cstring k" "\<forall>k' \<in> K. cstring k'"
  shows "no_clash length ht k K \<longleftrightarrow>
    (\<forall>k' \<in> K. k' \<noteq> k \<longrightarrow> bkt length ht k' = bkt length ht k \<longrightarrow> \<not> prefix k k')"
  using assms by (auto simp: no_clash_def strncmp_prefix)

lemma lookup_loop_hit:
  assumes "chain (ln_next ht) w (p # ps)" "ln_key ht p = Some k'" "ht_cmp ht k k' len = 0"
  shows "lookup_loop ht k len w = Some (Some p)"
  using assms by (subst lookup_loop.simps) simp

section \<open>The hash functions\<close>

lemma hash_low_range: "0 < sz \<Longrightarrow> dfs_hashtable_hash_low k n sz < sz"
  by (simp add: dfs_hashtable_hash_low_def)

lemma hash_low_loop_case:
  "cstring k \<Longrightarrow> length k \<le> j \<Longrightarrow>
     hash_low_loop n k j = foldl (\<lambda>n c. n * 31 + ucast (string_xxctolower c)) n k"
proof (induction n k j rule: hash_low_loop.induct)
  case (3 n c s j)
  then show ?case by simp
qed simp_all

text \<open>Keys that differ only in case share their bucket.\<close>

lemma hash_low_case_insensitive:
  assumes "cstring k" "cstring k'" "map string_xxctolower k = map string_xxctolower k'"
  shows "dfs_hashtable_hash_low k (length k) sz = dfs_hashtable_hash_low k' (length k') sz"
proof -
  have "foldl (\<lambda>n c. n * 31 + ucast (string_xxctolower c)) 0 k =
        foldl (\<lambda>n c. n * 31 + ucast c) (0 :: u64) (map string_xxctolower k)" for k
    by (simp add: foldl_map)
  with assms show ?thesis by (simp add: dfs_hashtable_hash_low_def hash_low_loop_case)
qed

lemma load_le_bits: "bit (load_le bs) n \<Longrightarrow> n < 8 * length bs"
proof (induction bs arbitrary: n)
  case (Cons b bs)
  show ?case
  proof (cases "n < 8")
    case False
    then have "\<not> bit b n" using bit_imp_le_length[of b n] by auto
    with Cons.prems have "bit (load_le bs) (n - 8)" by (auto simp: bit_simps)
    with Cons.IH[of "n - 8"] False show ?thesis by simp
  qed simp
qed simp

lemma load_le_append_zeros: "load_le (bs @ replicate n 0) = load_le bs"
proof (induction bs)
  case Nil
  then show ?case by (induction n) simp_all
qed simp

lemma load_le_drop_tail: "drop_bit (8 * length bs) (load_le (bs @ replicate n 0)) = 0"
  using load_le_bits[of bs] by (intro bit_eqI) (auto simp: load_le_append_zeros bit_simps)

lemma key8_loop_body:
  "length body = 8 * q \<Longrightarrow> key8_loop (q + Suc r) bnum n (body @ s) =
     key8_loop (Suc r) bnum (foldl (\<lambda>n i. xor n (271 * load_le (take 8 (drop (8 * i) body)))) n [0..<q]) s"
proof (induction q arbitrary: n body)
  case (Suc q)
  define b where "b = drop 8 body"
  have b: "body = take 8 body @ b" "length b = 8 * q" "length (take 8 body) = 8"
    using Suc.prems by (auto simp: b_def)
  have idx: "take 8 (drop (8 * Suc i) body) = take 8 (drop (8 * i) b)" for i
    by (simp add: b_def add.commute)
  have "key8_loop (Suc q + Suc r) bnum n (body @ s) =
        key8_loop (q + Suc r) bnum (xor n (271 * load_le (take 8 body))) (b @ s)"
    using Suc.prems by (simp add: b_def)
  also have "\<dots> = key8_loop (Suc r) bnum
      (foldl (\<lambda>n i. xor n (271 * load_le (take 8 (drop (8 * i) b)))) (xor n (271 * load_le (take 8 body))) [0..<q]) s"
    by (rule Suc.IH) (rule b(2))
  also have "foldl (\<lambda>n i. xor n (271 * load_le (take 8 (drop (8 * i) b)))) (xor n (271 * load_le (take 8 body))) [0..<q] =
      foldl (\<lambda>n i. xor n (271 * load_le (take 8 (drop (8 * i) body)))) n [0..<Suc q]"
    by (simp add: upt_conv_Cons map_Suc_upt[symmetric] foldl_map idx del: upt_Suc mult_Suc_right)
  finally show ?case .
qed simp

text \<open>
  C20. The 8-byte hash of a key that is padded with zeros does not depend on its last bytes:
  for a key whose length is not a multiple of 8, the load of the last word keeps the bytes
  after the key and shifts the bytes of the key out.
\<close>

theorem hash_key8_drops_tail:
  assumes "length body = 8 * q" "length tail = length tail'" "0 < length tail" "length tail < 8"
  shows "dfs_hashtable_hash_key8 (body @ tail @ replicate (8 - length tail) 0 @ rest) (length body + length tail) sz =
         dfs_hashtable_hash_key8 (body @ tail' @ replicate (8 - length tail) 0 @ rest) (length body + length tail) sz"
proof -
  have last: "key8_loop (Suc 0) (length t) n (t @ replicate (8 - length t) 0 @ rest) = Some n"
    if "0 < length t" "length t < 8" for t n
    using that load_le_drop_tail[of t "8 - length t"] by (simp add: mult.commute)
  have "key8_loop (q + Suc 0) (length t) 0 (body @ t @ replicate (8 - length t) 0 @ rest) =
      Some (foldl (\<lambda>n i. xor n (271 * load_le (take 8 (drop (8 * i) body)))) 0 [0..<q])"
    if "0 < length t" "length t < 8" for t
    unfolding key8_loop_body[OF assms(1)] by (rule last[OF that])
  from this[of tail] this[of tail'] assms show ?thesis
    by (simp add: dfs_hashtable_hash_key8_def Let_def del: key8_loop.simps)
qed

theorem hash_key8_drops_tail_witness:
  "dfs_hashtable_hash_key8 (str ''10.0.0.1:8000'' @ replicate 3 0) (length (str ''10.0.0.1:8000'')) 5147 =
   dfs_hashtable_hash_key8 (str ''10.0.0.1:9999'' @ replicate 3 0) (length (str ''10.0.0.1:9999'')) 5147"
  using hash_key8_drops_tail[of "str ''10.0.0.1''" 1 "str '':8000''" "str '':9999''" "[]" 5147]
  by (simp add: str_def)

section \<open>A table is a map\<close>


text \<open>An empty table of seven buckets with string keys, as the indexes of the name node use it.\<close>

definition table7 :: "(nat, bytes) hashtable" where
  "table7 = \<lparr>ht_buckets = (\<lambda>_. None), ht_cmp = string_strncmp, ht_hash = dfs_hashtable_hash_low,
     ht_size = 7, ht_count = 0, ln_key = (\<lambda>_. None), ln_len = (\<lambda>_. 0), ln_next = (\<lambda>_. None)\<rparr>"

lemma table7_rep: "ht_rep length table7 Map.empty"
  by (rule ht_rep_empty) (simp_all add: table7_def)


end
