(* ===== verification/Dfs_Event_Timer.thy ===== *)
theory Dfs_Event_Timer
  imports Dfs_Prelude
begin

text \<open>
  Arming and disarming of timer events (\<open>src/src/core/dfs_event_timer.c\<close>). The red-black tree
  of a thread holds the events that are armed; it is represented by the flag \<open>timer_set\<close> and
  the key of each event. \<open>rb_msec_t\<close> is a signed 64-bit number of milliseconds. \<open>abs\<close> takes an
  \<open>int\<close>, so the difference that decides whether an armed event is left alone is first cut to
  32 bits.
\<close>

record event =
  timer_set :: bool
  timer_key :: int
  timedout :: bool

definition event0 :: event where
  "event0 = \<lparr>timer_set = False, timer_key = 0, timedout = False\<rparr>"

definition EVENT_TIMER_LAZY_DELAY :: int where [dfs_code]: "EVENT_TIMER_LAZY_DELAY = 300"

definition c_abs :: "int \<Rightarrow> int" where
  "c_abs d = \<bar>sint (word_of_int d :: u32)\<bar>"

text \<open>Deleting a node from the tree also clears its key.\<close>

definition event_timer_del :: "event \<Rightarrow> event" where
  "event_timer_del ev = (if \<not> timer_set ev then ev else ev\<lparr>timer_key := 0, timer_set := False\<rparr>)"

definition event_timer_add :: "int \<Rightarrow> int \<Rightarrow> event \<Rightarrow> event" where
  "event_timer_add now timer ev =
     (let key = now + timer in
      if timer_set ev \<and> c_abs (key - timer_key ev) < EVENT_TIMER_LAZY_DELAY then ev
      else (let ev = (if timer_set ev then event_timer_del ev else ev)
            in ev\<lparr>timer_key := key, timer_set := True\<rparr>))"

text \<open>One step of the loop of \<open>event_timers_expire\<close> for the event with the least key.\<close>

definition event_expires :: "int \<Rightarrow> event \<Rightarrow> bool" where
  "event_expires now ev \<longleftrightarrow> timer_set ev \<and> timer_key ev \<le> now"

definition event_fire :: "event \<Rightarrow> event" where
  "event_fire ev = ev\<lparr>timer_key := 0, timer_set := False, timedout := True\<rparr>"

lemma event_timer_add_set [simp]: "timer_set (event_timer_add now timer ev)"
  by (simp add: event_timer_add_def Let_def)

lemma c_abs_small: "\<bar>d\<bar> < 2 ^ 31 \<Longrightarrow> c_abs d = \<bar>d\<bar>"
  by (simp add: c_abs_def sint_sbintrunc' signed_take_bit_int_eq_self abs_less_iff)

text \<open>
  An armed event keeps its key only when the new one is less than the delay away, as long as
  both lie within 24 days of each other; otherwise it expires exactly at the new time.
\<close>

lemma event_timer_add_key:
  assumes "timer_set ev \<Longrightarrow> \<bar>now + timer - timer_key ev\<bar> < 2 ^ 31"
  shows "\<bar>timer_key (event_timer_add now timer ev) - (now + timer)\<bar> < EVENT_TIMER_LAZY_DELAY"
proof (cases "timer_set ev")
  case True
  with assms have "c_abs (now + timer - timer_key ev) = \<bar>now + timer - timer_key ev\<bar>"
    by (simp add: c_abs_small)
  then show ?thesis by (auto simp: event_timer_add_def Let_def dfs_code event_timer_del_def)
next
  case False
  then show ?thesis by (simp add: event_timer_add_def Let_def dfs_code)
qed

lemma event_timer_no_early_expiry:
  assumes "timer_set ev \<Longrightarrow> \<bar>now + timer - timer_key ev\<bar> < 2 ^ 31"
    and "event_expires t (event_timer_add now timer ev)"
  shows "now + timer - EVENT_TIMER_LAZY_DELAY < t"
  using event_timer_add_key[OF assms(1)] assms(2) by (auto simp: event_expires_def)

end
