(* ===== verification/Nn_State.thy ===== *)
theory Nn_State
  imports Dfs_Queue_Family Dfs_Mblks Dfs_Hashtable Dfs_Event_Timer
begin

text \<open>
  The data of the name node: the commands and return codes of
  \<open>src/src/common/dfs_task_cmd.h\<close>, the inode, block and data node records of
  \<open>nn_file_index.h\<close>, \<open>nn_blk_index.h\<close>, \<open>nn_dn_index.h\<close>, and the state of the three indexes.

  A record lives in a block pool and is named by its block number. The queue links that are
  embedded in the records are nodes of a pointer store (\<open>fi_node\<close>, \<open>bd_node\<close>): \<open>Me p\<close> stands
  for \<open>&p->me\<close>. The hash links are the links of the table, under the same number. Reading or
  writing a record through a pointer is only defined while the record is allocated.
\<close>

section \<open>Commands and return codes\<close>

definition NN_MKDIR :: int where [dfs_code]: "NN_MKDIR = 1"
definition NN_RMR :: int where [dfs_code]: "NN_RMR = 2"
definition NN_LS :: int where [dfs_code]: "NN_LS = 3"
definition NN_GET_FILE_INFO :: int where [dfs_code]: "NN_GET_FILE_INFO = 4"
definition NN_CREATE :: int where [dfs_code]: "NN_CREATE = 5"
definition NN_GET_ADDITIONAL_BLK :: int where [dfs_code]: "NN_GET_ADDITIONAL_BLK = 6"
definition NN_CLOSE :: int where [dfs_code]: "NN_CLOSE = 7"
definition NN_RM :: int where [dfs_code]: "NN_RM = 8"
definition NN_OPEN :: int where [dfs_code]: "NN_OPEN = 9"
definition DN_REGISTER :: int where [dfs_code]: "DN_REGISTER = 10"
definition DN_HEARTBEAT :: int where [dfs_code]: "DN_HEARTBEAT = 11"
definition DN_RECV_BLK_REPORT :: int where [dfs_code]: "DN_RECV_BLK_REPORT = 12"
definition DN_DEL_BLK_REPORT :: int where [dfs_code]: "DN_DEL_BLK_REPORT = 13"
definition DN_BLK_REPORT :: int where [dfs_code]: "DN_BLK_REPORT = 14"

definition SUCC :: int where [dfs_code]: "SUCC = 0"
definition FAIL :: int where [dfs_code]: "FAIL = -10"
definition MASTER_REDIRECT :: int where [dfs_code]: "MASTER_REDIRECT = 10"

definition PERMISSION_DENY :: int where [dfs_code]: "PERMISSION_DENY = -1"
definition FSOBJECT_EXCEED :: int where [dfs_code]: "FSOBJECT_EXCEED = -2"
definition NOT_DIRECTORY :: int where [dfs_code]: "NOT_DIRECTORY = -20"
definition NOT_FILE :: int where [dfs_code]: "NOT_FILE = -21"
definition IN_SAFE_MODE :: int where [dfs_code]: "IN_SAFE_MODE = -4"
definition NOT_DATANODE :: int where [dfs_code]: "NOT_DATANODE = -3"

definition KEY_STATE_OK :: int where [dfs_code]: "KEY_STATE_OK = 0"
definition KEY_EXIST :: int where [dfs_code]: "KEY_EXIST = -17"
definition KEY_NOTEXIST :: int where [dfs_code]: "KEY_NOTEXIST = -2"
definition KEY_STATE_CREATING :: int where [dfs_code]: "KEY_STATE_CREATING = -1"

section \<open>Sizes\<close>

definition KEY_LEN :: nat where [dfs_code]: "KEY_LEN = 256"
definition PATH_LEN :: nat where [dfs_code]: "PATH_LEN = 256"
definition OWNER_LEN :: nat where [dfs_code]: "OWNER_LEN = 16"
definition GROUP_LEN :: nat where [dfs_code]: "GROUP_LEN = 16"
definition BLK_LIMIT :: nat where [dfs_code]: "BLK_LIMIT = 64"
definition ID_LEN :: nat where [dfs_code]: "ID_LEN = 32"

text \<open>\<open>strcpy\<close> into an array of \<open>n\<close> bytes.\<close>

definition c_strcpy :: "nat \<Rightarrow> bytes \<Rightarrow> bytes option" where
  "c_strcpy n s = (if length s < n then Some s else None)"

section \<open>Records\<close>

record fi_inode =
  i_key :: bytes
  i_uid :: u64
  i_permission :: int
  i_owner :: bytes
  i_group :: bytes
  i_mtime :: u64
  i_atime :: u64
  i_is_directory :: bool
  i_length :: u64
  i_blk_size :: u64
  i_blk_replication :: int
  i_blks :: "u64 list"

definition fi_inode0 :: fi_inode where
  "fi_inode0 = \<lparr>i_key = [], i_uid = 0, i_permission = 0, i_owner = [], i_group = [], i_mtime = 0,
     i_atime = 0, i_is_directory = False, i_length = 0, i_blk_size = 0, i_blk_replication = 0,
     i_blks = replicate 64 0\<rparr>"

text \<open>The thread of a file being created is named by a number.\<close>

record fi_store =
  fs_children_num :: u64
  fs_fin :: fi_inode
  fs_state :: int
  fs_thread :: "nat option"
  fs_timer_ev :: event

definition fi_store0 :: fi_store where
  "fi_store0 = \<lparr>fs_children_num = 0, fs_fin = fi_inode0, fs_state = 0, fs_thread = None, fs_timer_ev = event0\<rparr>"

record blk_store =
  b_id :: u64
  b_size :: u64
  b_dn_ip :: bytes

definition blk_store0 :: blk_store where
  "blk_store0 = \<lparr>b_id = 0, b_size = 0, b_dn_ip = []\<rparr>"

record dn_store =
  dn_del_blk_num :: u64
  dn_id :: bytes

definition dn_store0 :: dn_store where
  "dn_store0 = \<lparr>dn_del_blk_num = 0, dn_id = []\<rparr>"

record dn_timer =
  dt_ev :: event
  dt_dns :: nat

section \<open>The three indexes\<close>

datatype fi_node = Ckp nat | Me nat | Children nat | CheckpointQ | StackQ

record fi_index =
  fi_pool :: "fi_store mem_mblks"
  fi_links :: "fi_node qheap"
  fi_htable :: "(nat, bytes) hashtable"
  fs_object_num :: u64

text \<open>
  The block and the data node index share their queues: the blocks of a data node are on the
  queue \<open>DnBlk\<close> of its record, the deletions it has to be told on \<open>DnDel\<close>. Timers and pending
  deletions are allocated with \<open>malloc\<close>: they are named by a counter.
\<close>

datatype bd_node = BlkFiMe nat | BlkDnMe nat | DnMe nat | DnBlk nat | DnDel nat | DelMe nat | DnQ

record bd_index =
  bd_links :: "bd_node qheap"
  blk_pool :: "blk_store mem_mblks"
  blk_htable :: "(nat, u64) hashtable"
  dn_pool :: "dn_store mem_mblks"
  dn_htable :: "(nat, bytes) hashtable"
  dn_timer_htable :: "(nat, bytes) hashtable"
  dn_timers :: "nat \<rightharpoonup> dn_timer"
  del_blks :: "nat \<rightharpoonup> u64"
  bd_brk :: nat
  dn_timeout :: int
  g_dn_n :: int
  uid_sequence :: u32

record nn_state =
  nn_fi :: fi_index
  nn_bd :: bd_index

section \<open>Access through pointers\<close>

definition pool_at :: "nat \<Rightarrow> 'd mem_mblks \<Rightarrow> 'd option" where
  "pool_at p m = (if mb_next m p = MPool then Some (mb_data m p) else None)"

definition pool_upd :: "nat \<Rightarrow> ('d \<Rightarrow> 'd) \<Rightarrow> 'd mem_mblks \<Rightarrow> 'd mem_mblks option" where
  "pool_upd p f m =
     (if mb_next m p = MPool then Some (m\<lparr>mb_data := (mb_data m)(p := f (mb_data m p))\<rparr>) else None)"

lemma pool_at_used: "pool_state cap m used \<Longrightarrow> p \<in> used \<Longrightarrow> pool_at p m = Some (mb_data m p)"
  by (simp add: pool_at_def pool_state_def)

lemma pool_upd_used:
  "pool_state cap m used \<Longrightarrow> p \<in> used \<Longrightarrow>
     pool_upd p f m = Some (m\<lparr>mb_data := (mb_data m)(p := f (mb_data m p))\<rparr>)"
  by (simp add: pool_upd_def pool_state_def)

lemma pool_upd_state: "pool_upd p f m = Some m' \<Longrightarrow> pool_state cap m' used = pool_state cap m used"
  by (auto simp: pool_upd_def pool_state_data split: if_splits)

section \<open>Tasks\<close>

record create_resp_info =
  r_blk_id :: u64
  r_blk_sz :: u64
  r_namespace_id :: u64
  r_dn_num :: int
  r_dn_ips :: "bytes list"

definition resp0 :: create_resp_info where
  "resp0 = \<lparr>r_blk_id = 0, r_blk_sz = 0, r_namespace_id = 0, r_dn_num = 0, r_dn_ips = [[], [], []]\<rparr>"

text \<open>What the untyped data pointer of a task refers to.\<close>

datatype task_data =
  TNull
| TBlkInfo u64 int
| TReport u64 u64 bytes
| TLen u64
| TInodes "fi_inode list"
| TResp create_resp_info
| TNamespace u64
| TBlkIds "u64 list"

record task =
  t_cmd :: int
  t_ret :: int
  t_master_nodeid :: int
  t_key :: bytes
  t_user :: bytes
  t_group :: bytes
  t_permission :: int
  t_data :: task_data

end
