(* ===== verification/Fs_Permission.thy ===== *)
theory Fs_Permission
  imports Nn_State
begin

text \<open>
  Permissions (\<open>src/src/common/fs_permission.c\<close>). A permission is a \<open>short\<close> whose three decimal
  digits are the rights of the owner, of the group and of the others. A check asks for one right.
  Owner and group are compared on the length of the inode's string only, so an inode without
  owner matches every user.
\<close>

section \<open>The code\<close>

definition NONE :: int where [dfs_code]: "NONE = 0"
definition EXECUTE :: int where [dfs_code]: "EXECUTE = 1"
definition WRITE :: int where [dfs_code]: "WRITE = 2"
definition WRITE_EXECUTE :: int where [dfs_code]: "WRITE_EXECUTE = 3"
definition READ :: int where [dfs_code]: "READ = 4"
definition READ_EXECUTE :: int where [dfs_code]: "READ_EXECUTE = 5"
definition READ_WRITE :: int where [dfs_code]: "READ_WRITE = 6"
definition ALL_RIGHTS :: int where [dfs_code]: "ALL_RIGHTS = 7"

definition FsAction :: "bytes list" where
  "FsAction = map str [''---'', ''--x'', ''-w-'', ''-wx'', ''r--'', ''r-x'', ''rw-'', ''rwx'']"

text \<open>An entry of the table; an index outside of it is undefined behaviour.\<close>

definition fs_action :: "int \<Rightarrow> bytes option" where
  "fs_action i = (if 0 \<le> i \<and> i < 8 then Some (FsAction ! nat i) else None)"

text \<open>The digits; division of a negative \<open>short\<close> truncates towards zero.\<close>

definition perm_digits :: "int \<Rightarrow> int \<times> int \<times> int" where
  "perm_digits permission =
     (let o' = permission smod 10; c = permission sdiv 10; g = c smod 10; u = c sdiv 10 in (u, g, o'))"

text \<open>The result and the message that a denied check writes.\<close>

definition check_permission :: "task \<Rightarrow> fi_inode \<Rightarrow> int \<Rightarrow> (int \<times> bytes) option" where
  "check_permission task finode access =
     (let (u, g, o') = perm_digits (i_permission finode);
          right = (if string_strncmp (t_user task) (i_owner finode) (length (i_owner finode)) = 0 then u
                   else if string_strncmp (t_group task) (i_group finode) (length (i_group finode)) = 0 then g
                   else o')
      in if right = access then Some (DFS_OK, [])
         else do {
           a \<leftarrow> fs_action access;
           Some (DFS_ERROR, str ''Permission denied: user='' @ t_user task @ str '', access='' @ a) })"

definition is_super :: "bytes \<Rightarrow> bytes \<Rightarrow> bool" where
  "is_super user admin \<longleftrightarrow> string_strncmp user admin (length admin) = 0"

definition get_permission :: "int \<Rightarrow> bytes option" where
  "get_permission permission = do {
     let (u, g, o') = perm_digits permission;
     a \<leftarrow> fs_action u;
     b \<leftarrow> fs_action g;
     c \<leftarrow> fs_action o';
     Some (a @ b @ c) }"

section \<open>What a check decides\<close>

text \<open>The class of a user for an inode, as the comparison sees it.\<close>

definition user_right :: "task \<Rightarrow> fi_inode \<Rightarrow> int" where
  "user_right task finode =
     (let (u, g, o') = perm_digits (i_permission finode) in
      if prefix (i_owner finode) (t_user task) then u
      else if prefix (i_group finode) (t_group task) then g else o')"

definition cstrings :: "task \<Rightarrow> fi_inode \<Rightarrow> bool" where
  "cstrings task finode \<longleftrightarrow>
     cstring (t_user task) \<and> cstring (t_group task) \<and> cstring (i_owner finode) \<and> cstring (i_group finode)"

lemma check_permission_right:
  assumes "cstrings task finode" "0 \<le> access" "access < 8"
  shows "\<exists>e. check_permission task finode access = Some (if user_right task finode = access then DFS_OK else DFS_ERROR, e)"
  using assms
  by (auto simp: check_permission_def user_right_def cstrings_def strncmp_prefix_right fs_action_def Let_def
    split: prod.splits)

text \<open>One inode cannot grant two different rights to the same user.\<close>

lemma check_permission_exclusive:
  assumes "check_permission task finode a = Some (DFS_OK, e)" "check_permission task finode b = Some (DFS_OK, e')"
  shows "a = b"
  using assms by (auto simp: check_permission_def Let_def dfs_code split: prod.splits if_splits option.splits bind_splits)

lemma is_super_prefix: "cstring user \<Longrightarrow> cstring admin \<Longrightarrow> is_super user admin \<longleftrightarrow> prefix admin user"
  by (simp add: is_super_def strncmp_prefix_right)

lemma perm_digits_of:
  assumes "0 \<le> u" "0 \<le> g" "g < 10" "0 \<le> o'" "o' < 10"
  shows "perm_digits (100 * u + 10 * g + o') = (u, g, o')"
proof -
  have step: "(10 * a + b) div 10 = a" "(10 * a + b) mod 10 = b" if "0 \<le> b" "b < 10" for a b :: int
    using that by simp_all
  have "100 * u + 10 * g + o' = 10 * (10 * u + g) + o'" by simp
  then have "(100 * u + 10 * g + o') div 10 = 10 * u + g" "(100 * u + 10 * g + o') mod 10 = o'"
    "(10 * u + g) div 10 = u" "(10 * u + g) mod 10 = g"
    using step[of o' "10 * u + g"] step[of g u] assms by simp_all
  then show ?thesis
    using assms by (simp add: perm_digits_def Let_def signed_divide_int_def signed_modulo_int_def sgn_if)
qed



text \<open>
  C23. The text form of a permission of three digits below 8 is read back from its three groups of
  letters: it determines the permission.
\<close>

theorem get_permission_inject:
  assumes "u \<in> {0..7}" "g \<in> {0..7}" "o' \<in> {0..7}" "u' \<in> {0..7}" "g' \<in> {0..7}" "o'' \<in> {0..7}"
    and "get_permission (100 * u + 10 * g + o') = get_permission (100 * u' + 10 * g' + o'')"
  shows "u = u' \<and> g = g' \<and> o' = o''"
proof -
  have three: "length (FsAction ! nat i) = 3" if "i \<in> {0..7}" for i
  proof -
    have "FsAction ! nat i \<in> set FsAction" using that by (intro nth_mem) (auto simp: FsAction_def)
    moreover have "\<forall>a \<in> set FsAction. length a = 3" by (simp add: FsAction_def str_def)
    ultimately show ?thesis by blast
  qed
  have inj: "i = j" if "i \<in> {0..7}" "j \<in> {0..7}" "FsAction ! nat i = FsAction ! nat j" for i j
  proof -
    have "distinct FsAction" by (simp add: FsAction_def str_def)
    moreover have "length FsAction = 8" by (simp add: FsAction_def)
    moreover have "nat i < 8" "nat j < 8" using that by auto
    ultimately have "nat i = nat j" using that(3) nth_eq_iff_index_eq[of FsAction "nat i" "nat j"] by simp
    then show ?thesis using that by auto
  qed
  have "get_permission (100 * a + 10 * b + c) = Some (FsAction ! nat a @ FsAction ! nat b @ FsAction ! nat c)"
    if "a \<in> {0..7}" "b \<in> {0..7}" "c \<in> {0..7}" for a b c
    using that by (simp add: get_permission_def perm_digits_of fs_action_def)
  with assms have "FsAction ! nat u @ FsAction ! nat g @ FsAction ! nat o' =
      FsAction ! nat u' @ FsAction ! nat g' @ FsAction ! nat o''" by simp
  then show ?thesis using three inj assms(1-6) by (metis append_eq_append_conv)
qed

theorem get_permission_inject_witness:
  "get_permission 755 = Some (str ''rwxr-xr-x'') \<and> get_permission 755 \<noteq> get_permission 775"
proof -
  have "get_permission 755 = Some (str ''rwxr-xr-x'')"
    using perm_digits_of[of 7 5 5] by (simp add: get_permission_def fs_action_def FsAction_def str_def)
  moreover have "get_permission 755 \<noteq> get_permission 775"
    using get_permission_inject[of 7 5 5 7 7 5] by auto
  ultimately show ?thesis by simp
qed

end
