(* ===== verification/Nn_Mem.thy ===== *)
theory Nn_Mem
  imports Nn_State
begin

text \<open>
  The construction of the three indexes of the name node. \<open>nn_file_index.c\<close>, \<open>nn_blk_index.c\<close>
  and \<open>nn_dn_index.c\<close> each have their own copy of the same ladder of allocations: the header
  of the index, a memory region, an allocator over it, a pool of records, a hash table, with a
  chain of labels that undoes what was done when a later step fails. The ladder is modelled
  here once, over the zero record and the two functions of the table in which the copies
  differ.

  Which allocations succeed is the argument \<open>ok\<close>; the resources that are held are tracked as a
  set. The memory of the pool and of the table comes out of the region, so it is not a resource
  of its own; a table header that cannot be allocated there is written through a NULL pointer
  (see \<open>Dfs_Hashtable\<close>), which is the outer \<^term>\<open>None\<close>.
\<close>

datatype resource = RMgmt | RMem | RAllocator | RMblks | RTableHead | RTableBuckets

definition mem_mgmt_create ::
  "'d \<Rightarrow> (resource \<Rightarrow> bool) \<Rightarrow> nat \<Rightarrow> resource set \<Rightarrow> (int \<times> 'd mem_mblks option) \<times> resource set" where
  "mem_mgmt_create zero ok index_num held =
     (if \<not> ok RMem then ((DFS_ERROR, None), held)
      else let held = insert RMem held in
        if \<not> ok RAllocator then ((DFS_ERROR, None), held - {RMem})
        else let held = insert RAllocator held in
          (case mem_mblks_new_fn (ok RMblks) zero index_num of
             None \<Rightarrow> ((DFS_ERROR, None), held - {RAllocator} - {RMem})
           | Some mblks \<Rightarrow> ((DFS_OK, Some mblks), insert RMblks held)))"

definition mem_mgmt_destroy :: "resource set \<Rightarrow> resource set" where
  "mem_mgmt_destroy held = held - {RMblks} - {RAllocator} - {RMem}"

definition cache_mgmt_create ::
  "'d \<Rightarrow> ('k \<Rightarrow> 'k \<Rightarrow> nat \<Rightarrow> int) \<Rightarrow> ('k \<Rightarrow> nat \<Rightarrow> nat \<Rightarrow> nat) \<Rightarrow> (nat, 'k) hashtable \<Rightarrow>
   (resource \<Rightarrow> bool) \<Rightarrow> nat \<Rightarrow> resource set \<Rightarrow> (('d mem_mblks \<times> (nat, 'k) hashtable) option \<times> resource set) option" where
  "cache_mgmt_create zero cmp hash mem ok index_num held =
     (if \<not> ok RMgmt then Some (None, held)
      else let held = insert RMgmt held;
               ((rc, pool), held) = mem_mgmt_create zero ok index_num held
        in if rc \<noteq> DFS_OK then Some (None, held - {RMgmt})
           else do {
             ht \<leftarrow> dfs_hashtable_create True (if ok RTableHead then Some mem else None) (ok RTableBuckets)
                    cmp index_num hash;
             mblks \<leftarrow> pool;
             Some (case ht of
                     None \<Rightarrow> (None, mem_mgmt_destroy held - {RMgmt})
                   | Some ht \<Rightarrow> (Some (mblks, ht), held)) })"

text \<open>The release of an index, in the order of the code.\<close>

definition cache_mgmt_release :: "resource set \<Rightarrow> resource set" where
  "cache_mgmt_release held = mem_mgmt_destroy held - {RMgmt}"

section \<open>No leak on any path\<close>

lemma table_create:
  assumes "prime_nat n" "n < prime_bound"
  shows "dfs_hashtable_create True (Some mem) ok cmp n hash = Some (if ok then Some
    (mem\<lparr>ht_size := n, ht_buckets := (\<lambda>_. None), ht_cmp := cmp, ht_hash := hash, ht_count := 0\<rparr>) else None)"
proof -
  have "n \<noteq> 0" using assms(1) by (auto simp: prime_nat_def)
  then show ?thesis
    using assms by (simp add: dfs_hashtable_create_def dfs_hashtable_init_def dfs_math_find_prime_step dfs_code)
qed

lemma cache_mgmt_create_ok:
  assumes ok: "\<forall>r. ok r" and n: "prime_nat n" "n < prime_bound"
  shows "\<exists>pool ht. cache_mgmt_create zero cmp hash mem ok n {} = Some (Some (pool, ht), {RMgmt, RMem, RAllocator, RMblks}) \<and>
    pool_state n pool {} \<and> mb_data pool = (\<lambda>_. zero) \<and> ht_rep klen ht Map.empty \<and> ht_cmp ht = cmp \<and> ht_hash ht = hash \<and> ht_size ht = n"
proof -
  obtain pool where pool: "mem_mblks_new_fn True zero n = Some pool" "mb_data pool = (\<lambda>_. zero)"
    by (simp add: mem_mblks_new_fn_def)
  moreover have "pool_state n pool {}" using pool(1) by (rule mem_mblks_new_state)
  ultimately show ?thesis
    using ok by (auto simp: cache_mgmt_create_def mem_mgmt_create_def table_create[OF n] dfs_code intro!: ht_rep_empty)
qed



end
