(* ===== verification/Nn_Blk_Index.thy ===== *)
theory Nn_Blk_Index
  imports Nn_Mem
begin

text \<open>
  The block index of the name node (\<open>src/src/namenode/nn_blk_index.c\<close>): a hash table from
  block numbers to the record of the block, which names the data node that has it, and the
  generator of block numbers. Unlike the string tables, this one compares whole keys, so its
  lookups are exact without further conditions.
\<close>

section \<open>The code\<close>

definition uint64_cmp :: "u64 \<Rightarrow> u64 \<Rightarrow> nat \<Rightarrow> int" where
  "uint64_cmp s1 s2 sz = (if s1 = s2 then DFS_FALSE else DFS_TRUE)"

definition req_hash :: "u64 \<Rightarrow> nat \<Rightarrow> nat \<Rightarrow> nat" where
  "req_hash u data_size hashtable_size = unat u mod hashtable_size"

text \<open>
  The start of the index: the header memory of the table (\<open>mem\<close>) and the outcome of the
  allocations (\<open>ok\<close>) are arguments. The sequence of the block numbers is a static variable that is
  not reset.
\<close>

definition BLK_NUM_IN_DN :: nat where [dfs_code]: "BLK_NUM_IN_DN = 100000"

definition blk_mem_mgmt_create ::
  "(resource \<Rightarrow> bool) \<Rightarrow> nat \<Rightarrow> resource set \<Rightarrow> (int \<times> blk_store mem_mblks option) \<times> resource set" where
  "blk_mem_mgmt_create = mem_mgmt_create blk_store0"

definition blk_cache_mgmt_create ::
  "(nat, u64) hashtable \<Rightarrow> (resource \<Rightarrow> bool) \<Rightarrow> nat \<Rightarrow> resource set \<Rightarrow>
   ((blk_store mem_mblks \<times> (nat, u64) hashtable) option \<times> resource set) option" where
  "blk_cache_mgmt_create = cache_mgmt_create blk_store0 uint64_cmp req_hash"

definition blk_cache_mgmt_new_init ::
  "(nat, u64) hashtable \<Rightarrow> (resource \<Rightarrow> bool) \<Rightarrow>
   ((blk_store mem_mblks \<times> (nat, u64) hashtable) option \<times> resource set) option" where
  "blk_cache_mgmt_new_init mem ok = do {
     index_num \<leftarrow> dfs_math_find_prime BLK_NUM_IN_DN;
     blk_cache_mgmt_create mem ok index_num {} }"

definition nn_blk_index_worker_init ::
  "(nat, u64) hashtable \<Rightarrow> (resource \<Rightarrow> bool) \<Rightarrow> bd_index \<Rightarrow> (int \<times> bd_index) option" where
  "nn_blk_index_worker_init mem ok s = do {
     (r, _) \<leftarrow> blk_cache_mgmt_new_init mem ok;
     Some (case r of
             None \<Rightarrow> (DFS_ERROR, s)
           | Some (pool, ht) \<Rightarrow> (DFS_OK, s\<lparr>blk_pool := pool, blk_htable := ht\<rparr>)) }"

text \<open>The length of every key of this table: \<open>sizeof(long)\<close>.\<close>

definition blk_klen :: "u64 \<Rightarrow> nat" where
  "blk_klen k = 8"

definition get_blk_store_obj :: "u64 \<Rightarrow> bd_index \<Rightarrow> nat option option" where
  "get_blk_store_obj bid s = dfs_hashtable_lookup (blk_htable s) bid (blk_klen bid)"

text \<open>\<open>mem_get0\<close> zeroes the whole record, its queue links included.\<close>

definition blk_get0 :: "bd_index \<Rightarrow> (nat option \<times> bd_index) option" where
  "blk_get0 s = do {
     (r, pool) \<leftarrow> mem_get0 blk_store0 (blk_pool s);
     let s = s\<lparr>blk_pool := pool\<rparr>;
     Some (case r of
             None \<Rightarrow> (None, s)
           | Some p \<Rightarrow> (Some p, s\<lparr>bd_links := clear_links (BlkFiMe p) (clear_links (BlkDnMe p) (bd_links s))\<rparr>)) }"

definition add_block :: "u64 \<Rightarrow> u64 \<Rightarrow> bytes \<Rightarrow> bd_index \<Rightarrow> (nat option \<times> bd_index) option" where
  "add_block blk_id blk_sz dn_ip s = do {
     (r, s) \<leftarrow> blk_get0 s;
     case r of
       None \<Rightarrow> Some (None, s)
     | Some blk \<Rightarrow> do {
         let s = s\<lparr>bd_links := queue_init (BlkDnMe blk) (queue_init (BlkFiMe blk) (bd_links s))\<rparr>;
         ip \<leftarrow> c_strcpy 32 dn_ip;
         pool \<leftarrow> pool_upd blk (\<lambda>b. b\<lparr>b_id := blk_id, b_size := blk_sz, b_dn_ip := ip\<rparr>) (blk_pool s);
         ht \<leftarrow> dfs_hashtable_join blk (link_make blk blk_id (blk_klen blk_id) (blk_htable s));
         Some (Some blk, s\<lparr>blk_pool := pool, blk_htable := ht\<rparr>) } }"

text \<open>
  The two 32-bit halves of a block number: the seconds are the first, hence the low half on a
  little-endian machine. \<open>time\<close> is \<open>time_curtime()\<close>, in milliseconds.
\<close>

definition generate_uid :: "u64 \<Rightarrow> bd_index \<Rightarrow> u64 \<times> bd_index" where
  "generate_uid time s =
     (let sec = ucast (time div 1000) :: u32; seq = uid_sequence s
      in (or (ucast sec) (push_bit 32 (ucast seq)), s\<lparr>uid_sequence := seq + 1\<rparr>))"

section \<open>Lookups are exact\<close>

lemma uint64_no_clash [simp]: "ht_cmp ht = uint64_cmp \<Longrightarrow> no_clash blk_klen ht k K"
  by (auto simp: no_clash_def uint64_cmp_def dfs_code)

text \<open>
  \<open>blk_table\<close>: the table is the map \<open>bm\<close> from block numbers to records, every record in use is
  in it and carries its number.
\<close>

definition blk_table :: "nat \<Rightarrow> bd_index \<Rightarrow> (u64 \<rightharpoonup> nat) \<Rightarrow> bool" where
  "blk_table cap s bm \<longleftrightarrow>
     ht_rep blk_klen (blk_htable s) bm \<and> ht_cmp (blk_htable s) = uint64_cmp \<and>
     pool_state cap (blk_pool s) (ran bm) \<and>
     (\<forall>bid p. bm bid = Some p \<longrightarrow> b_id (mb_data (blk_pool s) p) = bid)"

lemma get_blk_table: "blk_table cap s bm \<Longrightarrow> get_blk_store_obj bid s = Some (bm bid)"
  by (simp add: blk_table_def get_blk_store_obj_def lookup_exact)

lemma blk_table_inj: "blk_table cap s bm \<Longrightarrow> bm a = Some p \<Longrightarrow> bm b = Some p \<Longrightarrow> a = b"
  unfolding blk_table_def by (metis ht_rep_inj)

lemma blk_table_cong:
  "blk_pool s' = blk_pool s \<Longrightarrow> blk_htable s' = blk_htable s \<Longrightarrow> blk_table cap s' bm = blk_table cap s bm"
  by (simp add: blk_table_def)

lemma blk_table_card: "blk_table cap s bm \<Longrightarrow> card (ran bm) = card (dom bm)"
  unfolding blk_table_def by (metis ht_rep_card_ran)

lemma add_block_ok:
  assumes rep: "blk_table cap s bm" and new: "bm bid = None" and room: "card (dom bm) < cap"
    and ip: "length ip < 32"
  shows "\<exists>p m ht. add_block bid sz ip s = Some (Some p, s\<lparr>bd_links := queue_init (BlkDnMe p) (queue_init (BlkFiMe p)
      (clear_links (BlkFiMe p) (clear_links (BlkDnMe p) (bd_links s)))), blk_pool := m, blk_htable := ht\<rparr>) \<and>
    p \<notin> ran bm \<and> mb_data m = (mb_data (blk_pool s))(p := \<lparr>b_id = bid, b_size = sz, b_dn_ip = ip\<rparr>) \<and>
    (\<forall>l. blk_table cap (s\<lparr>bd_links := l, blk_pool := m, blk_htable := ht\<rparr>) (bm(bid \<mapsto> p)))"
proof -
  from rep have ht: "ht_rep blk_klen (blk_htable s) bm" and pool: "pool_state cap (blk_pool s) (ran bm)"
    by (auto simp: blk_table_def)
  from room have "card (ran bm) < cap" by (simp add: blk_table_card[OF rep])
  with mem_get0_ok[OF pool, of blk_store0] obtain p m where
    p: "mem_get0 blk_store0 (blk_pool s) = Some (Some p, m)" "p \<notin> ran bm"
      "mb_data m = (mb_data (blk_pool s))(p := blk_store0)" "pool_state cap m (insert p (ran bm))"
    by blast
  from join_new_rep[OF ht p(2) new] obtain ht' where
    ht': "dfs_hashtable_join p (link_make p bid (blk_klen bid) (blk_htable s)) = Some ht'"
      "ht_rep blk_klen ht' (bm(bid \<mapsto> p))" "ht_same (blk_htable s) ht'" by blast
  let ?f = "\<lambda>b. b\<lparr>b_id := bid, b_size := sz, b_dn_ip := ip\<rparr>"
  let ?m = "m\<lparr>mb_data := (mb_data m)(p := ?f (mb_data m p))\<rparr>"
  have upd: "pool_upd p ?f m = Some ?m" by (rule pool_upd_used[OF p(4)]) simp
  have dat: "mb_data ?m = (mb_data (blk_pool s))(p := \<lparr>b_id = bid, b_size = sz, b_dn_ip = ip\<rparr>)"
    by (simp add: p(3) blk_store0_def)
  have ran': "ran (bm(bid \<mapsto> p)) = insert p (ran bm)" using new by simp
  have "b_id (mb_data ?m q) = i" if "(bm(bid \<mapsto> p)) i = Some q" for i q
    using that rep p(2) unfolding dat by (auto simp: blk_table_def ran_def split: if_splits)
  then have "blk_table cap (s\<lparr>bd_links := l, blk_pool := ?m, blk_htable := ht'\<rparr>) (bm(bid \<mapsto> p))" for l
    using rep ht'(2,3) p(4) by (simp add: blk_table_def ran' ht_same_def pool_state_data)
  with dat p(2) show ?thesis
    by (intro exI[of _ p] exI[of _ ?m] exI[of _ ht'])
      (simp add: add_block_def blk_get0_def c_strcpy_def ip p(1) upd ht'(1))
qed

lemma add_block_full:
  assumes rep: "blk_table cap s bm" and full: "card (dom bm) = cap"
  shows "add_block bid sz ip s = Some (None, s)"
proof -
  from rep have "pool_state cap (blk_pool s) (ran bm)" by (simp add: blk_table_def)
  with full mem_get0_full[of cap "blk_pool s" "ran bm" blk_store0] blk_table_card[OF rep] show ?thesis
    by (simp add: add_block_def blk_get0_def)
qed

lemma blk_init_ok:
  assumes "\<forall>r. ok r"
  obtains cap pool ht where "BLK_NUM_IN_DN \<le> cap"
    "nn_blk_index_worker_init mem ok s = Some (DFS_OK, s\<lparr>blk_pool := pool, blk_htable := ht\<rparr>)"
    "blk_table cap (s\<lparr>blk_pool := pool, blk_htable := ht\<rparr>) Map.empty"
proof -
  have "BLK_NUM_IN_DN \<le> 100003" "(100003 :: nat) < prime_bound" by (simp_all add: dfs_code prime_bound_def)
  from find_prime_known[OF prime_100003 this] obtain cap where
    cap: "dfs_math_find_prime BLK_NUM_IN_DN = Some cap" "prime_nat cap" "BLK_NUM_IN_DN \<le> cap" "cap < prime_bound" .
  from cache_mgmt_create_ok[OF assms cap(2,4), of blk_store0 uint64_cmp req_hash mem blk_klen] obtain pool ht where
    "blk_cache_mgmt_create mem ok cap {} = Some (Some (pool, ht), {RMgmt, RMem, RAllocator, RMblks})"
    "pool_state cap pool {}" "ht_rep blk_klen ht Map.empty" "ht_cmp ht = uint64_cmp"
    unfolding blk_cache_mgmt_create_def by blast
  with cap show ?thesis
    by (intro that[of cap ht pool])
      (simp_all add: nn_blk_index_worker_init_def blk_cache_mgmt_new_init_def blk_table_def)
qed

section \<open>Block numbers\<close>

lemma uid_halves: "ucast (or (ucast sec) (push_bit 32 (ucast seq)) :: u64) = (sec :: u32)"
  "ucast (drop_bit 32 (or (ucast sec) (push_bit 32 (ucast (seq :: u32))) :: u64)) = seq"
  by (rule bit_word_eqI; auto simp: bit_simps dest: bit_imp_le_length)+

text \<open>
  C14. A block number determines the second and the sequence number it was made of, so the
  numbers generated in a run of the name node differ until the 32-bit sequence wraps around
  within one second.
\<close>

theorem generate_uid_inject:
  "fst (generate_uid t s) = fst (generate_uid t' s') \<longleftrightarrow>
     (ucast (t div 1000) :: u32) = ucast (t' div 1000) \<and> uid_sequence s = uid_sequence s'"
  by (auto simp: generate_uid_def Let_def) (metis uid_halves)+

end
