(* ===== verification/Nn_Dn_Index.thy ===== *)
theory Nn_Dn_Index
  imports Nn_Blk_Index
begin

text \<open>
  The data node index of the name node (\<open>src/src/namenode/nn_dn_index.c\<close>) and the deletion of
  a block (\<open>block_object_del\<close> of \<open>nn_blk_index.c\<close>), which tells the data node that has it. Every
  registered data node has a record with three queues, a place on the queue of all data
  nodes, and a timer that declares it dead. The handlers return the answered task; \<open>now\<close> is the
  clock of the timers. A pointer that is NULL, and a record that is not allocated, make a
  handler \<^term>\<open>None\<close>; \<open>malloc\<close> is taken to succeed.
\<close>

section \<open>The code\<close>

definition DELETING_BLK_FOR_ONCE :: nat where [dfs_code]: "DELETING_BLK_FOR_ONCE = 5"

definition dn_hash_keycmp :: "bytes \<Rightarrow> bytes \<Rightarrow> nat \<Rightarrow> int" where
  "dn_hash_keycmp arg1 arg2 sz = string_strncmp arg1 arg2 sz"

text \<open>
  The hash of the timer table reads whole words from the identifier, which is an array of
  32 bytes filled up with zeros.
\<close>

definition dn_timer_hash :: "bytes \<Rightarrow> nat \<Rightarrow> nat \<Rightarrow> nat" where
  "dn_timer_hash dn len sz =
     the (dfs_hashtable_hash_key8 (dn @ replicate (ID_LEN - length dn) 0) len sz)"

definition DN_NUM_IN_CLUSTER :: nat where [dfs_code]: "DN_NUM_IN_CLUSTER = 5120"

definition dn_mem_mgmt_create ::
  "(resource \<Rightarrow> bool) \<Rightarrow> nat \<Rightarrow> resource set \<Rightarrow> (int \<times> dn_store mem_mblks option) \<times> resource set" where
  "dn_mem_mgmt_create = mem_mgmt_create dn_store0"

definition dn_cache_mgmt_create ::
  "(nat, bytes) hashtable \<Rightarrow> (resource \<Rightarrow> bool) \<Rightarrow> nat \<Rightarrow> resource set \<Rightarrow>
   ((dn_store mem_mblks \<times> (nat, bytes) hashtable) option \<times> resource set) option" where
  "dn_cache_mgmt_create = cache_mgmt_create dn_store0 dn_hash_keycmp dfs_hashtable_hash_low"

definition dn_cache_mgmt_new_init ::
  "(nat, bytes) hashtable \<Rightarrow> (resource \<Rightarrow> bool) \<Rightarrow>
   ((dn_store mem_mblks \<times> (nat, bytes) hashtable) option \<times> resource set) option" where
  "dn_cache_mgmt_new_init mem ok = do {
     index_num \<leftarrow> dfs_math_find_prime DN_NUM_IN_CLUSTER;
     dn_cache_mgmt_create mem ok index_num {} }"

text \<open>\<open>tok\<close> are the outcomes of the allocations of the timer table, \<open>tmo\<close> the configured seconds.\<close>

definition dn_cache_mgmt_timer_new ::
  "(nat, bytes) hashtable \<Rightarrow> bool \<times> bool \<Rightarrow> int \<Rightarrow> bd_index \<Rightarrow> (int \<times> bd_index) option" where
  "dn_cache_mgmt_timer_new mem tok tmo s = do {
     r \<leftarrow> dfs_hashtable_create False (if fst tok then Some mem else None) (snd tok)
            dn_hash_keycmp DN_NUM_IN_CLUSTER dn_timer_hash;
     Some (case r of
             None \<Rightarrow> (DFS_ERROR, s)
           | Some ht \<Rightarrow> (DFS_OK, s\<lparr>dn_timer_htable := ht, dn_timeout := tmo * 1000\<rparr>)) }"

definition nn_dn_index_worker_init ::
  "(nat, bytes) hashtable \<Rightarrow> (resource \<Rightarrow> bool) \<Rightarrow> bool \<times> bool \<Rightarrow> int \<Rightarrow> bd_index \<Rightarrow> (int \<times> bd_index) option" where
  "nn_dn_index_worker_init mem ok tok tmo s = do {
     (r, _) \<leftarrow> dn_cache_mgmt_new_init mem ok;
     case r of
       None \<Rightarrow> Some (DFS_ERROR, s)
     | Some (pool, ht) \<Rightarrow> do {
         (rc, s) \<leftarrow> dn_cache_mgmt_timer_new mem tok tmo (s\<lparr>dn_pool := pool, dn_htable := ht\<rparr>);
         Some (if rc \<noteq> DFS_OK then (DFS_ERROR, s)
               else (DFS_OK, s\<lparr>bd_links := queue_init DnQ (bd_links s), g_dn_n := 0\<rparr>)) } }"

definition get_dn_store_obj :: "bytes \<Rightarrow> bd_index \<Rightarrow> nat option option" where
  "get_dn_store_obj key s = dfs_hashtable_lookup (dn_htable s) key (length key)"

definition dn_timer_create :: "int \<Rightarrow> nat \<Rightarrow> bd_index \<Rightarrow> bd_index option" where
  "dn_timer_create now dns s = do {
     d \<leftarrow> pool_at dns (dn_pool s);
     let dt = bd_brk s;
     let ev = event_timer_add now (dn_timeout s) event0;
     ht \<leftarrow> dfs_hashtable_join dt (link_make dt (dn_id d) (length (dn_id d)) (dn_timer_htable s));
     Some (s\<lparr>bd_brk := dt + 1, dn_timer_htable := ht,
             dn_timers := (dn_timers s)(dt \<mapsto> \<lparr>dt_ev = ev, dt_dns = dns\<rparr>)\<rparr>) }"

definition dn_timer_update :: "int \<Rightarrow> nat \<Rightarrow> bd_index \<Rightarrow> bd_index option" where
  "dn_timer_update now dns s = do {
     d \<leftarrow> pool_at dns (dn_pool s);
     r \<leftarrow> dfs_hashtable_lookup (dn_timer_htable s) (dn_id d) (length (dn_id d));
     dt \<leftarrow> r;
     t \<leftarrow> dn_timers s dt;
     Some (s\<lparr>dn_timers := (dn_timers s)(dt \<mapsto> t\<lparr>dt_ev := event_timer_add now (dn_timeout s) (dt_ev t)\<rparr>)\<rparr>) }"

definition dn_get0 :: "bd_index \<Rightarrow> (nat option \<times> bd_index) option" where
  "dn_get0 s = do {
     (r, pool) \<leftarrow> mem_get0 dn_store0 (dn_pool s);
     let s = s\<lparr>dn_pool := pool\<rparr>;
     Some (case r of
             None \<Rightarrow> (None, s)
           | Some p \<Rightarrow> (Some p, s\<lparr>bd_links :=
               clear_links (DnMe p) (clear_links (DnBlk p) (clear_links (DnDel p) (bd_links s)))\<rparr>)) }"

text \<open>A new data node; an exhausted pool only logs, and the NULL record is then used.\<close>

definition dn_register_new :: "int \<Rightarrow> bytes \<Rightarrow> bd_index \<Rightarrow> bd_index option" where
  "dn_register_new now key s = do {
     (r, s) \<leftarrow> dn_get0 s;
     dns \<leftarrow> r;
     let s = s\<lparr>bd_links := queue_init (DnDel dns) (queue_init (DnBlk dns) (queue_init (DnMe dns) (bd_links s)))\<rparr>;
     i \<leftarrow> c_strcpy ID_LEN key;
     pool \<leftarrow> pool_upd dns (\<lambda>d. d\<lparr>dn_del_blk_num := 0, dn_id := i\<rparr>) (dn_pool s);
     ht \<leftarrow> dfs_hashtable_join dns (link_make dns i (length i) (dn_htable s));
     links \<leftarrow> queue_insert_tail DnQ (DnMe dns) (bd_links s);
     dn_timer_create now dns
       (s\<lparr>dn_pool := pool, dn_htable := ht, bd_links := links, g_dn_n := g_dn_n s + 1\<rparr>) }"

definition nn_dn_register :: "int \<Rightarrow> u64 \<Rightarrow> task \<Rightarrow> bd_index \<Rightarrow> (task \<times> bd_index) option" where
  "nn_dn_register now namespace_id task s = do {
     r \<leftarrow> get_dn_store_obj (t_key task) s;
     s \<leftarrow> (case r of
            Some dns \<Rightarrow> dn_timer_update now dns s
          | None \<Rightarrow> dn_register_new now (t_key task) s);
     Some (task\<lparr>t_ret := DFS_OK, t_data := TNamespace namespace_id\<rparr>, s) }"

text \<open>The loop of the heartbeat: takes \<open>n\<close> deletions off the head of the queue of the node.\<close>

fun del_blk_of :: "bd_node \<Rightarrow> nat option" where
  "del_blk_of (DelMe d) = Some d"
| "del_blk_of _ = None"

fun heartbeat_loop :: "nat \<Rightarrow> nat \<Rightarrow> bd_index \<Rightarrow> (u64 list \<times> bd_index) option" where
  "heartbeat_loop 0 dns s = Some ([], s)"
| "heartbeat_loop (Suc n) dns s = do {
     cur \<leftarrow> queue_head (DnDel dns) (bd_links s);
     links \<leftarrow> queue_remove cur (bd_links s);
     pool \<leftarrow> pool_upd dns (\<lambda>d. d\<lparr>dn_del_blk_num := dn_del_blk_num d - 1\<rparr>) (dn_pool s);
     d \<leftarrow> del_blk_of cur;
     blk \<leftarrow> del_blks s d;
     (blks, s) \<leftarrow> heartbeat_loop n dns
       (s\<lparr>bd_links := links, dn_pool := pool, del_blks := (del_blks s)(d := None)\<rparr>);
     Some (blk # blks, s) }"

definition nn_dn_heartbeat :: "int \<Rightarrow> task \<Rightarrow> bd_index \<Rightarrow> (task \<times> bd_index) option" where
  "nn_dn_heartbeat now task s = do {
     r \<leftarrow> get_dn_store_obj (t_key task) s;
     case r of
       None \<Rightarrow> Some (task\<lparr>t_ret := DFS_ERROR\<rparr>, s)
     | Some dns \<Rightarrow> do {
         s \<leftarrow> dn_timer_update now dns s;
         d \<leftarrow> pool_at dns (dn_pool s);
         (if 0 < dn_del_blk_num d
          then do {
            let n = (if of_nat DELETING_BLK_FOR_ONCE < dn_del_blk_num d
                     then DELETING_BLK_FOR_ONCE else unat (dn_del_blk_num d));
            (blks, s) \<leftarrow> heartbeat_loop n dns s;
            Some (task\<lparr>t_data := TBlkIds blks, t_ret := DFS_OK\<rparr>, s) }
          else Some (task\<lparr>t_ret := DFS_OK\<rparr>, s)) } }"

text \<open>The handler of an expired timer \<open>dt\<close>: the data node is forgotten.\<close>

definition dn_timeout_handler :: "nat \<Rightarrow> bd_index \<Rightarrow> bd_index option" where
  "dn_timeout_handler dt s = do {
     t \<leftarrow> dn_timers s dt;
     let dns = dt_dns t;
     (_, tht) \<leftarrow> dfs_hashtable_remove_link dt (dn_timer_htable s);
     (_, ht) \<leftarrow> dfs_hashtable_remove_link dns (dn_htable s);
     links \<leftarrow> queue_remove (DnMe dns) (bd_links s);
     pool \<leftarrow> mem_put dns (dn_pool s);
     Some (s\<lparr>dn_timer_htable := tht, dn_htable := ht, bd_links := links, g_dn_n := g_dn_n s - 1,
             dn_pool := pool, dn_timers := (dn_timers s)(dt := None)\<rparr>) }"

text \<open>
  The common end of the two report handlers: the new block is put on the queue of the data
  node, also when there is none.
\<close>

definition report_add :: "u64 \<Rightarrow> u64 \<Rightarrow> bytes \<Rightarrow> nat \<Rightarrow> bd_index \<Rightarrow> bd_index option" where
  "report_add blk_id blk_sz dn_ip dns s = do {
     (r, s) \<leftarrow> add_block blk_id blk_sz dn_ip s;
     blk \<leftarrow> r;
     links \<leftarrow> queue_insert_tail (DnBlk dns) (BlkDnMe blk) (bd_links s);
     Some (s\<lparr>bd_links := links\<rparr>) }"

definition nn_dn_recv_blk_report :: "task \<Rightarrow> bd_index \<Rightarrow> (task \<times> bd_index) option" where
  "nn_dn_recv_blk_report task s =
     (case t_data task of
        TReport blk_id blk_sz dn_ip \<Rightarrow> do {
          let task = task\<lparr>t_data := TNull\<rparr>;
          r \<leftarrow> get_dn_store_obj (t_key task) s;
          case r of
            None \<Rightarrow> Some (task\<lparr>t_ret := DFS_ERROR\<rparr>, s)
          | Some dns \<Rightarrow> do {
              s \<leftarrow> report_add blk_id blk_sz dn_ip dns s;
              Some (task\<lparr>t_ret := DFS_OK\<rparr>, s) } }
      | _ \<Rightarrow> None)"

definition nn_dn_del_blk_report :: "task \<Rightarrow> int" where
  "nn_dn_del_blk_report task = DFS_OK"

definition nn_dn_blk_report :: "task \<Rightarrow> bd_index \<Rightarrow> (task \<times> bd_index) option" where
  "nn_dn_blk_report task s =
     (case t_data task of
        TReport blk_id blk_sz dn_ip \<Rightarrow> do {
          let task = task\<lparr>t_data := TNull\<rparr>;
          r \<leftarrow> get_dn_store_obj (t_key task) s;
          case r of
            None \<Rightarrow> Some (task\<lparr>t_ret := DFS_ERROR\<rparr>, s)
          | Some dns \<Rightarrow> do {
              b \<leftarrow> get_blk_store_obj blk_id s;
              case b of
                Some _ \<Rightarrow> Some (task\<lparr>t_ret := DFS_OK\<rparr>, s)
              | None \<Rightarrow> do {
                  s \<leftarrow> report_add blk_id blk_sz dn_ip dns s;
                  Some (task\<lparr>t_ret := DFS_OK\<rparr>, s) } } }
      | _ \<Rightarrow> None)"

text \<open>The data nodes for a new block; the requested replication is not used.\<close>

fun dn_of :: "bd_node \<Rightarrow> nat option" where
  "dn_of (DnMe p) = Some p"
| "dn_of _ = None"

definition generate_dns :: "int \<Rightarrow> create_resp_info \<Rightarrow> bd_index \<Rightarrow> (int \<times> create_resp_info) option" where
  "generate_dns rep resp_info s =
     (if g_dn_n s = 0 then Some (DFS_ERROR, resp_info)
      else do {
        cur \<leftarrow> queue_head DnQ (bd_links s);
        dns \<leftarrow> dn_of cur;
        d \<leftarrow> pool_at dns (dn_pool s);
        Some (DFS_OK, resp_info\<lparr>r_dn_num := 1, r_dn_ips := [dn_id d, [], []]\<rparr>) })"

definition notify_dn_2_delete_blk :: "u64 \<Rightarrow> bytes \<Rightarrow> bd_index \<Rightarrow> (int \<times> bd_index) option" where
  "notify_dn_2_delete_blk blk_id dn_ip s = do {
     r \<leftarrow> get_dn_store_obj dn_ip s;
     case r of
       None \<Rightarrow> Some (DFS_ERROR, s)
     | Some dns \<Rightarrow> do {
         let dblk = bd_brk s;
         let links = queue_init (DelMe dblk) (bd_links s);
         links \<leftarrow> queue_insert_tail (DnDel dns) (DelMe dblk) links;
         pool \<leftarrow> pool_upd dns (\<lambda>d. d\<lparr>dn_del_blk_num := dn_del_blk_num d + 1\<rparr>) (dn_pool s);
         Some (DFS_OK, s\<lparr>bd_brk := dblk + 1, bd_links := links, dn_pool := pool,
                         del_blks := (del_blks s)(dblk \<mapsto> blk_id)\<rparr>) } }"

definition block_object_del :: "u64 \<Rightarrow> bd_index \<Rightarrow> (int \<times> bd_index) option" where
  "block_object_del bid s = do {
     r \<leftarrow> get_blk_store_obj bid s;
     case r of
       None \<Rightarrow> Some (DFS_OK, s)
     | Some blk \<Rightarrow> do {
         b \<leftarrow> pool_at blk (blk_pool s);
         (_, s) \<leftarrow> notify_dn_2_delete_blk bid (b_dn_ip b) s;
         links \<leftarrow> queue_remove (BlkDnMe blk) (bd_links s);
         (_, ht) \<leftarrow> dfs_hashtable_remove_link blk (blk_htable s);
         pool \<leftarrow> mem_put blk (blk_pool s);
         Some (DFS_OK, s\<lparr>bd_links := links, blk_htable := ht, blk_pool := pool\<rparr>) } }"

section \<open>What the index represents\<close>

text \<open>
  The list view of the index: the maps of the three tables, the queue of data nodes, and for
  every data node the queue of its blocks and of its pending deletions.
\<close>

record bd_abs =
  ab_blk :: "u64 \<rightharpoonup> nat"
  ab_dn :: "bytes \<rightharpoonup> nat"
  ab_tm :: "bytes \<rightharpoonup> nat"
  ab_dnq :: "nat list"
  ab_blks :: "nat \<Rightarrow> nat list"
  ab_dels :: "nat \<Rightarrow> nat list"

definition bd_fam :: "bd_abs \<Rightarrow> bd_node \<rightharpoonup> bd_node list" where
  "bd_fam A n = (case n of
       DnQ \<Rightarrow> Some (map DnMe (ab_dnq A))
     | DnBlk p \<Rightarrow> if p \<in> ran (ab_dn A) then Some (map BlkDnMe (ab_blks A p)) else None
     | DnDel p \<Rightarrow> if p \<in> ran (ab_dn A) then Some (map DelMe (ab_dels A p)) else None
     | BlkFiMe b \<Rightarrow> if b \<in> ran (ab_blk A) then Some [] else None
     | _ \<Rightarrow> None)"

definition dn_table :: "nat \<Rightarrow> bd_index \<Rightarrow> bd_abs \<Rightarrow> bool" where
  "dn_table dcap s A \<longleftrightarrow>
     ht_rep length (dn_htable s) (ab_dn A) \<and> ht_cmp (dn_htable s) = dn_hash_keycmp \<and>
     pool_state dcap (dn_pool s) (ran (ab_dn A)) \<and>
     (\<forall>k p. ab_dn A k = Some p \<longrightarrow> mb_data (dn_pool s) p =
        \<lparr>dn_del_blk_num = of_nat (length (ab_dels A p)), dn_id = k\<rparr>)"

definition dn_timer_table :: "bd_index \<Rightarrow> bd_abs \<Rightarrow> bool" where
  "dn_timer_table s A \<longleftrightarrow>
     ht_rep length (dn_timer_htable s) (ab_tm A) \<and> ht_cmp (dn_timer_htable s) = dn_hash_keycmp \<and>
     dom (ab_tm A) = dom (ab_dn A) \<and> ran (ab_tm A) \<subseteq> {..<bd_brk s} \<and>
     (\<forall>k t. ab_tm A k = Some t \<longrightarrow> (\<exists>x. dn_timers s t = Some x \<and> ab_dn A k = Some (dt_dns x)))"

definition bd_queues :: "bd_index \<Rightarrow> bd_abs \<Rightarrow> bool" where
  "bd_queues s A \<longleftrightarrow>
     qfam (bd_links s) (bd_fam A) \<and> g_dn_n s = int (length (ab_dnq A)) \<and> set (ab_dnq A) = ran (ab_dn A) \<and>
     ran (ab_blk A) = (\<Union>p \<in> ran (ab_dn A). set (ab_blks A p)) \<and>
     (\<forall>p \<in> ran (ab_dn A). \<forall>d \<in> set (ab_dels A p). d < bd_brk s \<and> del_blks s d \<noteq> None)"

definition bd_rel :: "nat \<Rightarrow> nat \<Rightarrow> bd_index \<Rightarrow> bd_abs \<Rightarrow> bool" where
  "bd_rel cap dcap s A \<longleftrightarrow>
     blk_table cap s (ab_blk A) \<and> dn_table dcap s A \<and> dn_timer_table s A \<and> bd_queues s A"

lemmas bd_rel_defs = bd_rel_def dn_table_def dn_timer_table_def bd_queues_def

lemma bd_fam_simps [simp]:
  "bd_fam A DnQ = Some (map DnMe (ab_dnq A))"
  "bd_fam A (DnBlk p) = (if p \<in> ran (ab_dn A) then Some (map BlkDnMe (ab_blks A p)) else None)"
  "bd_fam A (DnDel p) = (if p \<in> ran (ab_dn A) then Some (map DelMe (ab_dels A p)) else None)"
  "bd_fam A (BlkFiMe b) = (if b \<in> ran (ab_blk A) then Some [] else None)"
  "bd_fam A (DnMe p) = None" "bd_fam A (BlkDnMe b) = None" "bd_fam A (DelMe d) = None"
  by (simp_all add: bd_fam_def)

lemma in_bd_fam:
  "in_queue (bd_fam A) n \<longleftrightarrow> (case n of
       DnMe p \<Rightarrow> p \<in> set (ab_dnq A)
     | BlkDnMe b \<Rightarrow> (\<exists>p \<in> ran (ab_dn A). b \<in> set (ab_blks A p))
     | DelMe d \<Rightarrow> (\<exists>p \<in> ran (ab_dn A). d \<in> set (ab_dels A p))
     | _ \<Rightarrow> False)" (is "_ \<longleftrightarrow> ?rhs")
proof
  assume "in_queue (bd_fam A) n"
  then obtain h xs where "bd_fam A h = Some xs" "n \<in> set xs" by (auto simp: in_queue_def)
  then show ?rhs
  proof (cases h)
    case (DnBlk p)
    with \<open>bd_fam A h = Some xs\<close> \<open>n \<in> set xs\<close> show ?thesis by (auto split: if_splits) blast
  next
    case (DnDel p)
    with \<open>bd_fam A h = Some xs\<close> \<open>n \<in> set xs\<close> show ?thesis by (auto split: if_splits) blast
  qed (auto split: if_splits)
next
  assume ?rhs
  then show "in_queue (bd_fam A) n"
  proof (cases n)
    case (DnMe p)
    with \<open>?rhs\<close> show ?thesis by (intro in_queueI[of _ DnQ]) auto
  next
    case (BlkDnMe b)
    with \<open>?rhs\<close> obtain p where "p \<in> ran (ab_dn A)" "b \<in> set (ab_blks A p)" by auto
    with BlkDnMe show ?thesis by (intro in_queueI[of _ "DnBlk p"]) auto
  next
    case (DelMe d)
    with \<open>?rhs\<close> obtain p where "p \<in> ran (ab_dn A)" "d \<in> set (ab_dels A p)" by auto
    with DelMe show ?thesis by (intro in_queueI[of _ "DnDel p"]) auto
  qed auto
qed

lemma bd_fam_update:
  "p \<in> ran (ab_dn A) \<Longrightarrow> bd_fam (A\<lparr>ab_dels := (ab_dels A)(p := ds)\<rparr>) = (bd_fam A)(DnDel p \<mapsto> map DelMe ds)"
  "p \<in> ran (ab_dn A) \<Longrightarrow> bd_fam (A\<lparr>ab_blks := (ab_blks A)(p := bs)\<rparr>) = (bd_fam A)(DnBlk p \<mapsto> map BlkDnMe bs)"
  by (auto simp: fun_eq_iff bd_fam_def split: bd_node.splits)

lemma bd_relD:
  assumes "bd_rel cap dcap s A"
  shows bd_blk: "blk_table cap s (ab_blk A)"
    and bd_dn_ht: "ht_rep length (dn_htable s) (ab_dn A)"
    and bd_dn_pool: "pool_state dcap (dn_pool s) (ran (ab_dn A))"
    and bd_tm_ht: "ht_rep length (dn_timer_htable s) (ab_tm A)"
    and bd_tm_dom: "dom (ab_tm A) = dom (ab_dn A)"
    and bd_tm_ran: "ran (ab_tm A) \<subseteq> {..<bd_brk s}"
    and bd_fam: "qfam (bd_links s) (bd_fam A)"
    and bd_dnq: "set (ab_dnq A) = ran (ab_dn A)" "g_dn_n s = int (length (ab_dnq A))"
    and bd_blks: "ran (ab_blk A) = (\<Union>p \<in> ran (ab_dn A). set (ab_blks A p))"
    and bd_cmp: "ht_cmp (dn_htable s) = dn_hash_keycmp" "ht_cmp (dn_timer_htable s) = dn_hash_keycmp"
  using assms by (simp_all add: bd_rel_defs)

lemma bd_dn_data:
  "bd_rel cap dcap s A \<Longrightarrow> ab_dn A k = Some p \<Longrightarrow>
     mb_data (dn_pool s) p = \<lparr>dn_del_blk_num = of_nat (length (ab_dels A p)), dn_id = k\<rparr>"
  by (simp add: bd_rel_defs)

lemma bd_timer:
  "bd_rel cap dcap s A \<Longrightarrow> ab_tm A k = Some t \<Longrightarrow> \<exists>x. dn_timers s t = Some x \<and> ab_dn A k = Some (dt_dns x)"
  by (simp add: bd_rel_defs)

lemma bd_dels:
  "bd_rel cap dcap s A \<Longrightarrow> p \<in> ran (ab_dn A) \<Longrightarrow> d \<in> set (ab_dels A p) \<Longrightarrow> d < bd_brk s \<and> del_blks s d \<noteq> None"
  by (simp add: bd_rel_defs)

text \<open>Each part depends on some fields only.\<close>

lemma bd_part_cong:
  "dn_htable s' = dn_htable s \<Longrightarrow> dn_pool s' = dn_pool s \<Longrightarrow> dn_table dcap s' A = dn_table dcap s A"
  "dn_timer_htable s' = dn_timer_htable s \<Longrightarrow> dn_timers s' = dn_timers s \<Longrightarrow> bd_brk s' = bd_brk s \<Longrightarrow>
     dn_timer_table s' A = dn_timer_table s A"
  "bd_links s' = bd_links s \<Longrightarrow> g_dn_n s' = g_dn_n s \<Longrightarrow> bd_brk s' = bd_brk s \<Longrightarrow> del_blks s' = del_blks s \<Longrightarrow>
     bd_queues s' A = bd_queues s A"
  by (simp_all add: dn_table_def dn_timer_table_def bd_queues_def)

section \<open>Lookups and timers\<close>

lemma get_dn_rel:
  "bd_rel cap dcap s A \<Longrightarrow> no_clash length (dn_htable s) k (dom (ab_dn A)) \<Longrightarrow>
     get_dn_store_obj k s = Some (ab_dn A k)"
  by (simp add: bd_dn_ht get_dn_store_obj_def lookup_exact)

lemma dn_at:
  assumes "bd_rel cap dcap s A" "ab_dn A k = Some p"
  shows "pool_at p (dn_pool s) = Some \<lparr>dn_del_blk_num = of_nat (length (ab_dels A p)), dn_id = k\<rparr>"
  using pool_at_used[OF bd_dn_pool[OF assms(1)], of p] bd_dn_data[OF assms] assms(2) by (auto simp: ran_def)

lemma dn_timer_update_ok:
  assumes rel: "bd_rel cap dcap s A" and p: "ab_dn A k = Some p"
    and clash: "no_clash length (dn_timer_htable s) k (dom (ab_dn A))"
  shows "\<exists>tm. dn_timer_update now p s = Some (s\<lparr>dn_timers := tm\<rparr>) \<and> bd_rel cap dcap (s\<lparr>dn_timers := tm\<rparr>) A"
proof -
  from p have "k \<in> dom (ab_tm A)" by (auto simp: bd_tm_dom[OF rel])
  then obtain t where t: "ab_tm A k = Some t" by auto
  with bd_timer[OF rel] obtain x where x: "dn_timers s t = Some x" "ab_dn A k = Some (dt_dns x)" by blast
  have "dfs_hashtable_lookup (dn_timer_htable s) k (length k) = Some (ab_tm A k)"
    by (rule lookup_exact[OF bd_tm_ht[OF rel]]) (use clash bd_tm_dom[OF rel] in simp)
  with x t have upd: "dn_timer_update now p s = Some (s\<lparr>dn_timers := (dn_timers s)(t \<mapsto>
      x\<lparr>dt_ev := event_timer_add now (dn_timeout s) (dt_ev x)\<rparr>)\<rparr>)"
    by (simp add: dn_timer_update_def dn_at[OF rel p])
  have inj: "ab_tm A k' = Some t \<Longrightarrow> k' = k" for k'
    using ht_rep_inj[OF bd_tm_ht[OF rel] _ t] .
  let ?s = "s\<lparr>dn_timers := (dn_timers s)(t \<mapsto> x\<lparr>dt_ev := event_timer_add now (dn_timeout s) (dt_ev x)\<rparr>)\<rparr>"
  have "\<exists>y. dn_timers ?s t' = Some y \<and> ab_dn A k' = Some (dt_dns y)" if "ab_tm A k' = Some t'" for k' t'
    using bd_timer[OF rel that] x inj[of k'] that by auto
  then have "dn_timer_table ?s A"
    using rel by (simp add: bd_rel_def dn_timer_table_def)
  moreover have "dn_table dcap ?s A" "bd_queues ?s A" "blk_table cap ?s (ab_blk A)"
    using rel bd_part_cong[of ?s s] blk_table_cong[of ?s s] by (auto simp: bd_rel_def)
  ultimately show ?thesis using upd by (auto simp: bd_rel_def)
qed

section \<open>Pending deletions\<close>

lemma dn_ran: "ab_dn A k = Some p \<Longrightarrow> p \<in> ran (ab_dn A)"
  by (auto simp: ran_def)

lemma bd_dels_unique:
  assumes "bd_rel cap dcap s A" "p \<in> ran (ab_dn A)" "q \<in> ran (ab_dn A)" "d \<in> set (ab_dels A p)" "d \<in> set (ab_dels A q)"
  shows "p = q"
  using qfam_unique[OF bd_fam[OF assms(1)], of "DnDel p" _ "DnDel q" _ "DelMe d"] assms(2-) by auto

text \<open>The counter of a data node follows its queue.\<close>

lemma dn_table_dels:
  assumes tab: "dn_table dcap s A" and k: "ab_dn A k = Some p"
    and pool: "pool_upd p (\<lambda>d. d\<lparr>dn_del_blk_num := f (dn_del_blk_num d)\<rparr>) (dn_pool s) = Some pool'"
    and f: "f (of_nat (length (ab_dels A p))) = of_nat (length ds)"
  shows "dn_table dcap (s\<lparr>dn_pool := pool'\<rparr>) (A\<lparr>ab_dels := (ab_dels A)(p := ds)\<rparr>)"
proof -
  from tab have ht: "ht_rep length (dn_htable s) (ab_dn A)" and pst: "pool_state dcap (dn_pool s) (ran (ab_dn A))"
    by (auto simp: dn_table_def)
  have pool': "pool' = (dn_pool s)\<lparr>mb_data := (mb_data (dn_pool s))(p :=
      (mb_data (dn_pool s) p)\<lparr>dn_del_blk_num := f (dn_del_blk_num (mb_data (dn_pool s) p))\<rparr>)\<rparr>"
    using pool pool_upd_used[OF pst dn_ran[of A, OF k]] by simp
  have dat: "mb_data (dn_pool s) q = \<lparr>dn_del_blk_num = of_nat (length (ab_dels A q)), dn_id = k'\<rparr>"
    if "ab_dn A k' = Some q" for k' q using tab that by (simp add: dn_table_def)
  have "mb_data pool' q = \<lparr>dn_del_blk_num = of_nat (length (((ab_dels A)(p := ds)) q)), dn_id = k'\<rparr>"
    if "ab_dn A k' = Some q" for k' q
    using dat[OF that] dat[OF k] ht_rep_inj[OF ht k, of k'] that f by (cases "q = p") (simp_all add: pool')
  moreover have "pool_state dcap pool' (ran (ab_dn A))" using pst by (simp add: pool' pool_state_data)
  ultimately show ?thesis using tab by (simp add: dn_table_def)
qed

lemma bd_pop_del:
  assumes rel: "bd_rel cap dcap s A" and k: "ab_dn A k = Some p" and ds: "ab_dels A p = d # ds"
  shows "\<exists>links pool. queue_head (DnDel p) (bd_links s) = Some (DelMe d) \<and>
    queue_remove (DelMe d) (bd_links s) = Some links \<and>
    pool_upd p (\<lambda>d. d\<lparr>dn_del_blk_num := dn_del_blk_num d - 1\<rparr>) (dn_pool s) = Some pool \<and>
    bd_rel cap dcap (s\<lparr>bd_links := links, dn_pool := pool, del_blks := (del_blks s)(d := None)\<rparr>)
      (A\<lparr>ab_dels := (ab_dels A)(p := ds)\<rparr>)"
proof -
  note p = dn_ran[of A, OF k]
  have h: "bd_fam A (DnDel p) = Some (DelMe d # map DelMe ds)" using p ds by simp
  have head: "queue_head (DnDel p) (bd_links s) = Some (DelMe d)"
    using qfam_head[OF bd_fam[OF rel] h] by (simp add: queue_head_def)
  from qfam_remove[OF bd_fam[OF rel] h, of "DelMe d"] obtain links where
    links: "queue_remove (DelMe d) (bd_links s) = Some links" "qfam links ((bd_fam A)(DnDel p \<mapsto> map DelMe ds))"
    by auto
  let ?A = "A\<lparr>ab_dels := (ab_dels A)(p := ds)\<rparr>"
  obtain pool where pool: "pool_upd p (\<lambda>d. d\<lparr>dn_del_blk_num := dn_del_blk_num d - 1\<rparr>) (dn_pool s) = Some pool"
    using pool_upd_used[OF bd_dn_pool[OF rel] p] by blast
  let ?s = "s\<lparr>bd_links := links, dn_pool := pool, del_blks := (del_blks s)(d := None)\<rparr>"
  have "dn_table dcap (s\<lparr>dn_pool := pool\<rparr>) ?A"
    by (rule dn_table_dels[OF _ k pool]) (use rel ds in \<open>simp_all add: bd_rel_def\<close>)
  then have "dn_table dcap ?s ?A" by (simp add: dn_table_def)
  moreover have "dn_timer_table ?s ?A" using rel by (simp add: bd_rel_def dn_timer_table_def)
  moreover have "blk_table cap ?s (ab_blk ?A)" using bd_blk[OF rel] by (simp add: blk_table_cong[of ?s s])
  moreover have "bd_queues ?s ?A"
  proof -
    have "d \<notin> set ds" using qfam_distinct[OF bd_fam[OF rel] h] by (auto simp: distinct_map)
    then have same: "del_blks ?s e = del_blks s e" if "q \<in> ran (ab_dn A)" "e \<in> set (ab_dels ?A q)" for q e
      using that bd_dels_unique[OF rel p, of q d] ds by (auto split: if_splits)
    have "e \<in> set (ab_dels A q)" if "e \<in> set (ab_dels ?A q)" for q e
      using that ds by (auto split: if_splits)
    with same bd_dels[OF rel] have
      "\<forall>q \<in> ran (ab_dn A). \<forall>e \<in> set (ab_dels ?A q). e < bd_brk s \<and> del_blks ?s e \<noteq> None" by metis
    then show ?thesis using links(2) bd_dnq[OF rel] bd_blks[OF rel]
      by (simp add: bd_queues_def bd_fam_update[OF p])
  qed
  ultimately show ?thesis using head links(1) pool by (auto simp: bd_rel_def)
qed

abbreviation told :: "nat list \<Rightarrow> bd_node qheap \<Rightarrow> dn_store mem_mblks \<Rightarrow> bd_index \<Rightarrow> bd_index" where
  "told ds links pool s \<equiv> s\<lparr>bd_links := links, dn_pool := pool, del_blks := del_blks s |` (- set ds)\<rparr>"

lemma heartbeat_loop_ok:
  "bd_rel cap dcap s A \<Longrightarrow> ab_dn A k = Some p \<Longrightarrow> n \<le> length (ab_dels A p) \<Longrightarrow>
     \<exists>links pool. heartbeat_loop n p s = Some (map (\<lambda>d. the (del_blks s d)) (take n (ab_dels A p)),
         told (take n (ab_dels A p)) links pool s) \<and>
       bd_rel cap dcap (told (take n (ab_dels A p)) links pool s) (A\<lparr>ab_dels := (ab_dels A)(p := drop n (ab_dels A p))\<rparr>)"
proof (induction n arbitrary: s A)
  case 0
  then show ?case by (intro exI[of _ "bd_links s"] exI[of _ "dn_pool s"]) simp
next
  case (Suc n)
  then obtain d ds where ds: "ab_dels A p = d # ds" by (cases "ab_dels A p") auto
  from bd_pop_del[OF Suc.prems(1,2) ds] obtain links pool where
    pop: "queue_head (DnDel p) (bd_links s) = Some (DelMe d)" "queue_remove (DelMe d) (bd_links s) = Some links"
      "pool_upd p (\<lambda>d. d\<lparr>dn_del_blk_num := dn_del_blk_num d - 1\<rparr>) (dn_pool s) = Some pool"
    and rel: "bd_rel cap dcap (s\<lparr>bd_links := links, dn_pool := pool, del_blks := (del_blks s)(d := None)\<rparr>)
      (A\<lparr>ab_dels := (ab_dels A)(p := ds)\<rparr>)" (is "bd_rel _ _ ?s ?A") by blast
  have "ab_dn ?A k = Some p" "n \<le> length (ab_dels ?A p)" using Suc.prems(2,3) ds by simp_all
  from Suc.IH[OF rel this] obtain links' pool' where
    s': "heartbeat_loop n p ?s = Some (map (\<lambda>d. the (del_blks ?s d)) (take n (ab_dels ?A p)),
        told (take n (ab_dels ?A p)) links' pool' ?s)"
      "bd_rel cap dcap (told (take n (ab_dels ?A p)) links' pool' ?s)
         (?A\<lparr>ab_dels := (ab_dels ?A)(p := drop n (ab_dels ?A p))\<rparr>)" by blast
  have p: "p \<in> ran (ab_dn A)" using Suc.prems(2) by (rule dn_ran)
  have "d \<notin> set ds"
    using qfam_distinct[OF bd_fam[OF Suc.prems(1)], of "DnDel p"] p ds by (auto simp: distinct_map)
  then have "map (\<lambda>d. the (del_blks ?s d)) (take n ds) = map (\<lambda>d. the (del_blks s d)) (take n ds)"
    by (auto dest: in_set_takeD)
  moreover obtain b where "del_blks s d = Some b"
    using bd_dels[OF Suc.prems(1) p, of d] ds by auto
  moreover have told: "told (take n (ab_dels ?A p)) links' pool' ?s = told (take (Suc n) (ab_dels A p)) links' pool' s"
    by (auto simp: ds restrict_map_def fun_eq_iff)
  ultimately have "heartbeat_loop (Suc n) p s = Some (map (\<lambda>d. the (del_blks s d)) (take (Suc n) (ab_dels A p)),
      told (take (Suc n) (ab_dels A p)) links' pool' s)"
    using pop s'(1) ds by simp
  moreover have "?A\<lparr>ab_dels := (ab_dels ?A)(p := drop n (ab_dels ?A p))\<rparr> =
      A\<lparr>ab_dels := (ab_dels A)(p := drop (Suc n) (ab_dels A p))\<rparr>" by (simp add: ds)
  ultimately show ?case using s'(2) unfolding told by metis
qed

lemma notify_ok:
  assumes rel: "bd_rel cap dcap s A" and k: "ab_dn A k = Some p"
    and clash: "no_clash length (dn_htable s) k (dom (ab_dn A))"
  shows "\<exists>links pool. notify_dn_2_delete_blk bid k s =
      Some (DFS_OK, s\<lparr>bd_brk := bd_brk s + 1, bd_links := links, dn_pool := pool,
                      del_blks := (del_blks s)(bd_brk s \<mapsto> bid)\<rparr>) \<and>
    bd_rel cap dcap (s\<lparr>bd_brk := bd_brk s + 1, bd_links := links, dn_pool := pool,
                      del_blks := (del_blks s)(bd_brk s \<mapsto> bid)\<rparr>)
      (A\<lparr>ab_dels := (ab_dels A)(p := ab_dels A p @ [bd_brk s])\<rparr>)"
proof -
  note p = dn_ran[of A, OF k]
  let ?d = "bd_brk s"
  let ?A = "A\<lparr>ab_dels := (ab_dels A)(p := ab_dels A p @ [?d])\<rparr>"
  have fresh: "\<not> in_queue (bd_fam A) (DelMe ?d)" using bd_dels[OF rel] by (auto simp: in_bd_fam)
  have F: "((bd_fam A)(DelMe ?d \<mapsto> [])) (DnDel p) = Some (map DelMe (ab_dels A p))" using p by simp
  have q: "qfam (queue_init (DelMe ?d) (bd_links s)) ((bd_fam A)(DelMe ?d \<mapsto> []))"
    by (rule qfam_init[OF bd_fam[OF rel] fresh]) simp
  have "\<not> in_queue ((bd_fam A)(DelMe ?d \<mapsto> [])) (DelMe ?d)"
    using fresh by (auto simp: in_queue_def split: if_splits)
  with qfam_insert_tail[of _ "(bd_fam A)(DelMe ?d \<mapsto> [])" "DnDel p" "map DelMe (ab_dels A p)" "DelMe ?d", OF q F]
  obtain links where
    links: "queue_insert_tail (DnDel p) (DelMe ?d) (queue_init (DelMe ?d) (bd_links s)) = Some links"
      "qfam links (((bd_fam A)(DelMe ?d \<mapsto> []))(DelMe ?d := None, DnDel p \<mapsto> map DelMe (ab_dels A p) @ [DelMe ?d]))"
    by auto
  moreover have "((bd_fam A)(DelMe ?d \<mapsto> []))(DelMe ?d := None, DnDel p \<mapsto> map DelMe (ab_dels A p) @ [DelMe ?d]) = bd_fam ?A"
    by (auto simp: bd_fam_update[OF p] fun_eq_iff)
  ultimately have fam: "qfam links (bd_fam ?A)" by simp
  obtain pool where pool: "pool_upd p (\<lambda>d. d\<lparr>dn_del_blk_num := dn_del_blk_num d + 1\<rparr>) (dn_pool s) = Some pool"
    using pool_upd_used[OF bd_dn_pool[OF rel] p] by blast
  let ?s = "s\<lparr>bd_brk := ?d + 1, bd_links := links, dn_pool := pool, del_blks := (del_blks s)(?d \<mapsto> bid)\<rparr>"
  have "dn_table dcap (s\<lparr>dn_pool := pool\<rparr>) ?A"
    by (rule dn_table_dels[OF _ k pool]) (use rel in \<open>simp_all add: bd_rel_def\<close>)
  then have "dn_table dcap ?s ?A" by (simp add: dn_table_def)
  moreover have "dn_timer_table ?s ?A" using rel by (auto simp: bd_rel_def dn_timer_table_def)
  moreover have "blk_table cap ?s (ab_blk ?A)" using bd_blk[OF rel] by (simp add: blk_table_def)
  moreover have "bd_queues ?s ?A"
  proof -
    have "e < ?d + 1 \<and> ((del_blks s)(?d \<mapsto> bid)) e \<noteq> None" if "q \<in> ran (ab_dn A)" "e \<in> set (ab_dels ?A q)" for q e
      using that bd_dels[OF rel that(1), of e] by (auto split: if_splits)
    then show ?thesis using fam bd_dnq[OF rel] bd_blks[OF rel] by (simp add: bd_queues_def)
  qed
  moreover have "notify_dn_2_delete_blk bid k s = Some (DFS_OK, ?s)"
    using get_dn_rel[OF rel clash] k links(1) pool by (simp add: notify_dn_2_delete_blk_def Let_def)
  ultimately show ?thesis by (auto simp: bd_rel_def)
qed

section \<open>Blocks\<close>

lemma blk_unique:
  assumes "bd_rel cap dcap s A" "p \<in> ran (ab_dn A)" "q \<in> ran (ab_dn A)" "b \<in> set (ab_blks A p)" "b \<in> set (ab_blks A q)"
  shows "p = q"
  using qfam_unique[OF bd_fam[OF assms(1)], of "DnBlk p" _ "DnBlk q" _ "BlkDnMe b"] assms(2-) by auto

lemma report_add_ok:
  assumes rel: "bd_rel cap dcap s A" and k: "ab_dn A k = Some p" and new: "ab_blk A bid = None"
    and room: "card (dom (ab_blk A)) < cap" and ip: "length ip < 32"
  shows "\<exists>b s'. report_add bid sz ip p s = Some s' \<and> b \<notin> ran (ab_blk A) \<and>
    mb_data (blk_pool s') = (mb_data (blk_pool s))(b := \<lparr>b_id = bid, b_size = sz, b_dn_ip = ip\<rparr>) \<and>
    bd_rel cap dcap s' (A\<lparr>ab_blk := (ab_blk A)(bid \<mapsto> b), ab_blks := (ab_blks A)(p := ab_blks A p @ [b])\<rparr>)"
proof -
  note p = dn_ran[of A, OF k]
  from add_block_ok[OF bd_blk[OF rel] new room ip] obtain b m ht where
    add: "add_block bid sz ip s = Some (Some b, s\<lparr>bd_links := queue_init (BlkDnMe b) (queue_init (BlkFiMe b)
        (clear_links (BlkFiMe b) (clear_links (BlkDnMe b) (bd_links s)))), blk_pool := m, blk_htable := ht\<rparr>)"
    and b: "b \<notin> ran (ab_blk A)" and m: "mb_data m = (mb_data (blk_pool s))(b := \<lparr>b_id = bid, b_size = sz, b_dn_ip = ip\<rparr>)"
    and tab: "\<And>l. blk_table cap (s\<lparr>bd_links := l, blk_pool := m, blk_htable := ht\<rparr>) ((ab_blk A)(bid \<mapsto> b))"
    by blast
  let ?A = "A\<lparr>ab_blk := (ab_blk A)(bid \<mapsto> b), ab_blks := (ab_blks A)(p := ab_blks A p @ [b])\<rparr>"
  let ?F = "(bd_fam A)(BlkFiMe b \<mapsto> [], BlkDnMe b \<mapsto> [])"
  have out: "\<not> in_queue (bd_fam A) (BlkFiMe b)" "\<not> in_queue (bd_fam A) (BlkDnMe b)"
    using b bd_blks[OF rel] by (auto simp: in_bd_fam)
  have "qfam (clear_links (BlkFiMe b) (clear_links (BlkDnMe b) (bd_links s))) (bd_fam A)"
    using out b by (intro qfam_clear bd_fam[OF rel]) auto
  then have "qfam (queue_init (BlkFiMe b) (clear_links (BlkFiMe b) (clear_links (BlkDnMe b) (bd_links s))))
      ((bd_fam A)(BlkFiMe b \<mapsto> []))"
    using out b by (intro qfam_init) auto
  moreover have out': "\<not> in_queue ((bd_fam A)(BlkFiMe b \<mapsto> [])) (BlkDnMe b)"
    using out(2) by (auto simp: in_queue_def split: if_splits)
  ultimately have fam: "qfam (queue_init (BlkDnMe b) (queue_init (BlkFiMe b)
      (clear_links (BlkFiMe b) (clear_links (BlkDnMe b) (bd_links s))))) ?F"
    by (rule qfam_init) simp
  have h: "?F (DnBlk p) = Some (map BlkDnMe (ab_blks A p))" using p by simp
  have "\<not> in_queue ?F (BlkDnMe b)" using out' by (auto simp: in_queue_def split: if_splits)
  with qfam_insert_tail[of _ ?F "DnBlk p" "map BlkDnMe (ab_blks A p)" "BlkDnMe b", OF fam h] obtain links where
    links: "queue_insert_tail (DnBlk p) (BlkDnMe b) (queue_init (BlkDnMe b) (queue_init (BlkFiMe b)
        (clear_links (BlkFiMe b) (clear_links (BlkDnMe b) (bd_links s))))) = Some links"
      "qfam links (?F(BlkDnMe b := None, DnBlk p \<mapsto> map BlkDnMe (ab_blks A p) @ [BlkDnMe b]))"
    by auto
  have ran': "ran ((ab_blk A)(bid \<mapsto> b)) = insert b (ran (ab_blk A))" using new by simp
  have "?F(BlkDnMe b := None, DnBlk p \<mapsto> map BlkDnMe (ab_blks A p) @ [BlkDnMe b]) = bd_fam ?A"
    using p by (auto simp: fun_eq_iff bd_fam_def ran' split: bd_node.splits)
  with links(2) have fam': "qfam links (bd_fam ?A)" by simp
  let ?s = "s\<lparr>bd_links := links, blk_pool := m, blk_htable := ht\<rparr>"
  have "blk_table cap ?s (ab_blk ?A)" using tab by simp
  moreover have "dn_table dcap ?s ?A" using rel by (simp add: bd_rel_def dn_table_def)
  moreover have "dn_timer_table ?s ?A" using rel by (simp add: bd_rel_def dn_timer_table_def)
  moreover have "(\<Union>q \<in> ran (ab_dn A). set (ab_blks ?A q)) = insert b (\<Union>q \<in> ran (ab_dn A). set (ab_blks A q))"
    using p by (auto split: if_splits)
  then have "bd_queues ?s ?A"
    using fam' bd_dnq[OF rel] bd_blks[OF rel] bd_dels[OF rel] by (simp add: bd_queues_def ran')
  moreover have "report_add bid sz ip p s = Some ?s" using add links(1) by (simp add: report_add_def)
  moreover have "mb_data (blk_pool ?s) = (mb_data (blk_pool s))(b := \<lparr>b_id = bid, b_size = sz, b_dn_ip = ip\<rparr>)" by (simp add: m)
  ultimately show ?thesis using b by (auto simp: bd_rel_def)
qed

section \<open>Data nodes\<close>

abbreviation bd_add_dn :: "bytes \<Rightarrow> nat \<Rightarrow> nat \<Rightarrow> bd_abs \<Rightarrow> bd_abs" where
  "bd_add_dn k p t A \<equiv> A\<lparr>ab_dn := (ab_dn A)(k \<mapsto> p), ab_tm := (ab_tm A)(k \<mapsto> t), ab_dnq := ab_dnq A @ [p],
     ab_blks := (ab_blks A)(p := []), ab_dels := (ab_dels A)(p := [])\<rparr>"

lemma dn_table_new:
  assumes tab: "dn_table dcap s A" and new: "ab_dn A k = None" and p: "p \<notin> ran (ab_dn A)"
    and ht: "ht_rep length ht ((ab_dn A)(k \<mapsto> p))" "ht_same (dn_htable s) ht"
    and pool: "pool_state dcap pool (insert p (ran (ab_dn A)))"
      "mb_data pool = (mb_data (dn_pool s))(p := \<lparr>dn_del_blk_num = 0, dn_id = k\<rparr>)"
    and s': "dn_htable s' = ht" "dn_pool s' = pool"
  shows "dn_table dcap s' (bd_add_dn k p t A)"
proof -
  have "mb_data (dn_pool s') q = \<lparr>dn_del_blk_num = of_nat (length (((ab_dels A)(p := [])) q)), dn_id = k'\<rparr>"
    if "((ab_dn A)(k \<mapsto> p)) k' = Some q" for k' q
    using that tab p by (cases "k' = k") (auto simp: dn_table_def s' pool(2) ran_def)
  moreover have "ran ((ab_dn A)(k \<mapsto> p)) = insert p (ran (ab_dn A))" using new by simp
  ultimately show ?thesis using tab ht pool(1) by (simp add: dn_table_def s' ht_same_def)
qed

lemma dn_timer_table_new:
  assumes tab: "dn_timer_table s A" and p: "ab_dn A k = None"
    and ht: "ht_rep length ht ((ab_tm A)(k \<mapsto> bd_brk s))" "ht_same (dn_timer_htable s) ht"
    and s': "dn_timer_htable s' = ht" "bd_brk s' = bd_brk s + 1" "dn_timers s' = (dn_timers s)(bd_brk s \<mapsto> \<lparr>dt_ev = ev, dt_dns = p\<rparr>)"
  shows "dn_timer_table s' (bd_add_dn k p (bd_brk s) A)"
proof -
  from tab have old: "ran (ab_tm A) \<subseteq> {..<bd_brk s}" by (simp add: dn_timer_table_def)
  have "\<exists>x. dn_timers s' t = Some x \<and> ((ab_dn A)(k \<mapsto> p)) k' = Some (dt_dns x)"
    if "((ab_tm A)(k \<mapsto> bd_brk s)) k' = Some t" for k' t
  proof (cases "k' = k")
    case False
    with that old have "t \<noteq> bd_brk s" by (auto simp: ran_def)
    with False that tab show ?thesis by (simp add: dn_timer_table_def s')
  qed (use that in \<open>simp add: s'\<close>)
  moreover have "ran ((ab_tm A)(k \<mapsto> bd_brk s)) \<subseteq> {..<bd_brk s + 1}"
    using old by (fastforce simp: ran_def split: if_splits)
  ultimately show ?thesis using tab ht by (simp add: dn_timer_table_def s' ht_same_def)
qed

lemma in_queue_new: "in_queue (F(h \<mapsto> [])) x \<Longrightarrow> in_queue F x"
  by (auto simp: in_queue_def split: if_splits)

lemma bd_queues_new:
  assumes rel: "bd_rel cap dcap s A" and new: "ab_dn A k = None" and p: "p \<notin> ran (ab_dn A)"
  shows "\<exists>links. queue_insert_tail DnQ (DnMe p) (queue_init (DnDel p) (queue_init (DnBlk p) (queue_init (DnMe p)
      (clear_links (DnMe p) (clear_links (DnBlk p) (clear_links (DnDel p) (bd_links s))))))) = Some links \<and>
    (\<forall>s'. bd_links s' = links \<longrightarrow> g_dn_n s' = g_dn_n s + 1 \<longrightarrow> bd_brk s \<le> bd_brk s' \<longrightarrow> del_blks s' = del_blks s \<longrightarrow>
       bd_queues s' (bd_add_dn k p t A))"
proof -
  let ?F = "(bd_fam A)(DnMe p \<mapsto> [], DnBlk p \<mapsto> [], DnDel p \<mapsto> [])"
  have out: "\<not> in_queue (bd_fam A) (DnMe p)" "\<not> in_queue (bd_fam A) (DnBlk p)" "\<not> in_queue (bd_fam A) (DnDel p)"
    using p bd_dnq(1)[OF rel] by (auto simp: in_bd_fam)
  have "qfam (clear_links (DnMe p) (clear_links (DnBlk p) (clear_links (DnDel p) (bd_links s)))) (bd_fam A)"
    using out p by (intro qfam_clear bd_fam[OF rel]) auto
  then have "qfam (queue_init (DnMe p) (clear_links (DnMe p) (clear_links (DnBlk p) (clear_links (DnDel p) (bd_links s)))))
      ((bd_fam A)(DnMe p \<mapsto> []))"
    by (rule qfam_init[OF _ out(1)]) simp
  then have "qfam (queue_init (DnBlk p) (queue_init (DnMe p)
      (clear_links (DnMe p) (clear_links (DnBlk p) (clear_links (DnDel p) (bd_links s))))))
      ((bd_fam A)(DnMe p \<mapsto> [], DnBlk p \<mapsto> []))"
    by (rule qfam_init) (use out(2) p in \<open>auto dest: in_queue_new\<close>)
  then have q: "qfam (queue_init (DnDel p) (queue_init (DnBlk p) (queue_init (DnMe p)
      (clear_links (DnMe p) (clear_links (DnBlk p) (clear_links (DnDel p) (bd_links s))))))) ?F"
    by (rule qfam_init) (use out(3) p in \<open>auto dest!: in_queue_new\<close>)
  have h: "?F DnQ = Some (map DnMe (ab_dnq A))" by simp
  have "\<not> in_queue ?F (DnMe p)" using out(1) by (blast dest: in_queue_new)
  with qfam_insert_tail[of _ ?F DnQ "map DnMe (ab_dnq A)" "DnMe p", OF q h] obtain links where
    links: "queue_insert_tail DnQ (DnMe p) (queue_init (DnDel p) (queue_init (DnBlk p) (queue_init (DnMe p)
      (clear_links (DnMe p) (clear_links (DnBlk p) (clear_links (DnDel p) (bd_links s))))))) = Some links"
      "qfam links (?F(DnMe p := None, DnQ \<mapsto> map DnMe (ab_dnq A) @ [DnMe p]))" by auto
  have ran': "ran ((ab_dn A)(k \<mapsto> p)) = insert p (ran (ab_dn A))" using new by simp
  have "?F(DnMe p := None, DnQ \<mapsto> map DnMe (ab_dnq A) @ [DnMe p]) = bd_fam (bd_add_dn k p t A)"
    using p by (auto simp: fun_eq_iff bd_fam_def ran' split: bd_node.splits)
  moreover have "(\<Union>q \<in> insert p (ran (ab_dn A)). set (((ab_blks A)(p := [])) q)) = (\<Union>q \<in> ran (ab_dn A). set (ab_blks A q))"
    using p by (auto split: if_splits)
  moreover have "\<forall>q \<in> insert p (ran (ab_dn A)). \<forall>d \<in> set (((ab_dels A)(p := [])) q). d < bd_brk s \<and> del_blks s d \<noteq> None"
    using bd_dels[OF rel] by simp
  then have "\<forall>q \<in> insert p (ran (ab_dn A)). \<forall>d \<in> set (((ab_dels A)(p := [])) q). d < bd_brk s' \<and> del_blks s d \<noteq> None"
    if "bd_brk s \<le> bd_brk s'" for s' :: bd_index
    using that by (meson order_less_le_trans)
  ultimately show ?thesis
    using links bd_dnq[OF rel] bd_blks[OF rel] by (intro exI[of _ links]) (simp add: bd_queues_def ran')
qed

lemma dn_register_new_ok:
  assumes rel: "bd_rel cap dcap s A" and new: "ab_dn A k = None" and room: "card (dom (ab_dn A)) < dcap"
    and k: "length k < ID_LEN"
  shows "\<exists>s' p t. dn_register_new now k s = Some s' \<and> p \<notin> ran (ab_dn A) \<and> bd_rel cap dcap s' (bd_add_dn k p t A) \<and> blk_pool s' = blk_pool s \<and>
    ht_same (dn_htable s) (dn_htable s') \<and> ht_same (dn_timer_htable s) (dn_timer_htable s')"
proof -
  from room have "card (ran (ab_dn A)) < dcap" by (simp add: ht_rep_card_ran[OF bd_dn_ht[OF rel]])
  with mem_get0_ok[OF bd_dn_pool[OF rel], of dn_store0] obtain p m where
    p: "mem_get0 dn_store0 (dn_pool s) = Some (Some p, m)" "p \<notin> ran (ab_dn A)"
      "mb_data m = (mb_data (dn_pool s))(p := dn_store0)" "pool_state dcap m (insert p (ran (ab_dn A)))" by blast
  let ?f = "\<lambda>d. d\<lparr>dn_del_blk_num := 0, dn_id := k\<rparr>"
  let ?m = "m\<lparr>mb_data := (mb_data m)(p := ?f (mb_data m p))\<rparr>"
  have upd: "pool_upd p ?f m = Some ?m" by (rule pool_upd_used[OF p(4)]) simp
  have m: "pool_state dcap ?m (insert p (ran (ab_dn A)))" using p(4) by (simp add: pool_state_data)
  have dat: "mb_data ?m = (mb_data (dn_pool s))(p := \<lparr>dn_del_blk_num = 0, dn_id = k\<rparr>)"
    by (simp add: p(3) dn_store0_def)
  have at: "pool_at p ?m = Some \<lparr>dn_del_blk_num = 0, dn_id = k\<rparr>"
    using pool_at_used[OF m, of p] dat by simp
  from join_new_rep[OF bd_dn_ht[OF rel] p(2) new] obtain ht where
    ht: "dfs_hashtable_join p (link_make p k (length k) (dn_htable s)) = Some ht"
      "ht_rep length ht ((ab_dn A)(k \<mapsto> p))" "ht_same (dn_htable s) ht" by blast
  have "bd_brk s \<notin> ran (ab_tm A)" using bd_tm_ran[OF rel] by auto
  moreover have "ab_tm A k = None" using bd_tm_dom[OF rel] new by (metis domIff)
  ultimately obtain tht where
    tht: "dfs_hashtable_join (bd_brk s) (link_make (bd_brk s) k (length k) (dn_timer_htable s)) = Some tht"
      "ht_rep length tht ((ab_tm A)(k \<mapsto> bd_brk s))" "ht_same (dn_timer_htable s) tht"
    using join_new_rep[OF bd_tm_ht[OF rel]] by blast
  from bd_queues_new[OF rel new p(2)] obtain links where
    links: "queue_insert_tail DnQ (DnMe p) (queue_init (DnDel p) (queue_init (DnBlk p) (queue_init (DnMe p)
      (clear_links (DnMe p) (clear_links (DnBlk p) (clear_links (DnDel p) (bd_links s))))))) = Some links"
    and q: "\<And>s'. bd_links s' = links \<Longrightarrow> g_dn_n s' = g_dn_n s + 1 \<Longrightarrow> bd_brk s \<le> bd_brk s' \<Longrightarrow>
      del_blks s' = del_blks s \<Longrightarrow> bd_queues s' (bd_add_dn k p (bd_brk s) A)" by blast
  let ?s = "s\<lparr>dn_pool := ?m, dn_htable := ht, bd_links := links, g_dn_n := g_dn_n s + 1, bd_brk := bd_brk s + 1,
     dn_timer_htable := tht,
     dn_timers := (dn_timers s)(bd_brk s \<mapsto> \<lparr>dt_ev = event_timer_add now (dn_timeout s) event0, dt_dns = p\<rparr>)\<rparr>"
  have "dn_register_new now k s = Some ?s"
    using p(1) k ht(1) tht(1) links upd at
    by (simp add: dn_register_new_def dn_get0_def c_strcpy_def dn_timer_create_def Let_def)
  moreover have "dn_table dcap ?s (bd_add_dn k p (bd_brk s) A)"
    by (rule dn_table_new[OF _ new p(2) ht(2,3) m dat]) (use rel in \<open>simp_all add: bd_rel_def\<close>)
  moreover have "dn_timer_table ?s (bd_add_dn k p (bd_brk s) A)"
    by (rule dn_timer_table_new[OF _ new tht(2,3)]) (use rel in \<open>simp_all add: bd_rel_def\<close>)
  moreover have "bd_queues ?s (bd_add_dn k p (bd_brk s) A)" by (rule q) simp_all
  moreover have "blk_table cap ?s (ab_blk A)" using bd_blk[OF rel] by (simp add: blk_table_def)
  ultimately show ?thesis using p(2) ht(3) tht(3)
    by (intro exI[of _ ?s] exI[of _ p] exI[of _ "bd_brk s"]) (simp add: bd_rel_def)
qed

section \<open>Deleting a block\<close>

lemma ran_delete:
  fixes m :: "'a \<rightharpoonup> 'b"
  assumes "m k = Some p" "\<And>k'. m k' = Some p \<Longrightarrow> k' = k"
  shows "ran (m(k := None)) = ran m - {p}"
proof -
  have "bset n (\<lambda>_. 0 :: nat) 0 = ran n" for n :: "'a \<rightharpoonup> 'b" by (simp add: bset_def ran_def)
  then show ?thesis using bset_delete[of m k p "\<lambda>_. 0 :: nat" 0, OF assms] by simp
qed

text \<open>The record of a block that is removed from the table, from its pool and from its queue.\<close>

lemma bd_del_block:
  assumes rel: "bd_rel cap dcap s A" and b: "ab_blk A bid = Some b" and p: "p \<in> ran (ab_dn A)" "b \<in> set (ab_blks A p)"
  shows "\<exists>links ht pool. queue_remove (BlkDnMe b) (bd_links s) = Some links \<and>
    dfs_hashtable_remove_link b (blk_htable s) = Some (DFS_HASHTABLE_OK, ht) \<and> mem_put b (blk_pool s) = Some pool \<and>
    mb_data pool = mb_data (blk_pool s) \<and>
    bd_rel cap dcap (s\<lparr>bd_links := links, blk_htable := ht, blk_pool := pool\<rparr>)
      (A\<lparr>ab_blk := (ab_blk A)(bid := None), ab_blks := (ab_blks A)(p := remove1 b (ab_blks A p))\<rparr>)"
proof -
  note tab = bd_blk[OF rel]
  from tab have ht0: "ht_rep blk_klen (blk_htable s) (ab_blk A)" and pool0: "pool_state cap (blk_pool s) (ran (ab_blk A))"
    by (auto simp: blk_table_def)
  have bran: "b \<in> ran (ab_blk A)" using b by (rule ranI)
  from qfam_remove[OF bd_fam[OF rel], of "DnBlk p" "map BlkDnMe (ab_blks A p)" "BlkDnMe b"] p obtain links where
    links: "queue_remove (BlkDnMe b) (bd_links s) = Some links"
      "qfam links ((bd_fam A)(DnBlk p \<mapsto> remove1 (BlkDnMe b) (map BlkDnMe (ab_blks A p))))" by auto
  from remove_rep[OF ht0 b] obtain ht where ht: "dfs_hashtable_remove_link b (blk_htable s) = Some (DFS_HASHTABLE_OK, ht)"
    "ht_rep blk_klen ht ((ab_blk A)(bid := None))" "ht_same (blk_htable s) ht" by blast
  from mem_put_ok[OF pool0 bran] obtain pool where pool: "mem_put b (blk_pool s) = Some pool"
    "mb_data pool = mb_data (blk_pool s)" "pool_state cap pool (ran (ab_blk A) - {b})" by blast
  let ?s = "s\<lparr>bd_links := links, blk_htable := ht, blk_pool := pool\<rparr>"
  let ?A = "A\<lparr>ab_blk := (ab_blk A)(bid := None), ab_blks := (ab_blks A)(p := remove1 b (ab_blks A p))\<rparr>"
  have ran': "ran ((ab_blk A)(bid := None)) = ran (ab_blk A) - {b}"
    by (rule ran_delete[of "ab_blk A", OF b blk_table_inj[OF tab _ b]])
  have dist: "distinct (ab_blks A p)"
    using qfam_distinct[OF bd_fam[OF rel], of "DnBlk p"] p by (auto simp: distinct_map)
  have "qfam links (((bd_fam A)(DnBlk p \<mapsto> remove1 (BlkDnMe b) (map BlkDnMe (ab_blks A p))))(BlkFiMe b := None))"
    using links(2) by (rule qfam_forget)
  moreover have "remove1 (BlkDnMe b) (map BlkDnMe xs) = map BlkDnMe (remove1 b xs)" for xs
    by (induction xs) auto
  then have "((bd_fam A)(DnBlk p \<mapsto> remove1 (BlkDnMe b) (map BlkDnMe (ab_blks A p))))(BlkFiMe b := None) = bd_fam ?A"
    using p(1) by (auto simp: fun_eq_iff bd_fam_def ran' split: bd_node.splits)
  ultimately have fam: "qfam links (bd_fam ?A)" by simp
  have "(\<Union>q \<in> ran (ab_dn A). set (ab_blks ?A q)) = (\<Union>q \<in> ran (ab_dn A). set (ab_blks A q)) - {b}"
    using blk_unique[OF rel p(1) _ p(2)] dist by (auto split: if_splits)
  then have "bd_queues ?s ?A"
    using fam bd_dnq[OF rel] bd_dels[OF rel] bd_blks[OF rel] by (simp add: bd_queues_def ran')
  moreover have "blk_table cap ?s (ab_blk ?A)"
    using tab ht(2,3) pool(2,3) by (auto simp: blk_table_def ht_same_def ran')
  moreover have "dn_table dcap ?s ?A" "dn_timer_table ?s ?A"
    using rel by (simp_all add: bd_rel_def dn_table_def dn_timer_table_def)
  ultimately show ?thesis using links(1) ht(1) pool(1,2) by (auto simp: bd_rel_def)
qed

text \<open>The block numbers a data node has yet to be told to delete, oldest first.\<close>

definition pending :: "bd_index \<Rightarrow> bd_abs \<Rightarrow> bytes \<Rightarrow> u64 list" where
  "pending s A k = (case ab_dn A k of None \<Rightarrow> [] | Some p \<Rightarrow> map (\<lambda>d. the (del_blks s d)) (ab_dels A p))"

lemma pending_notify:
  assumes rel: "bd_rel cap dcap s A" and k: "ab_dn A k = Some p"
    and s': "del_blks s' = (del_blks s)(bd_brk s \<mapsto> bid)"
    and A': "ab_dn A' = ab_dn A" "ab_dels A' = (ab_dels A)(p := ab_dels A p @ [bd_brk s])"
  shows "pending s' A' = (pending s A)(k := pending s A k @ [bid])"
proof
  fix k'
  have old: "map (\<lambda>d. the (del_blks s' d)) (ab_dels A q) = map (\<lambda>d. the (del_blks s d)) (ab_dels A q)"
    if "q \<in> ran (ab_dn A)" for q
    using bd_dels[OF rel that] by (auto simp: s')
  show "pending s' A' k' = ((pending s A)(k := pending s A k @ [bid])) k'"
  proof (cases "k' = k")
    case True
    with old[OF dn_ran[OF k]] k show ?thesis by (simp add: pending_def A' s')
  next
    case False
    then have "ab_dn A k' \<noteq> Some p" using ht_rep_inj[OF bd_dn_ht[OF rel] k] by metis
    then show ?thesis using False old by (auto simp: pending_def A' split: option.splits dest: dn_ran)
  qed
qed

lemma notify_pending:
  assumes rel: "bd_rel cap dcap s A" and clash: "no_clash length (dn_htable s) k (dom (ab_dn A))"
  shows "\<exists>r s' A'. notify_dn_2_delete_blk bid k s = Some (r, s') \<and> bd_rel cap dcap s' A' \<and>
    ab_blk A' = ab_blk A \<and> ab_blks A' = ab_blks A \<and> ab_dn A' = ab_dn A \<and>
    blk_pool s' = blk_pool s \<and> blk_htable s' = blk_htable s \<and> dn_htable s' = dn_htable s \<and>
    dn_timer_htable s' = dn_timer_htable s \<and>
    pending s' A' = (if k \<in> dom (ab_dn A) then (pending s A)(k := pending s A k @ [bid]) else pending s A)"
proof (cases "ab_dn A k")
  case None
  then show ?thesis using get_dn_rel[OF rel clash] rel
    by (intro exI[of _ DFS_ERROR] exI[of _ s] exI[of _ A]) (simp add: notify_dn_2_delete_blk_def domIff)
next
  case (Some p)
  from notify_ok[OF rel Some clash] obtain links pool where
    n: "notify_dn_2_delete_blk bid k s = Some (DFS_OK, s\<lparr>bd_brk := bd_brk s + 1, bd_links := links, dn_pool := pool,
          del_blks := (del_blks s)(bd_brk s \<mapsto> bid)\<rparr>)" (is "_ = Some (_, ?s)")
      "bd_rel cap dcap (s\<lparr>bd_brk := bd_brk s + 1, bd_links := links, dn_pool := pool,
          del_blks := (del_blks s)(bd_brk s \<mapsto> bid)\<rparr>) (A\<lparr>ab_dels := (ab_dels A)(p := ab_dels A p @ [bd_brk s])\<rparr>)"
        (is "bd_rel _ _ _ ?A")
    by blast
  have "pending ?s ?A = (pending s A)(k := pending s A k @ [bid])"
    by (rule pending_notify[OF rel Some]) simp_all
  with n Some show ?thesis
    by (intro exI[of _ DFS_OK] exI[of _ ?s] exI[of _ ?A]) (simp add: domIff)
qed

lemma block_object_del_absent:
  "bd_rel cap dcap s A \<Longrightarrow> ab_blk A bid = None \<Longrightarrow> block_object_del bid s = Some (DFS_OK, s)"
  by (simp add: block_object_del_def get_blk_table[OF bd_blk])

lemma blk_holder:
  assumes rel: "bd_rel cap dcap s A" and b: "ab_blk A bid = Some b"
  obtains p where "p \<in> ran (ab_dn A)" "b \<in> set (ab_blks A p)"
  using bd_blks[OF rel] ranI[of "ab_blk A", OF b] by auto

lemma block_object_del_ok:
  assumes rel: "bd_rel cap dcap s A" and b: "ab_blk A bid = Some b" and ip: "b_dn_ip (mb_data (blk_pool s) b) = ip"
    and clash: "no_clash length (dn_htable s) ip (dom (ab_dn A))"
  shows "\<exists>s' A'. block_object_del bid s = Some (DFS_OK, s') \<and> bd_rel cap dcap s' A' \<and>
    ab_blk A' = (ab_blk A)(bid := None) \<and> ab_dn A' = ab_dn A \<and> dn_htable s' = dn_htable s \<and>
    mb_data (blk_pool s') = mb_data (blk_pool s) \<and> dn_timer_htable s' = dn_timer_htable s \<and>
    pending s' A' = (if ip \<in> dom (ab_dn A) then (pending s A)(ip := pending s A ip @ [bid]) else pending s A)"
proof -
  have at: "pool_at b (blk_pool s) = Some (mb_data (blk_pool s) b)"
    using bd_blk[OF rel] ranI[of "ab_blk A", OF b] unfolding blk_table_def by (intro pool_at_used) auto
  from blk_holder[OF rel b] obtain p where p: "p \<in> ran (ab_dn A)" "b \<in> set (ab_blks A p)" .
  from notify_pending[OF rel clash] obtain r s1 A1 where
    n: "notify_dn_2_delete_blk bid ip s = Some (r, s1)" "bd_rel cap dcap s1 A1"
      "ab_blk A1 = ab_blk A" "ab_blks A1 = ab_blks A" "ab_dn A1 = ab_dn A"
      "blk_pool s1 = blk_pool s" "blk_htable s1 = blk_htable s"
      "dn_htable s1 = dn_htable s" "dn_timer_htable s1 = dn_timer_htable s"
      "pending s1 A1 = (if ip \<in> dom (ab_dn A) then (pending s A)(ip := pending s A ip @ [bid]) else pending s A)" by blast
  have "ab_blk A1 bid = Some b" "p \<in> ran (ab_dn A1)" "b \<in> set (ab_blks A1 p)" using n b p by simp_all
  from bd_del_block[OF n(2) this] obtain links ht pool where
    d: "queue_remove (BlkDnMe b) (bd_links s1) = Some links"
      "dfs_hashtable_remove_link b (blk_htable s1) = Some (DFS_HASHTABLE_OK, ht)" "mem_put b (blk_pool s1) = Some pool"
      "mb_data pool = mb_data (blk_pool s1)"
      "bd_rel cap dcap (s1\<lparr>bd_links := links, blk_htable := ht, blk_pool := pool\<rparr>)
        (A1\<lparr>ab_blk := (ab_blk A1)(bid := None), ab_blks := (ab_blks A1)(p := remove1 b (ab_blks A1 p))\<rparr>)"
      (is "bd_rel _ _ ?s ?A") by blast
  have "block_object_del bid s = Some (DFS_OK, ?s)"
    using get_blk_table[OF bd_blk[OF rel]] b at ip n(1) d(1-3) by (simp add: block_object_del_def)
  moreover have "pending ?s ?A = pending s1 A1" by (simp add: pending_def fun_eq_iff split: option.split)
  ultimately show ?thesis using d(4,5) n(3,5-) by (intro exI[of _ ?s] exI[of _ ?A]) simp
qed

section \<open>The handlers\<close>

abbreviation id_ok :: "bytes \<Rightarrow> bd_index \<Rightarrow> bd_abs \<Rightarrow> bool" where
  "id_ok k s A \<equiv> no_clash length (dn_htable s) k (dom (ab_dn A)) \<and> no_clash length (dn_timer_htable s) k (dom (ab_dn A))"

lemma register_known:
  assumes rel: "bd_rel cap dcap s A" and k: "t_key task \<in> dom (ab_dn A)" and clash: "id_ok (t_key task) s A"
  shows "\<exists>tm. nn_dn_register now ns task s = Some (task\<lparr>t_ret := DFS_OK, t_data := TNamespace ns\<rparr>, s\<lparr>dn_timers := tm\<rparr>) \<and>
    bd_rel cap dcap (s\<lparr>dn_timers := tm\<rparr>) A"
proof -
  from k obtain p where p: "ab_dn A (t_key task) = Some p" by auto
  from dn_timer_update_ok[OF rel p] clash obtain tm where
    "dn_timer_update now p s = Some (s\<lparr>dn_timers := tm\<rparr>)" "bd_rel cap dcap (s\<lparr>dn_timers := tm\<rparr>) A" by blast
  moreover have "get_dn_store_obj (t_key task) s = Some (Some p)" using get_dn_rel[OF rel] clash p by simp
  ultimately show ?thesis by (intro exI[of _ tm]) (simp add: nn_dn_register_def)
qed

lemma register_unknown:
  assumes rel: "bd_rel cap dcap s A" and k: "t_key task \<notin> dom (ab_dn A)" and clash: "id_ok (t_key task) s A"
    and room: "card (dom (ab_dn A)) < dcap" "length (t_key task) < ID_LEN"
  shows "\<exists>s' p t. nn_dn_register now ns task s = Some (task\<lparr>t_ret := DFS_OK, t_data := TNamespace ns\<rparr>, s') \<and>
    p \<notin> ran (ab_dn A) \<and> bd_rel cap dcap s' (bd_add_dn (t_key task) p t A) \<and> blk_pool s' = blk_pool s \<and>
    ht_same (dn_htable s) (dn_htable s') \<and> ht_same (dn_timer_htable s) (dn_timer_htable s')"
proof -
  from k have new: "ab_dn A (t_key task) = None" by (simp add: domIff)
  from dn_register_new_ok[OF rel new room] obtain s' p t where
    "dn_register_new now (t_key task) s = Some s'" "p \<notin> ran (ab_dn A)"
    "bd_rel cap dcap s' (bd_add_dn (t_key task) p t A)" "blk_pool s' = blk_pool s" "ht_same (dn_htable s) (dn_htable s')"
    "ht_same (dn_timer_htable s) (dn_timer_htable s')" by blast
  moreover have "get_dn_store_obj (t_key task) s = Some None" using get_dn_rel[OF rel] clash new by simp
  ultimately show ?thesis
    by (intro exI[of _ s'] exI[of _ p] exI[of _ t]) (simp add: nn_dn_register_def)
qed

lemma pending_told:
  assumes rel: "bd_rel cap dcap s A" and k: "ab_dn A k = Some p"
    and s': "del_blks s' = del_blks s |` (- set (take n (ab_dels A p)))"
    and A': "ab_dn A' = ab_dn A" "ab_dels A' = (ab_dels A)(p := drop n (ab_dels A p))"
  shows "pending s' A' = (pending s A)(k := drop n (pending s A k))"
proof
  fix k'
  have keep: "map (\<lambda>d. the (del_blks s' d)) (ab_dels A' q) = map (\<lambda>d. the (del_blks s d)) (ab_dels A' q)"
    if "q \<in> ran (ab_dn A)" for q
  proof -
    have "distinct (ab_dels A p)"
      using qfam_distinct[OF bd_fam[OF rel], of "DnDel p"] dn_ran[OF k] by (auto simp: distinct_map)
    then have "set (take n (ab_dels A p)) \<inter> set (drop n (ab_dels A p)) = {}" by (simp add: set_take_disj_set_drop_if_distinct)
    moreover have "d \<notin> set (take n (ab_dels A p))" if "d \<in> set (ab_dels A q)" "q \<noteq> p" for d
      using bd_dels_unique[OF rel dn_ran[OF k] \<open>q \<in> ran (ab_dn A)\<close>, of d] that by (auto dest: in_set_takeD)
    ultimately have "d \<notin> set (take n (ab_dels A p))" if "d \<in> set (ab_dels A' q)" for d
      using that by (auto simp: A' split: if_splits)
    then show ?thesis by (simp add: s')
  qed
  show "pending s' A' k' = ((pending s A)(k := drop n (pending s A k))) k'"
  proof (cases "k' = k")
    case True
    with keep[OF dn_ran[OF k]] k show ?thesis by (simp add: pending_def A' drop_map)
  next
    case False
    then have "ab_dn A k' \<noteq> Some p" using ht_rep_inj[OF bd_dn_ht[OF rel] k] by metis
    then show ?thesis using False keep by (auto simp: pending_def A' split: option.splits dest: dn_ran)
  qed
qed

lemma heartbeat_ok:
  assumes rel: "bd_rel cap dcap s A" and k: "t_key task \<in> dom (ab_dn A)" and clash: "id_ok (t_key task) s A"
    and len: "length (pending s A (t_key task)) < 2 ^ 64"
  shows "\<exists>s' A'. nn_dn_heartbeat now task s = Some ((if pending s A (t_key task) = [] then task
        else task\<lparr>t_data := TBlkIds (take 5 (pending s A (t_key task)))\<rparr>)\<lparr>t_ret := DFS_OK\<rparr>, s') \<and>
    bd_rel cap dcap s' A' \<and> ab_blk A' = ab_blk A \<and> ab_dn A' = ab_dn A \<and> dn_htable s' = dn_htable s \<and>
    blk_pool s' = blk_pool s \<and> bd_brk s' = bd_brk s \<and> dn_timer_htable s' = dn_timer_htable s \<and>
    pending s' A' = (pending s A)(t_key task := drop 5 (pending s A (t_key task)))"
proof -
  let ?k = "t_key task" and ?ids = "pending s A (t_key task)"
  from k obtain p where p: "ab_dn A ?k = Some p" by auto
  from dn_timer_update_ok[OF rel p] clash obtain tm where
    t: "dn_timer_update now p s = Some (s\<lparr>dn_timers := tm\<rparr>)" "bd_rel cap dcap (s\<lparr>dn_timers := tm\<rparr>) A"
      (is "bd_rel _ _ ?s _") by blast
  note get = get_dn_rel[OF rel conjunct1[OF clash]]
  let ?n = "min 5 (length (ab_dels A p))"
  have ids: "?ids = map (\<lambda>d. the (del_blks s d)) (ab_dels A p)" by (simp add: pending_def p)
  have at: "pool_at p (dn_pool s) = Some \<lparr>dn_del_blk_num = of_nat (length ?ids), dn_id = ?k\<rparr>"
    using dn_at[OF rel p] by (simp add: ids)
  have num: "unat (of_nat (length ?ids) :: u64) = length ?ids" using len by (simp add: unsigned_of_nat take_bit_nat_eq_self_iff)
  from heartbeat_loop_ok[OF t(2) p, of ?n] obtain links pool where
    l: "heartbeat_loop ?n p ?s = Some (map (\<lambda>d. the (del_blks ?s d)) (take ?n (ab_dels A p)),
        told (take ?n (ab_dels A p)) links pool ?s)"
      "bd_rel cap dcap (told (take ?n (ab_dels A p)) links pool ?s) (A\<lparr>ab_dels := (ab_dels A)(p := drop ?n (ab_dels A p))\<rparr>)"
      (is "bd_rel _ _ ?s' ?A") by auto
  have pend0: "pending ?s A = pending s A" by (simp add: pending_def fun_eq_iff split: option.split)
  have pend: "pending ?s' ?A = (pending s A)(?k := drop 5 ?ids)"
  proof -
    have "pending ?s' ?A = (pending ?s A)(?k := drop ?n (pending ?s A ?k))"
      by (rule pending_told[OF t(2) p]) simp_all
    moreover have "drop ?n ?ids = drop 5 ?ids" by (simp add: ids min_def)
    ultimately show ?thesis by (simp add: pend0)
  qed
  show ?thesis
  proof (cases "?ids = []")
    case True
    then have "(pending s A)(?k := drop 5 ?ids) = pending s A" by (simp add: fun_upd_idem)
    then show ?thesis using True get p t at pend0
      by (intro exI[of _ ?s] exI[of _ A]) (simp add: nn_dn_heartbeat_def)
  next
    case False
    have "nn_dn_heartbeat now task s = Some (task\<lparr>t_data := TBlkIds (take 5 ?ids)\<rparr>\<lparr>t_ret := DFS_OK\<rparr>, ?s')"
    proof -
      have "0 < (of_nat (length ?ids) :: u64)" using False num by (simp add: word_less_nat_alt)
      moreover have n: "?n = (if of_nat DELETING_BLK_FOR_ONCE < (of_nat (length ?ids) :: u64) then DELETING_BLK_FOR_ONCE
          else unat (of_nat (length ?ids) :: u64))"
        using num by (simp add: word_less_nat_alt dfs_code ids)
      note l1 = l(1)[unfolded n]
      moreover have "map (\<lambda>d. the (del_blks ?s d)) (take ?n (ab_dels A p)) = take 5 ?ids"
        by (simp add: ids take_map min_def)
      ultimately show ?thesis using get p t(1) at l1 by (simp add: nn_dn_heartbeat_def Let_def n split: if_splits)
    qed
    with False l(2) pend show ?thesis by (intro exI[of _ ?s'] exI[of _ ?A]) simp
  qed
qed

lemma heartbeat_unknown:
  assumes "bd_rel cap dcap s A" "t_key task \<notin> dom (ab_dn A)" "id_ok (t_key task) s A"
  shows "nn_dn_heartbeat now task s = Some (task\<lparr>t_ret := DFS_ERROR\<rparr>, s)"
  using get_dn_rel[OF assms(1)] assms(2,3) by (simp add: nn_dn_heartbeat_def domIff)

lemma report_ok:
  assumes rel: "bd_rel cap dcap s A" and k: "t_key task \<in> dom (ab_dn A)" and clash: "id_ok (t_key task) s A"
    and room: "card (dom (ab_blk A)) < cap" and ip: "length ip < 32" and d: "t_data task = TReport bid sz ip"
    and new: "ab_blk A bid = None"
  shows "\<exists>p b s'. nn_dn_recv_blk_report task s = Some (task\<lparr>t_data := TNull, t_ret := DFS_OK\<rparr>, s') \<and>
    nn_dn_blk_report task s = Some (task\<lparr>t_data := TNull, t_ret := DFS_OK\<rparr>, s') \<and>
    mb_data (blk_pool s') = (mb_data (blk_pool s))(b := \<lparr>b_id = bid, b_size = sz, b_dn_ip = ip\<rparr>) \<and> b \<notin> ran (ab_blk A) \<and>
    bd_rel cap dcap s' (A\<lparr>ab_blk := (ab_blk A)(bid \<mapsto> b), ab_blks := (ab_blks A)(p := ab_blks A p @ [b])\<rparr>) \<and>
    ab_dn A (t_key task) = Some p"
proof -
  from k obtain p where p: "ab_dn A (t_key task) = Some p" by auto
  from report_add_ok[OF rel p new room ip] obtain b s' where
    "report_add bid sz ip p s = Some s'" "b \<notin> ran (ab_blk A)"
    "mb_data (blk_pool s') = (mb_data (blk_pool s))(b := \<lparr>b_id = bid, b_size = sz, b_dn_ip = ip\<rparr>)"
    "bd_rel cap dcap s' (A\<lparr>ab_blk := (ab_blk A)(bid \<mapsto> b), ab_blks := (ab_blks A)(p := ab_blks A p @ [b])\<rparr>)" by blast
  with p new d clash get_dn_rel[OF rel] get_blk_table[OF bd_blk[OF rel]] show ?thesis
    by (intro exI[of _ p] exI[of _ b] exI[of _ s'])
      (simp add: nn_dn_recv_blk_report_def nn_dn_blk_report_def)
qed

lemma blk_report_known:
  assumes rel: "bd_rel cap dcap s A" and k: "t_key task \<in> dom (ab_dn A)" and clash: "id_ok (t_key task) s A"
    and d: "t_data task = TReport bid sz ip" and b: "bid \<in> dom (ab_blk A)"
  shows "nn_dn_blk_report task s = Some (task\<lparr>t_data := TNull, t_ret := DFS_OK\<rparr>, s)"
  using assms(2-) get_dn_rel[OF rel] get_blk_table[OF bd_blk[OF rel]] by (auto simp: nn_dn_blk_report_def)

lemma report_unknown:
  assumes "bd_rel cap dcap s A" "t_key task \<notin> dom (ab_dn A)" "id_ok (t_key task) s A" "t_data task = TReport bid sz ip"
  shows "nn_dn_recv_blk_report task s = Some (task\<lparr>t_data := TNull, t_ret := DFS_ERROR\<rparr>, s)"
    "nn_dn_blk_report task s = Some (task\<lparr>t_data := TNull, t_ret := DFS_ERROR\<rparr>, s)"
  using get_dn_rel[OF assms(1)] assms(2-)
  by (simp_all add: nn_dn_recv_blk_report_def nn_dn_blk_report_def domIff)

lemma report_add_full:
  "bd_rel cap dcap s A \<Longrightarrow> card (dom (ab_blk A)) = cap \<Longrightarrow> report_add bid sz ip p s = None"
  by (simp add: report_add_def add_block_full[OF bd_blk])

lemma generate_dns_ok:
  assumes rel: "bd_rel cap dcap s A"
  shows "generate_dns rep resp s = (case ab_dnq A of
      [] \<Rightarrow> Some (DFS_ERROR, resp)
    | p # _ \<Rightarrow> Some (DFS_OK, resp\<lparr>r_dn_num := 1, r_dn_ips := [dn_id (mb_data (dn_pool s) p), [], []]\<rparr>))"
proof (cases "ab_dnq A")
  case Nil
  then show ?thesis using bd_dnq[OF rel] by (simp add: generate_dns_def)
next
  case (Cons p ps)
  then have "queue_head DnQ (bd_links s) = Some (DnMe p)"
    using qfam_head[OF bd_fam[OF rel], of DnQ] by (simp add: queue_head_def)
  moreover have "p \<in> ran (ab_dn A)" using bd_dnq(1)[OF rel] Cons by auto
  ultimately show ?thesis
    using Cons bd_dnq(2)[OF rel] pool_at_used[OF bd_dn_pool[OF rel]] by (simp add: generate_dns_def)
qed

section \<open>The death of a data node\<close>

text \<open>
  The record of a dead data node is freed without a look at its queues, so the blocks and the
  deletions on them stay linked to the freed record. The index survives the death of a node with
  empty queues.
\<close>

lemma dn_timeout_ok:
  assumes rel: "bd_rel cap dcap s A" and t: "ab_tm A k = Some t" and p: "ab_dn A k = Some p"
    and e: "ab_blks A p = []" "ab_dels A p = []"
  shows "\<exists>s'. dn_timeout_handler t s = Some s' \<and> blk_pool s' = blk_pool s \<and>
    bd_rel cap dcap s' (A\<lparr>ab_dn := (ab_dn A)(k := None), ab_tm := (ab_tm A)(k := None), ab_dnq := remove1 p (ab_dnq A)\<rparr>)"
proof -
  note inj = ht_rep_inj[OF bd_dn_ht[OF rel] _ p]
  note ran' = ran_delete[of "ab_dn A", OF p inj]
  have pr: "p \<in> ran (ab_dn A)" "p \<in> set (ab_dnq A)" using dn_ran[of A, OF p] bd_dnq(1)[OF rel] by auto
  from bd_timer[OF rel t] p obtain x where x: "dn_timers s t = Some x" "dt_dns x = p" by auto
  from remove_rep[OF bd_tm_ht[OF rel] t] obtain tht where
    tht: "dfs_hashtable_remove_link t (dn_timer_htable s) = Some (DFS_HASHTABLE_OK, tht)"
      "ht_rep length tht ((ab_tm A)(k := None))" "ht_same (dn_timer_htable s) tht" by blast
  from remove_rep[OF bd_dn_ht[OF rel] p] obtain ht where
    ht: "dfs_hashtable_remove_link p (dn_htable s) = Some (DFS_HASHTABLE_OK, ht)"
      "ht_rep length ht ((ab_dn A)(k := None))" "ht_same (dn_htable s) ht" by blast
  from mem_put_ok[OF bd_dn_pool[OF rel] pr(1)] obtain pool where
    pool: "mem_put p (dn_pool s) = Some pool" "mb_data pool = mb_data (dn_pool s)" "pool_state dcap pool (ran (ab_dn A) - {p})" by blast
  from qfam_remove[OF bd_fam[OF rel], of DnQ "map DnMe (ab_dnq A)" "DnMe p"] pr(2) obtain links where
    links: "queue_remove (DnMe p) (bd_links s) = Some links"
      "qfam links ((bd_fam A)(DnQ \<mapsto> remove1 (DnMe p) (map DnMe (ab_dnq A))))" by auto
  let ?A = "A\<lparr>ab_dn := (ab_dn A)(k := None), ab_tm := (ab_tm A)(k := None), ab_dnq := remove1 p (ab_dnq A)\<rparr>"
  let ?s = "s\<lparr>dn_timer_htable := tht, dn_htable := ht, bd_links := links, g_dn_n := g_dn_n s - 1,
     dn_pool := pool, dn_timers := (dn_timers s)(t := None)\<rparr>"
  have "qfam links (((bd_fam A)(DnQ \<mapsto> remove1 (DnMe p) (map DnMe (ab_dnq A))))(DnBlk p := None, DnDel p := None))"
    by (intro qfam_forget links(2))
  moreover have "remove1 (DnMe p) (map DnMe xs) = map DnMe (remove1 p xs)" for xs by (induction xs) auto
  then have "((bd_fam A)(DnQ \<mapsto> remove1 (DnMe p) (map DnMe (ab_dnq A))))(DnBlk p := None, DnDel p := None) = bd_fam ?A"
    using ran' by (auto simp: fun_eq_iff bd_fam_def split: bd_node.splits)
  ultimately have fam: "qfam links (bd_fam ?A)" by simp
  have dist: "distinct (ab_dnq A)" using qfam_distinct[OF bd_fam[OF rel], of DnQ] by (auto simp: distinct_map)
  have "int (length (ab_dnq A)) - 1 = int (length (remove1 p (ab_dnq A)))"
    using length_pos_if_in_set[OF pr(2)] pr(2) by (simp add: length_remove1 of_nat_diff Suc_leI)
  then have "bd_queues ?s ?A"
    using fam bd_dnq[OF rel] bd_blks[OF rel] bd_dels[OF rel] e dist by (auto simp: bd_queues_def ran')
  moreover have "dn_table dcap ?s ?A" using bd_dn_data[OF rel] bd_cmp[OF rel] ht(2,3) pool(2,3)
    by (auto simp: dn_table_def ht_same_def ran')
  moreover have "dn_timer_table ?s ?A"
  proof -
    have "dn_timers ?s t' = dn_timers s t'" if "((ab_tm A)(k := None)) k' = Some t'" for k' t'
      using that ht_rep_inj[OF bd_tm_ht[OF rel] t, of k'] by (auto split: if_splits)
    then have "\<exists>y. dn_timers ?s t' = Some y \<and> ((ab_dn A)(k := None)) k' = Some (dt_dns y)"
      if "((ab_tm A)(k := None)) k' = Some t'" for k' t'
      using that bd_timer[OF rel, of k' t'] by (auto split: if_splits)
    moreover have "ran ((ab_tm A)(k := None)) \<subseteq> {..<bd_brk s}"
      using bd_tm_ran[OF rel] by (auto simp: ran_def split: if_splits)
    ultimately show ?thesis using bd_tm_dom[OF rel] bd_cmp[OF rel] tht(2,3) by (simp add: dn_timer_table_def ht_same_def)
  qed
  moreover have "blk_table cap ?s (ab_blk ?A)" using bd_blk[OF rel] by (simp add: blk_table_def)
  moreover have "dn_timeout_handler t s = Some ?s" using x tht(1) ht(1) links(1) pool(1) by (simp add: dn_timeout_handler_def Let_def)
  ultimately show ?thesis by (intro exI[of _ ?s]) (simp add: bd_rel_def)
qed

section \<open>The start\<close>

definition bd_abs0 :: bd_abs where
  "bd_abs0 = \<lparr>ab_blk = Map.empty, ab_dn = Map.empty, ab_tm = Map.empty, ab_dnq = [],
     ab_blks = (\<lambda>_. []), ab_dels = (\<lambda>_. [])\<rparr>"

lemma bd_fam0: "bd_fam bd_abs0 = [DnQ \<mapsto> []]"
  by (auto simp: fun_eq_iff bd_fam_def bd_abs0_def split: bd_node.splits)

lemma dn_init_ok:
  assumes ok: "\<forall>r. ok r" and s: "blk_table cap s Map.empty"
  obtains dcap s' where "DN_NUM_IN_CLUSTER \<le> dcap" "dcap < prime_bound"
    "nn_dn_index_worker_init mem ok (True, True) tmo s = Some (DFS_OK, s')" "bd_rel cap dcap s' bd_abs0"
    "uid_sequence s' = uid_sequence s"
proof -
  have "DN_NUM_IN_CLUSTER \<le> 5147" "(5147 :: nat) < prime_bound" by (simp_all add: dfs_code prime_bound_def)
  from find_prime_known[OF prime_5147 this] obtain dcap where
    cap: "dfs_math_find_prime DN_NUM_IN_CLUSTER = Some dcap" "prime_nat dcap" "DN_NUM_IN_CLUSTER \<le> dcap" "dcap < prime_bound" .
  from cache_mgmt_create_ok[OF ok cap(2,4), of dn_store0 dn_hash_keycmp dfs_hashtable_hash_low mem length] obtain pool ht where
    ht: "dn_cache_mgmt_create mem ok dcap {} = Some (Some (pool, ht), {RMgmt, RMem, RAllocator, RMblks})"
      "pool_state dcap pool {}" "ht_rep length ht Map.empty" "ht_cmp ht = dn_hash_keycmp"
    unfolding dn_cache_mgmt_create_def by blast
  obtain tht where tht: "dfs_hashtable_create False (Some mem) True dn_hash_keycmp DN_NUM_IN_CLUSTER dn_timer_hash = Some (Some tht)"
    "ht_rep length tht Map.empty" "ht_cmp tht = dn_hash_keycmp"
    using cap(1) ht_rep_empty[of "mem\<lparr>ht_size := dcap, ht_buckets := \<lambda>_. None, ht_cmp := dn_hash_keycmp,
      ht_hash := dn_timer_hash, ht_count := 0\<rparr>" length]
    by (simp add: dfs_hashtable_create_def dfs_hashtable_init_def dfs_code)
  let ?s = "s\<lparr>dn_pool := pool, dn_htable := ht, dn_timer_htable := tht, dn_timeout := tmo * 1000,
      bd_links := queue_init DnQ (bd_links s), g_dn_n := 0\<rparr>"
  have "qfam (bd_links s) (\<lambda>_. None)" by (simp add: qfam_def in_queue_def)
  then have "qfam (queue_init DnQ (bd_links s)) ((\<lambda>_. None)(DnQ \<mapsto> []))"
    by (rule qfam_init) (auto simp: in_queue_def)
  then have "bd_rel cap dcap ?s bd_abs0"
    using s ht tht(2,3) by (simp add: bd_rel_defs bd_fam0, simp add: bd_abs0_def blk_table_def)
  moreover have "nn_dn_index_worker_init mem ok (True, True) tmo s = Some (DFS_OK, ?s)"
    using cap(1) ht(1) tht(1)
    by (simp add: nn_dn_index_worker_init_def dn_cache_mgmt_new_init_def dn_cache_mgmt_timer_new_def dfs_code)
  ultimately show ?thesis using that cap by simp
qed

end
