(* ===== verification/Nn_Dn_Runs.thy ===== *)
theory Nn_Dn_Runs
  imports Nn_Dn_Index
begin

text \<open>
  Runs of the block and data node index: any interleaving of registrations, heartbeats,
  reports, deletions and timeouts of a cluster, from the state the two start functions build.
  Every handler returns in every state such a run reaches, the deletions asked for are told to
  their data node in order and exactly once, and a registered data node can be given new blocks.
\<close>

section \<open>Runs\<close>

text \<open>
  The identifiers of a cluster are C strings that fit the records, none a prefix of another
  one; there are at most as many as the index is made for.
\<close>

definition cluster :: "bytes set \<Rightarrow> bool" where
  "cluster ids \<longleftrightarrow> finite ids \<and> card ids \<le> DN_NUM_IN_CLUSTER \<and> (\<forall>k \<in> ids. cstring k \<and> length k < ID_LEN) \<and>
     (\<forall>k \<in> ids. \<forall>k' \<in> ids. prefix k k' \<longrightarrow> k = k')"

text \<open>
  The steps of the block and data node index: a handler answers a task, a block is deleted, a
  data node dies. A block is reported as received once. Fewer than \<open>2 ^ 64\<close> deletions have been
  allocated, so the counter of a data node does not wrap around. A data node may only die when no
  block is held by it and no deletion is pending.
\<close>

inductive bd_step :: "bytes set \<Rightarrow> bd_index \<Rightarrow> bd_index \<Rightarrow> bool" for ids where
  register: "t_key task \<in> ids \<Longrightarrow> nn_dn_register now ns task s = Some (r, s') \<Longrightarrow> bd_step ids s s'"
| heartbeat: "t_key task \<in> ids \<Longrightarrow> bd_brk s < 2 ^ 64 \<Longrightarrow> nn_dn_heartbeat now task s = Some (r, s') \<Longrightarrow> bd_step ids s s'"
| recv_report: "t_key task \<in> ids \<Longrightarrow> t_data task = TReport bid sz ip \<Longrightarrow> ip \<in> ids \<Longrightarrow>
    get_blk_store_obj bid s = Some None \<Longrightarrow> nn_dn_recv_blk_report task s = Some (r, s') \<Longrightarrow> bd_step ids s s'"
| blk_report: "t_key task \<in> ids \<Longrightarrow> t_data task = TReport bid sz ip \<Longrightarrow> ip \<in> ids \<Longrightarrow>
    nn_dn_blk_report task s = Some (r, s') \<Longrightarrow> bd_step ids s s'"
| delete: "block_object_del bid s = Some (rc, s') \<Longrightarrow> bd_step ids s s'"
| timeout: "k \<in> ids \<Longrightarrow> dfs_hashtable_lookup (dn_timer_htable s) k (length k) = Some (Some dt) \<Longrightarrow>
    get_dn_store_obj k s = Some (Some dns) \<Longrightarrow> queue_empty (DnBlk dns) (bd_links s) \<Longrightarrow>
    queue_empty (DnDel dns) (bd_links s) \<Longrightarrow> dn_timeout_handler dt s = Some s' \<Longrightarrow> bd_step ids s s'"

text \<open>The invariant of the runs: the index represents some tables and queues over the identifiers.\<close>

definition bd_inv :: "bytes set \<Rightarrow> nat \<Rightarrow> nat \<Rightarrow> bd_index \<Rightarrow> bd_abs \<Rightarrow> bool" where
  "bd_inv ids cap dcap s A \<longleftrightarrow> bd_rel cap dcap s A \<and> dom (ab_dn A) \<subseteq> ids \<and>
     (\<forall>b \<in> ran (ab_blk A). b_dn_ip (mb_data (blk_pool s) b) \<in> ids)"

lemma cluster_id_ok:
  assumes "cluster ids" "bd_rel cap dcap s A" "dom (ab_dn A) \<subseteq> ids" "k \<in> ids"
  shows "id_ok k s A"
proof -
  have eq: "dn_hash_keycmp = string_strncmp" by (simp add: fun_eq_iff dn_hash_keycmp_def)
  have "cstring k" "\<forall>k' \<in> dom (ab_dn A). cstring k'" "\<forall>k' \<in> dom (ab_dn A). k' \<noteq> k \<longrightarrow> \<not> prefix k k'"
    using assms(1,3,4) by (auto simp: cluster_def)
  then show ?thesis using bd_cmp[OF assms(2)] by (simp add: strncmp_no_clash eq)
qed

lemma bd_register_inv:
  assumes cl: "cluster ids" and inv: "bd_inv ids cap dcap s A" and k: "t_key task \<in> ids" and cap: "DN_NUM_IN_CLUSTER \<le> dcap"
  shows "\<exists>s' A'. nn_dn_register now ns task s = Some (task\<lparr>t_ret := DFS_OK, t_data := TNamespace ns\<rparr>, s') \<and>
    bd_inv ids cap dcap s' A' \<and> dom (ab_dn A') = insert (t_key task) (dom (ab_dn A))"
proof -
  from inv have rel: "bd_rel cap dcap s A" and sub: "dom (ab_dn A) \<subseteq> ids"
    and ips: "\<forall>b \<in> ran (ab_blk A). b_dn_ip (mb_data (blk_pool s) b) \<in> ids" by (auto simp: bd_inv_def)
  note ok = cluster_id_ok[OF cl rel sub k]
  show ?thesis
  proof (cases "t_key task \<in> dom (ab_dn A)")
    case True
    from register_known[OF rel True ok, of now ns] obtain tm where
      t: "nn_dn_register now ns task s = Some (task\<lparr>t_ret := DFS_OK, t_data := TNamespace ns\<rparr>, s\<lparr>dn_timers := tm\<rparr>)"
      "bd_rel cap dcap (s\<lparr>dn_timers := tm\<rparr>) A" by blast
    then show ?thesis using True sub ips
      by (intro exI[of _ "s\<lparr>dn_timers := tm\<rparr>"] exI[of _ A]) (auto simp: bd_inv_def)
  next
    case False
    have "card (insert (t_key task) (dom (ab_dn A))) \<le> card ids"
      using cl k sub by (intro card_mono) (auto simp: cluster_def)
    moreover have "finite (dom (ab_dn A))" using sub cl by (auto simp: cluster_def intro: finite_subset)
    ultimately have "card (dom (ab_dn A)) < dcap" "length (t_key task) < ID_LEN"
      using False cl cap k by (auto simp: cluster_def)
    from register_unknown[OF rel False ok this, of now ns] obtain s' p t where
      "nn_dn_register now ns task s = Some (task\<lparr>t_ret := DFS_OK, t_data := TNamespace ns\<rparr>, s')"
      "bd_rel cap dcap s' (bd_add_dn (t_key task) p t A)" "blk_pool s' = blk_pool s" by blast
    then show ?thesis using sub ips k
      by (intro exI[of _ s'] exI[of _ "bd_add_dn (t_key task) p t A"]) (auto simp: bd_inv_def)
  qed
qed

lemma pending_brk: "bd_rel cap dcap s A \<Longrightarrow> length (pending s A k) \<le> bd_brk s"
proof (cases "ab_dn A k")
  case (Some p)
  assume rel: "bd_rel cap dcap s A"
  note p = dn_ran[of A, OF Some]
  have "distinct (ab_dels A p)" using qfam_distinct[OF bd_fam[OF rel], of "DnDel p"] p by (auto simp: distinct_map)
  then have "length (ab_dels A p) = card (set (ab_dels A p))" by (simp add: distinct_card)
  also have "\<dots> \<le> card {..<bd_brk s}" using bd_dels[OF rel p] by (intro card_mono) auto
  finally show ?thesis by (simp add: pending_def Some)
qed (simp add: pending_def)

lemma bd_heartbeat_inv:
  assumes cl: "cluster ids" and inv: "bd_inv ids cap dcap s A" and k: "t_key task \<in> ids"
    and len: "bd_brk s < 2 ^ 64"
  shows "\<exists>r s' A'. nn_dn_heartbeat now task s = Some (r, s') \<and> bd_inv ids cap dcap s' A' \<and> ab_dn A' = ab_dn A"
proof -
  from inv have rel: "bd_rel cap dcap s A" and sub: "dom (ab_dn A) \<subseteq> ids"
    and ips: "\<forall>b \<in> ran (ab_blk A). b_dn_ip (mb_data (blk_pool s) b) \<in> ids" by (auto simp: bd_inv_def)
  note ok = cluster_id_ok[OF cl rel sub k]
  show ?thesis
  proof (cases "t_key task \<in> dom (ab_dn A)")
    case True
    have "length (pending s A (t_key task)) < 2 ^ 64" using pending_brk[OF rel] len by (rule order_le_less_trans)
    from heartbeat_ok[OF rel True ok this, of now] obtain r s' A' where
      "nn_dn_heartbeat now task s = Some (r, s')"
      "bd_rel cap dcap s' A'" "ab_blk A' = ab_blk A" "ab_dn A' = ab_dn A" "blk_pool s' = blk_pool s" by blast
    then show ?thesis using sub ips by (intro exI[of _ r] exI[of _ s'] exI[of _ A']) (simp add: bd_inv_def)
  next
    case False
    then show ?thesis using heartbeat_unknown[OF rel False ok] inv by auto
  qed
qed

text \<open>The reports: with room in the pool they return, with a full pool a new block does not.\<close>

lemma bd_report_inv:
  assumes cl: "cluster ids" and inv: "bd_inv ids cap dcap s A" and k: "t_key task \<in> ids" "ip \<in> ids"
    and d: "t_data task = TReport bid sz ip" and room: "card (dom (ab_blk A)) < cap"
  shows "\<exists>r s' A'. nn_dn_blk_report task s = Some (r, s') \<and> bd_inv ids cap dcap s' A' \<and>
    (ab_blk A bid = None \<longrightarrow> nn_dn_recv_blk_report task s = Some (r, s'))"
proof -
  from inv have rel: "bd_rel cap dcap s A" and sub: "dom (ab_dn A) \<subseteq> ids"
    and ips: "\<forall>b \<in> ran (ab_blk A). b_dn_ip (mb_data (blk_pool s) b) \<in> ids" by (auto simp: bd_inv_def)
  note ok = cluster_id_ok[OF cl rel sub k(1)]
  have ip: "length ip < 32" using cl k(2) by (auto simp: cluster_def dfs_code)
  consider (unknown) "t_key task \<notin> dom (ab_dn A)" | (known) "t_key task \<in> dom (ab_dn A)" "bid \<in> dom (ab_blk A)"
    | (new) "t_key task \<in> dom (ab_dn A)" "ab_blk A bid = None" by (auto simp: domIff)
  then show ?thesis
  proof cases
    case unknown
    then show ?thesis using report_unknown[OF rel _ ok d] inv by auto
  next
    case known
    then show ?thesis using blk_report_known[OF rel _ ok d] inv by (auto simp: domIff)
  next
    case new
    from report_ok[OF rel new(1) ok room ip d new(2)] obtain p b s' r where
      "nn_dn_recv_blk_report task s = Some (r, s')" "nn_dn_blk_report task s = Some (r, s')"
      "mb_data (blk_pool s') = (mb_data (blk_pool s))(b := \<lparr>b_id = bid, b_size = sz, b_dn_ip = ip\<rparr>)" "b \<notin> ran (ab_blk A)"
      "bd_rel cap dcap s' (A\<lparr>ab_blk := (ab_blk A)(bid \<mapsto> b), ab_blks := (ab_blks A)(p := ab_blks A p @ [b])\<rparr>)" (is "bd_rel _ _ _ ?A")
      by blast
    then show ?thesis using sub ips k(2) new(2)
      by (intro exI[of _ r] exI[of _ s'] exI[of _ ?A]) (auto simp: bd_inv_def)
  qed
qed

lemma bd_report_full:
  assumes cl: "cluster ids" and inv: "bd_inv ids cap dcap s A" and k: "t_key task \<in> ids"
    and d: "t_data task = TReport bid sz ip" and full: "card (dom (ab_blk A)) = cap"
    and h: "nn_dn_blk_report task s = Some (r, s') \<or> nn_dn_recv_blk_report task s = Some (r, s')"
  shows "s' = s"
proof -
  from inv have rel: "bd_rel cap dcap s A" and sub: "dom (ab_dn A) \<subseteq> ids" by (auto simp: bd_inv_def)
  show ?thesis
    using h get_dn_rel[OF rel conjunct1[OF cluster_id_ok[OF cl rel sub k]]] get_blk_table[OF bd_blk[OF rel]]
      report_add_full[OF rel full]
    by (auto simp: nn_dn_blk_report_def nn_dn_recv_blk_report_def d split: option.splits)
qed

lemma bd_delete_inv:
  assumes cl: "cluster ids" and inv: "bd_inv ids cap dcap s A"
  shows "\<exists>s' A'. block_object_del bid s = Some (DFS_OK, s') \<and> bd_inv ids cap dcap s' A' \<and> ab_dn A' = ab_dn A \<and>
    ab_blk A' = (ab_blk A)(bid := None)"
proof -
  from inv have rel: "bd_rel cap dcap s A" and sub: "dom (ab_dn A) \<subseteq> ids"
    and ips: "\<forall>b \<in> ran (ab_blk A). b_dn_ip (mb_data (blk_pool s) b) \<in> ids" by (auto simp: bd_inv_def)
  show ?thesis
  proof (cases "ab_blk A bid")
    case None
    then show ?thesis using block_object_del_absent[OF rel] inv by (auto simp: fun_upd_idem)
  next
    case (Some b)
    then have "b_dn_ip (mb_data (blk_pool s) b) \<in> ids" using ips by (auto simp: ran_def)
    note clash = conjunct1[OF cluster_id_ok[OF cl rel sub this]]
    from block_object_del_ok[OF rel Some refl clash] obtain s' A' where
      "block_object_del bid s = Some (DFS_OK, s')" "bd_rel cap dcap s' A'" "ab_blk A' = (ab_blk A)(bid := None)"
      "ab_dn A' = ab_dn A" "mb_data (blk_pool s') = mb_data (blk_pool s)" by blast
    moreover have "ran ((ab_blk A)(bid := None)) \<subseteq> ran (ab_blk A)" by (auto simp: ran_def split: if_splits)
    ultimately show ?thesis using sub ips by (intro exI[of _ s'] exI[of _ A']) (auto simp: bd_inv_def)
  qed
qed

lemma bd_timeout_inv:
  assumes cl: "cluster ids" and inv: "bd_inv ids cap dcap s A" and k: "k \<in> ids"
    and t: "dfs_hashtable_lookup (dn_timer_htable s) k (length k) = Some (Some dt)"
    and p: "get_dn_store_obj k s = Some (Some dns)"
    and e: "queue_empty (DnBlk dns) (bd_links s)" "queue_empty (DnDel dns) (bd_links s)"
  shows "\<exists>s' A'. dn_timeout_handler dt s = Some s' \<and> bd_inv ids cap dcap s' A'"
proof -
  from inv have rel: "bd_rel cap dcap s A" and sub: "dom (ab_dn A) \<subseteq> ids"
    and ips: "\<forall>b \<in> ran (ab_blk A). b_dn_ip (mb_data (blk_pool s) b) \<in> ids" by (auto simp: bd_inv_def)
  note ok = cluster_id_ok[OF cl rel sub k]
  have dn: "ab_dn A k = Some dns" using p get_dn_rel[OF rel] ok by simp
  have tm: "ab_tm A k = Some dt" using t lookup_exact[OF bd_tm_ht[OF rel], of k] ok bd_tm_dom[OF rel] by simp
  have "ab_blks A dns = []" "ab_dels A dns = []"
    using e qfam_empty[OF bd_fam[OF rel], of "DnBlk dns"] qfam_empty[OF bd_fam[OF rel], of "DnDel dns"] dn_ran[of A, OF dn]
    by simp_all
  from dn_timeout_ok[OF rel tm dn this] obtain s' where
    "dn_timeout_handler dt s = Some s'" "blk_pool s' = blk_pool s"
    "bd_rel cap dcap s' (A\<lparr>ab_dn := (ab_dn A)(k := None), ab_tm := (ab_tm A)(k := None), ab_dnq := remove1 dns (ab_dnq A)\<rparr>)"
      (is "bd_rel _ _ _ ?A") by blast
  then show ?thesis using sub ips by (intro exI[of _ s'] exI[of _ ?A]) (auto simp: bd_inv_def)
qed

lemma blk_room: "bd_inv ids cap dcap s A \<Longrightarrow> card (dom (ab_blk A)) \<le> cap"
proof -
  assume "bd_inv ids cap dcap s A"
  then have tab: "blk_table cap s (ab_blk A)" by (simp add: bd_inv_def bd_rel_def)
  then have "ran (ab_blk A) \<subseteq> {..<cap}" by (simp add: blk_table_def pool_state_def)
  from card_mono[OF _ this] show ?thesis by (simp add: blk_table_card[OF tab])
qed

lemma bd_report_cases:
  assumes "cluster ids" "bd_inv ids cap dcap s A" "t_key task \<in> ids" "t_data task = TReport bid sz ip" "ip \<in> ids"
    and "nn_dn_blk_report task s = Some (r, s') \<or> get_blk_store_obj bid s = Some None \<and> nn_dn_recv_blk_report task s = Some (r, s')"
  shows "\<exists>A'. bd_inv ids cap dcap s' A'"
proof (cases "card (dom (ab_blk A)) < cap")
  case True
  have "get_blk_store_obj bid s = Some (ab_blk A bid)"
    using assms(2) by (intro get_blk_table[of cap]) (simp add: bd_inv_def bd_rel_def)
  with bd_report_inv[OF assms(1,2,3,5,4) True] assms(6) show ?thesis by auto
next
  case False
  then have "card (dom (ab_blk A)) = cap" using blk_room[OF assms(2)] by simp
  from bd_report_full[OF assms(1-4) this, of r s'] assms(2,6) show ?thesis by blast
qed

lemma bd_step_inv:
  assumes "bd_step ids s s'" "cluster ids" "bd_inv ids cap dcap s A" "DN_NUM_IN_CLUSTER \<le> dcap"
  shows "\<exists>A'. bd_inv ids cap dcap s' A'"
  using assms(1)
proof cases
  case (register task now ns r)
  with bd_register_inv[OF assms(2,3) _ assms(4), of task now ns] show ?thesis by auto
next
  case (heartbeat task now r)
  with bd_heartbeat_inv[OF assms(2,3), of task now] show ?thesis by auto
next
  case (recv_report task bid sz ip r)
  then show ?thesis using bd_report_cases[OF assms(2,3) recv_report(1-3)] by blast
next
  case (blk_report task bid sz ip r)
  then show ?thesis using bd_report_cases[OF assms(2,3) blk_report(1-3)] by blast
next
  case (delete bid rc)
  with bd_delete_inv[OF assms(2,3), of bid] show ?thesis by auto
next
  case (timeout k dt dns)
  with bd_timeout_inv[OF assms(2,3) timeout(1-5)] show ?thesis by auto
qed

text \<open>The states a run reaches from the two start functions, all of whose allocations succeed.\<close>

inductive bd_reachable :: "bytes set \<Rightarrow> bd_index \<Rightarrow> bool" for ids where
  start: "nn_blk_index_worker_init bmem (\<lambda>_. True) s0 = Some (DFS_OK, s1) \<Longrightarrow>
    nn_dn_index_worker_init dmem (\<lambda>_. True) (True, True) tmo s1 = Some (DFS_OK, s2) \<Longrightarrow> bd_reachable ids s2"
| step: "bd_reachable ids s \<Longrightarrow> bd_step ids s s' \<Longrightarrow> bd_reachable ids s'"

lemma bd_reachable_inv:
  assumes "bd_reachable ids s" "cluster ids"
  shows "\<exists>cap dcap A. bd_inv ids cap dcap s A \<and> BLK_NUM_IN_DN \<le> cap \<and> DN_NUM_IN_CLUSTER \<le> dcap"
  using assms
proof (induction rule: bd_reachable.induct)
  case (start bmem s0 s1 dmem tmo s2)
  obtain cap pool ht where cap: "BLK_NUM_IN_DN \<le> cap"
    "nn_blk_index_worker_init bmem (\<lambda>_. True) s0 = Some (DFS_OK, s0\<lparr>blk_pool := pool, blk_htable := ht\<rparr>)"
    "blk_table cap (s0\<lparr>blk_pool := pool, blk_htable := ht\<rparr>) Map.empty"
    by (rule blk_init_ok[of "\<lambda>_. True" bmem s0]) auto
  then have "blk_table cap s1 Map.empty" using start(1) by simp
  then obtain dcap s' where
    "DN_NUM_IN_CLUSTER \<le> dcap" "nn_dn_index_worker_init dmem (\<lambda>_. True) (True, True) tmo s1 = Some (DFS_OK, s')"
    "bd_rel cap dcap s' bd_abs0"
    by (rule dn_init_ok[of "\<lambda>_. True" cap s1 dmem tmo, rotated]) auto
  with start(2) cap(1) show ?case
    by (intro exI[of _ cap] exI[of _ dcap] exI[of _ bd_abs0]) (simp add: bd_inv_def bd_abs0_def)
next
  case (step s s')
  then show ?case using bd_step_inv by blast
qed

section \<open>Properties\<close>


text \<open>The heartbeats of a data node, and all the block numbers their answers carry.\<close>

fun told_blks :: "task_data \<Rightarrow> u64 list" where
  "told_blks (TBlkIds bs) = bs"
| "told_blks _ = []"

fun heartbeats :: "nat \<Rightarrow> int \<Rightarrow> task \<Rightarrow> bd_index \<Rightarrow> (u64 list \<times> bd_index) option" where
  "heartbeats 0 now task s = Some ([], s)"
| "heartbeats (Suc n) now task s = do {
     (r, s) \<leftarrow> nn_dn_heartbeat now task s;
     (bs, s) \<leftarrow> heartbeats n now task s;
     Some (told_blks (t_data r) @ bs, s) }"


text \<open>
  C11. The deletions a data node has to be told all reach it: \<open>n\<close> heartbeats carry the first
  \<open>5 * n\<close> pending block numbers, in the order the deletions were asked for and each exactly
  once, and leave the rest pending; the other data nodes are not affected. So with enough
  heartbeats nothing is left.
\<close>

theorem heartbeats_tell_deletions:
  assumes "cluster ids" "bd_inv ids cap dcap s A" "t_key task \<in> dom (ab_dn A)" "t_data task = TNull" "bd_brk s < 2 ^ 64"
  shows "\<exists>s' A'. heartbeats n now task s = Some (take (5 * n) (pending s A (t_key task)), s') \<and>
    bd_inv ids cap dcap s' A' \<and> ab_blk A' = ab_blk A \<and> ab_dn A' = ab_dn A \<and>
    pending s' A' = (pending s A)(t_key task := drop (5 * n) (pending s A (t_key task)))"
  using assms(2,3,5)
proof (induction n arbitrary: s A)
  case 0
  then show ?case by (intro exI[of _ s] exI[of _ A]) simp
next
  case (Suc n)
  let ?k = "t_key task"
  from Suc.prems(1) have rel: "bd_rel cap dcap s A" and sub: "dom (ab_dn A) \<subseteq> ids"
    and ips: "\<forall>b \<in> ran (ab_blk A). b_dn_ip (mb_data (blk_pool s) b) \<in> ids" by (auto simp: bd_inv_def)
  have ok: "id_ok ?k s A" using sub Suc.prems(2) by (intro cluster_id_ok[OF assms(1) rel sub]) blast
  have "length (pending s A ?k) < 2 ^ 64" using pending_brk[OF rel] Suc.prems(3) by (rule order_le_less_trans)
  from heartbeat_ok[OF rel Suc.prems(2) ok this, of now] obtain s1 A1 where
    h: "nn_dn_heartbeat now task s = Some ((if pending s A ?k = [] then task
        else task\<lparr>t_data := TBlkIds (take 5 (pending s A ?k))\<rparr>)\<lparr>t_ret := DFS_OK\<rparr>, s1)"
      "bd_rel cap dcap s1 A1" "ab_blk A1 = ab_blk A" "ab_dn A1 = ab_dn A" "blk_pool s1 = blk_pool s" "bd_brk s1 = bd_brk s"
      "pending s1 A1 = (pending s A)(?k := drop 5 (pending s A ?k))" by blast
  have "bd_inv ids cap dcap s1 A1" using h sub ips by (simp add: bd_inv_def)
  moreover have "?k \<in> dom (ab_dn A1)" "bd_brk s1 < 2 ^ 64" using h(4,6) Suc.prems(2,3) by simp_all
  ultimately obtain s2 A2 where
    "heartbeats n now task s1 = Some (take (5 * n) (pending s1 A1 ?k), s2)" "bd_inv ids cap dcap s2 A2"
    "ab_blk A2 = ab_blk A1" "ab_dn A2 = ab_dn A1"
    "pending s2 A2 = (pending s1 A1)(?k := drop (5 * n) (pending s1 A1 ?k))" using Suc.IH by blast
  moreover have "take (5 * Suc n) xs = take 5 xs @ take (5 * n) (drop 5 xs)" for xs :: "u64 list"
    by (simp add: take_add)
  ultimately show ?case using h(1,3,4,7) assms(4)
    by (intro exI[of _ s2] exI[of _ A2]) (auto simp: add.commute)
qed

section \<open>A concrete run\<close>

text \<open>A cluster of one data node that registers, reports a block, and has it deleted.\<close>

definition demo_ip :: bytes where
  "demo_ip = str ''10.0.0.7''"

definition demo_task :: "task_data \<Rightarrow> task" where
  "demo_task d = \<lparr>t_cmd = 0, t_ret = 0, t_master_nodeid = 0, t_key = demo_ip, t_user = [], t_group = [],
     t_permission = 0, t_data = d\<rparr>"

definition bd_zero :: bd_index where
  "bd_zero = \<lparr>bd_links = \<lparr>q_prev = (\<lambda>_. None), q_next = (\<lambda>_. None)\<rparr>, blk_pool = undefined, blk_htable = undefined,
     dn_pool = undefined, dn_htable = undefined, dn_timer_htable = undefined, dn_timers = Map.empty,
     del_blks = Map.empty, bd_brk = 0, dn_timeout = 0, g_dn_n = 0, uid_sequence = 0\<rparr>"

lemma demo_cluster: "cluster {demo_ip}"
  by (auto simp: cluster_def demo_ip_def str_def dfs_code cstring_def)

lemma brk_register: "nn_dn_register now ns task s = Some (r, s') \<Longrightarrow> bd_brk s' \<le> bd_brk s + 1"
  by (auto simp: nn_dn_register_def dn_timer_update_def dn_register_new_def dn_get0_def dn_timer_create_def Let_def
    split: bind_splits option.splits prod.splits)

lemma brk_blk_report: "nn_dn_blk_report task s = Some (r, s') \<Longrightarrow> bd_brk s' = bd_brk s"
  by (auto simp: nn_dn_blk_report_def report_add_def add_block_def blk_get0_def Let_def
    split: bind_splits option.splits prod.splits task_data.splits)

lemma brk_notify: "notify_dn_2_delete_blk bid ip s = Some (r, s') \<Longrightarrow> bd_brk s' \<le> bd_brk s + 1"
  by (auto simp: notify_dn_2_delete_blk_def Let_def split: bind_splits option.splits)

lemma brk_delete: "block_object_del bid s = Some (r, s') \<Longrightarrow> bd_brk s' \<le> bd_brk s + 1"
  by (auto simp: block_object_del_def split: bind_splits option.splits prod.splits dest: brk_notify)

lemma demo_start: "\<exists>s cap dcap. bd_reachable ids s \<and> bd_inv ids cap dcap s bd_abs0 \<and> bd_brk s = 0 \<and>
    BLK_NUM_IN_DN \<le> cap \<and> DN_NUM_IN_CLUSTER \<le> dcap"
proof -
  let ?mem = "undefined :: (nat, u64) hashtable" and ?dmem = "undefined :: (nat, bytes) hashtable"
  obtain cap pool ht where b: "BLK_NUM_IN_DN \<le> cap"
    "nn_blk_index_worker_init ?mem (\<lambda>_. True) bd_zero = Some (DFS_OK, bd_zero\<lparr>blk_pool := pool, blk_htable := ht\<rparr>)"
    "blk_table cap (bd_zero\<lparr>blk_pool := pool, blk_htable := ht\<rparr>) Map.empty"
    by (rule blk_init_ok[of "\<lambda>_. True" ?mem bd_zero]) auto
  from b(3) obtain dcap s' where d: "DN_NUM_IN_CLUSTER \<le> dcap"
    "nn_dn_index_worker_init ?dmem (\<lambda>_. True) (True, True) 30 (bd_zero\<lparr>blk_pool := pool, blk_htable := ht\<rparr>) = Some (DFS_OK, s')"
    "bd_rel cap dcap s' bd_abs0"
    by (rule dn_init_ok[of "\<lambda>_. True" cap _ ?dmem 30, rotated]) auto
  have "bd_brk s' = 0"
    using d(2) by (auto simp: nn_dn_index_worker_init_def dn_cache_mgmt_timer_new_def bd_zero_def
      split: bind_splits option.splits prod.splits if_splits)
  moreover have "bd_reachable ids s'" by (rule bd_reachable.start[OF b(2) d(2)])
  ultimately show ?thesis using b(1) d(1,3)
    by (intro exI[of _ s'] exI[of _ cap] exI[of _ dcap]) (simp add: bd_inv_def bd_abs0_def)
qed


text \<open>The block 42 of the data node, reported and then deleted.\<close>

lemma demo_reported:
  "\<exists>s A cap dcap b. bd_inv {demo_ip} cap dcap s A \<and> bd_brk s \<le> 1 \<and> demo_ip \<in> dom (ab_dn A) \<and> pending s A demo_ip = [] \<and>
    ab_blk A 42 = Some b \<and> b_dn_ip (mb_data (blk_pool s) b) = demo_ip"
proof -
  obtain s0 cap dcap where s0: "bd_inv {demo_ip} cap dcap s0 bd_abs0" "bd_brk s0 = 0" "BLK_NUM_IN_DN \<le> cap" "DN_NUM_IN_CLUSTER \<le> dcap"
    using demo_start by blast
  then have rel: "bd_rel cap dcap s0 bd_abs0" by (simp add: bd_inv_def)
  have k: "t_key (demo_task d) = demo_ip" for d by (simp add: demo_task_def)
  have ok: "id_ok (t_key (demo_task TNull)) s0 bd_abs0"
    using cluster_id_ok[OF demo_cluster rel] by (simp add: bd_abs0_def k)
  have "t_key (demo_task TNull) \<notin> dom (ab_dn bd_abs0)" "card (dom (ab_dn bd_abs0)) < dcap" "length (t_key (demo_task TNull)) < ID_LEN"
    using s0(4) by (simp_all add: bd_abs0_def k demo_ip_def str_def dfs_code)
  from register_unknown[OF rel this(1) ok this(2,3), of 0 1] obtain s1 p t r where
    r: "nn_dn_register 0 1 (demo_task TNull) s0 = Some (r, s1)" "bd_rel cap dcap s1 (bd_add_dn demo_ip p t bd_abs0)"
      (is "bd_rel _ _ _ ?A1") unfolding k by blast
  let ?t = "demo_task (TReport 42 1024 demo_ip)"
  have "id_ok (t_key ?t) s1 ?A1" using cluster_id_ok[OF demo_cluster r(2)] by (simp add: bd_abs0_def k)
  moreover have "t_key ?t \<in> dom (ab_dn ?A1)" "card (dom (ab_blk ?A1)) < cap" "length demo_ip < 32"
    "t_data ?t = TReport 42 1024 demo_ip" "ab_blk ?A1 42 = None"
    using s0(3) by (simp_all add: bd_abs0_def demo_task_def demo_ip_def str_def dfs_code)
  ultimately obtain q b s2 r' where
    "nn_dn_blk_report ?t s1 = Some (r', s2)"
    "mb_data (blk_pool s2) = (mb_data (blk_pool s1))(b := \<lparr>b_id = 42, b_size = 1024, b_dn_ip = demo_ip\<rparr>)"
    "bd_rel cap dcap s2 (?A1\<lparr>ab_blk := (ab_blk ?A1)(42 \<mapsto> b), ab_blks := (ab_blks ?A1)(q := ab_blks ?A1 q @ [b])\<rparr>)"
      (is "bd_rel _ _ _ ?A2")
    using report_ok[OF r(2)] by blast
  moreover have "bd_brk s2 \<le> 1" using brk_register[OF r(1)] s0(2) brk_blk_report[OF calculation(1)] by simp
  ultimately show ?thesis
    by (intro exI[of _ s2] exI[of _ ?A2] exI[of _ cap] exI[of _ dcap] exI[of _ b])
      (simp add: bd_inv_def bd_abs0_def pending_def)
qed


lemma demo_deleted:
  "\<exists>s A cap dcap. bd_inv {demo_ip} cap dcap s A \<and> bd_brk s \<le> 2 \<and> demo_ip \<in> dom (ab_dn A) \<and> pending s A demo_ip = [42]"
proof -
  obtain s A cap dcap b where s: "bd_inv {demo_ip} cap dcap s A" "bd_brk s \<le> 1" "demo_ip \<in> dom (ab_dn A)" "pending s A demo_ip = []"
    "ab_blk A 42 = Some b" "b_dn_ip (mb_data (blk_pool s) b) = demo_ip" using demo_reported by blast
  from s(1) have rel: "bd_rel cap dcap s A" "dom (ab_dn A) \<subseteq> {demo_ip}"
    and ips: "\<forall>b \<in> ran (ab_blk A). b_dn_ip (mb_data (blk_pool s) b) \<in> {demo_ip}" by (auto simp: bd_inv_def)
  from block_object_del_ok[OF rel(1) s(5,6)] cluster_id_ok[OF demo_cluster rel, of demo_ip] obtain s' A' where
    d: "block_object_del 42 s = Some (DFS_OK, s')" "bd_rel cap dcap s' A'" "ab_blk A' = (ab_blk A)(42 := None)"
      "ab_dn A' = ab_dn A" "mb_data (blk_pool s') = mb_data (blk_pool s)"
      "pending s' A' = (if demo_ip \<in> dom (ab_dn A) then (pending s A)(demo_ip := pending s A demo_ip @ [42]) else pending s A)"
    by blast
  moreover have "ran ((ab_blk A)(42 := None)) \<subseteq> ran (ab_blk A)" by (auto simp: ran_def split: if_splits)
  then have "bd_inv {demo_ip} cap dcap s' A'" using d(2-5) rel(2) ips by (auto simp: bd_inv_def)
  moreover have "bd_brk s' \<le> 2" using brk_delete[OF d(1)] s(2) by simp
  ultimately show ?thesis using s(3,4) by (intro exI[of _ s'] exI[of _ A'] exI[of _ cap] exI[of _ dcap]) simp
qed

theorem heartbeats_tell_deletions_witness:
  "\<exists>s s'. heartbeats 1 0 (demo_task TNull) s = Some ([42], s')"
proof -
  obtain s A cap dcap where s: "bd_inv {demo_ip} cap dcap s A" "bd_brk s \<le> 2" "demo_ip \<in> dom (ab_dn A)" "pending s A demo_ip = [42]"
    using demo_deleted by blast
  have "t_key (demo_task TNull) = demo_ip" "t_data (demo_task TNull) = TNull" by (simp_all add: demo_task_def)
  with heartbeats_tell_deletions[OF demo_cluster s(1), of "demo_task TNull" 1 0] s(2-4) show ?thesis by auto
qed

end
