(* ===== verification/Dfs_Base64.thy ===== *)
theory Dfs_Base64
  imports Dfs_Prelude
begin

text \<open>
  Base64 as \<open>src/src/core/dfs_string.c\<close> has it (\<open>string_base64_encode\<close>,
  \<open>string_base64_decode\<close>): the name node's index keys are the base64 forms of paths. The two
  tables are those of the source. Encoding is shown to be undone by decoding, so that keys
  of different paths differ; the lengths are computed; and the keys that are a proper prefix
  of another key are characterised, which matters for the prefix comparison of the index.
\<close>

unbundle bit_operations_syntax

section \<open>The code\<close>

definition basis64_enc :: bytes where
  "basis64_enc = str ''ABCDEFGHIJKLMNOPQRSTUVWXYZabcdefghijklmnopqrstuvwxyz0123456789+/''"

definition basis64_dec :: bytes where
  "basis64_dec =
    [77, 77, 77, 77, 77, 77, 77, 77, 77, 77, 77, 77, 77, 77, 77, 77,
     77, 77, 77, 77, 77, 77, 77, 77, 77, 77, 77, 77, 77, 77, 77, 77,
     77, 77, 77, 77, 77, 77, 77, 77, 77, 77, 77, 62, 77, 77, 77, 63,
     52, 53, 54, 55, 56, 57, 58, 59, 60, 61, 77, 77, 77, 77, 77, 77,
     77,  0,  1,  2,  3,  4,  5,  6,  7,  8,  9, 10, 11, 12, 13, 14,
     15, 16, 17, 18, 19, 20, 21, 22, 23, 24, 25, 77, 77, 77, 77, 77,
     77, 26, 27, 28, 29, 30, 31, 32, 33, 34, 35, 36, 37, 38, 39, 40,
     41, 42, 43, 44, 45, 46, 47, 48, 49, 50, 51, 77, 77, 77, 77, 77] @ replicate 128 77"

definition enc64 :: "u8 \<Rightarrow> u8" where
  "enc64 i = basis64_enc ! unat i"

definition dec64 :: "u8 \<Rightarrow> u8" where
  "dec64 c = basis64_dec ! unat c"

text \<open>The character \<open>=\<close>.\<close>

abbreviation pad64 :: u8 where "pad64 \<equiv> 61"

fun base64_encode :: "bytes \<Rightarrow> bytes" where
  "base64_encode (s0 # s1 # s2 # s) =
     enc64 (drop_bit 2 s0 AND 0x3f) #
     enc64 (push_bit 4 (s0 AND 3) OR drop_bit 4 s1) #
     enc64 (push_bit 2 (s1 AND 0x0f) OR drop_bit 6 s2) #
     enc64 (s2 AND 0x3f) # base64_encode s"
| "base64_encode [s0] =
     [enc64 (drop_bit 2 s0 AND 0x3f), enc64 (push_bit 4 (s0 AND 3)), pad64, pad64]"
| "base64_encode [s0, s1] =
     [enc64 (drop_bit 2 s0 AND 0x3f), enc64 (push_bit 4 (s0 AND 3) OR drop_bit 4 s1),
      enc64 (push_bit 2 (s1 AND 0x0f)), pad64]"
| "base64_encode [] = []"

text \<open>The first loop of the decoder: the number of symbols before the padding, or the error.\<close>

fun decode_scan :: "bytes \<Rightarrow> nat option" where
  "decode_scan [] = Some 0"
| "decode_scan (c # s) =
     (if c = pad64 then Some 0 else if dec64 c = 77 then None else map_option Suc (decode_scan s))"

text \<open>The second loop and the two trailing cases, over the first \<open>len\<close> symbols.\<close>

fun decode_groups :: "bytes \<Rightarrow> bytes" where
  "decode_groups (s0 # s1 # s2 # s3 # s) =
     (push_bit 2 (dec64 s0) OR drop_bit 4 (dec64 s1)) #
     (push_bit 4 (dec64 s1) OR drop_bit 2 (dec64 s2)) #
     (push_bit 6 (dec64 s2) OR dec64 s3) # decode_groups s"
| "decode_groups [s0, s1, s2] =
     [push_bit 2 (dec64 s0) OR drop_bit 4 (dec64 s1), push_bit 4 (dec64 s1) OR drop_bit 2 (dec64 s2)]"
| "decode_groups [s0, s1] = [push_bit 2 (dec64 s0) OR drop_bit 4 (dec64 s1)]"
| "decode_groups [s0] = []"
| "decode_groups [] = []"

text \<open>The decoder returns its code and the destination, which an error leaves as it was.\<close>

definition base64_decode :: "bytes \<Rightarrow> bytes \<Rightarrow> int \<times> bytes" where
  "base64_decode dst src =
     (case decode_scan src of
        None \<Rightarrow> (DFS_ERROR, dst)
      | Some len \<Rightarrow>
          if len mod 4 = 1 then (DFS_ERROR, dst)
          else (DFS_OK, decode_groups (take len src)))"

section \<open>The tables\<close>

lemma basis64_enc_bytes: "basis64_enc =
    [65, 66, 67, 68, 69, 70, 71, 72, 73, 74, 75, 76, 77, 78, 79, 80, 81, 82, 83, 84,
     85, 86, 87, 88, 89, 90, 97, 98, 99, 100, 101, 102, 103, 104, 105, 106, 107, 108,
     109, 110, 111, 112, 113, 114, 115, 116, 117, 118, 119, 120, 121, 122, 48, 49,
     50, 51, 52, 53, 54, 55, 56, 57, 43, 47]"
  by (simp add: basis64_enc_def str_def)

lemma tables_inverse: "map dec64 basis64_enc = map word_of_nat [0..<64]"
  by (simp add: basis64_enc_bytes dec64_def basis64_dec_def upt_rec)

lemma basis64_enc_symbols: "pad64 \<notin> set basis64_enc \<and> 0 \<notin> set basis64_enc"
  by (simp add: basis64_enc_bytes)

lemma basis64_enc_length: "length basis64_enc = 64"
  by (simp add: basis64_enc_bytes)

lemma dec64_enc64 [simp]: "i < 64 \<Longrightarrow> dec64 (enc64 i) = i"
  using arg_cong[OF tables_inverse, of "\<lambda>xs. xs ! unat i"]
  by (simp add: enc64_def word_less_nat_alt basis64_enc_length)

lemma enc64_symbol: "i < 64 \<Longrightarrow> enc64 i \<in> set basis64_enc"
  by (simp add: enc64_def word_less_nat_alt basis64_enc_length)

lemma enc64_neq [simp]: "i < 64 \<Longrightarrow> enc64 i \<noteq> pad64" "i < 64 \<Longrightarrow> enc64 i \<noteq> 0"
  using enc64_symbol basis64_enc_symbols by metis+

lemma below_64_neq_77 [simp]: "i < (64 :: u8) \<Longrightarrow> i \<noteq> 77"
  by auto

section \<open>The bits of a group\<close>

lemma less_8_cases: "n < (8 :: nat) \<longleftrightarrow> n \<in> {0, 1, 2, 3, 4, 5, 6, 7}"
  by auto

lemma u8_eqI:
  fixes a b :: u8
  assumes "bit a 0 = bit b 0" "bit a 1 = bit b 1" "bit a 2 = bit b 2" "bit a 3 = bit b 3"
    "bit a 4 = bit b 4" "bit a 5 = bit b 5" "bit a 6 = bit b 6" "bit a 7 = bit b 7"
  shows "a = b"
proof (rule bit_word_eqI)
  fix n assume "n < LENGTH(8)"
  then show "bit a n = bit b n" using assms less_8_cases[of n] by auto
qed

lemma u8_less_64: "(w :: u8) < 64 \<longleftrightarrow> \<not> bit w 6 \<and> \<not> bit w 7"
proof -
  have "w < 64 \<longleftrightarrow> take_bit 6 (unat w) = unat w"
    by (simp add: word_less_nat_alt take_bit_nat_eq_self_iff)
  also have "\<dots> \<longleftrightarrow> take_bit 6 w = w"
    by (metis unsigned_take_bit_eq word_unat_eq_iff)
  also have "\<dots> \<longleftrightarrow> \<not> bit w 6 \<and> \<not> bit w 7"
  proof
    assume "take_bit 6 w = w"
    then have "bit w n = bit (take_bit 6 w) n" for n by simp
    from this[of 6] this[of 7] show "\<not> bit w 6 \<and> \<not> bit w 7" by (simp add: bit_take_bit_iff)
  next
    assume "\<not> bit w 6 \<and> \<not> bit w 7"
    then show "take_bit 6 w = w" by (intro u8_eqI) (simp_all add: bit_take_bit_iff)
  qed
  finally show ?thesis .
qed

lemma u8_bit_high [simp]: "8 \<le> n \<Longrightarrow> \<not> bit (w :: u8) n"
  using bit_imp_le_length[of w n] by auto

text \<open>The four symbols of a group of three bytes, named to keep their bit patterns opaque.\<close>

definition sextet0 :: "u8 \<Rightarrow> u8" where "sextet0 a = drop_bit 2 a AND 0x3f"
definition sextet1 :: "u8 \<Rightarrow> u8 \<Rightarrow> u8" where "sextet1 a b = push_bit 4 (a AND 3) OR drop_bit 4 b"
definition sextet2 :: "u8 \<Rightarrow> u8 \<Rightarrow> u8" where "sextet2 b c = push_bit 2 (b AND 0x0f) OR drop_bit 6 c"
definition sextet3 :: "u8 \<Rightarrow> u8" where "sextet3 c = c AND 0x3f"

lemmas sextet_defs = sextet0_def sextet1_def sextet2_def sextet3_def

lemma sextet_bounds [simp]: "sextet0 a < 64" "sextet1 a b < 64" "sextet2 b c < 64" "sextet3 c < 64"
  by (simp_all add: sextet_defs u8_less_64 bit_simps)

lemma group_bits [simp]:
  "push_bit 2 (sextet0 a) OR drop_bit 4 (sextet1 a b) = a"
  "push_bit 4 (sextet1 a b) OR drop_bit 2 (sextet2 b c) = b"
  "push_bit 6 (sextet2 b c) OR sextet3 c = c"
  by (rule u8_eqI; simp add: sextet_defs bit_simps)+

lemma base64_encode_sextets [simp]:
  "base64_encode (a # b # c # s) =
     enc64 (sextet0 a) # enc64 (sextet1 a b) # enc64 (sextet2 b c) # enc64 (sextet3 c) # base64_encode s"
  "base64_encode [a] = [enc64 (sextet0 a), enc64 (sextet1 a 0), pad64, pad64]"
  "base64_encode [a, b] = [enc64 (sextet0 a), enc64 (sextet1 a b), enc64 (sextet2 b 0), pad64]"
  by (simp_all add: sextet_defs)

declare base64_encode.simps(1-3) [simp del]

section \<open>Round trip and keys\<close>

text \<open>The symbols of an encoding, padding cut off.\<close>

definition symbols64 :: "bytes \<Rightarrow> bytes" where
  "symbols64 s = takeWhile (\<lambda>c. c \<noteq> pad64) (base64_encode s)"

lemma symbols64_simps [simp]:
  "symbols64 (a # b # c # s) =
     enc64 (sextet0 a) # enc64 (sextet1 a b) # enc64 (sextet2 b c) # enc64 (sextet3 c) # symbols64 s"
  "symbols64 [a] = [enc64 (sextet0 a), enc64 (sextet1 a 0)]"
  "symbols64 [a, b] = [enc64 (sextet0 a), enc64 (sextet1 a b), enc64 (sextet2 b 0)]"
  "symbols64 [] = []"
  by (simp_all add: symbols64_def)

lemma decode_groups_symbols: "decode_groups (symbols64 s) = s"
  by (induction s rule: base64_encode.induct) simp_all

lemma decode_scan_encode: "decode_scan (base64_encode s) = Some (length (symbols64 s))"
  by (induction s rule: base64_encode.induct) simp_all

lemma take_symbols64: "take (length (symbols64 s)) (base64_encode s) = symbols64 s"
  unfolding symbols64_def by (rule takeWhile_eq_take[symmetric])

lemma symbols64_mod4: "length (symbols64 s) mod 4 \<noteq> Suc 0"
proof (induction s rule: base64_encode.induct)
  case (1 s0 s1 s2 s)
  have "length (symbols64 (s0 # s1 # s2 # s)) = length (symbols64 s) + 4" by simp
  with 1 show ?case by (simp only: mod_add_self2) simp
qed simp_all

lemma base64_decode_encode [simp]: "base64_decode dst (base64_encode s) = (DFS_OK, s)"
  by (simp add: base64_decode_def decode_scan_encode symbols64_mod4 take_symbols64 decode_groups_symbols)

lemma base64_encode_inject [simp]: "base64_encode s = base64_encode t \<longleftrightarrow> s = t"
  by (metis base64_decode_encode snd_conv)

lemma length_base64_encode: "length (base64_encode s) = 4 * ((length s + 2) div 3)"
proof (induction s rule: base64_encode.induct)
  case (1 s0 s1 s2 s)
  have "(length (s0 # s1 # s2 # s) + 2) div 3 = (length s + 2 + 3) div 3" by simp
  also have "\<dots> = (length s + 2) div 3 + 1" by (rule div_add_self2) simp
  finally show ?case using 1 by simp
qed simp_all

lemma cstring_base64_encode [simp]: "cstring (base64_encode s)"
  by (induction s rule: base64_encode.induct) simp_all

lemma base64_encode_eq_Nil [simp]: "base64_encode s = [] \<longleftrightarrow> s = []"
  by (cases s rule: base64_encode.cases) simp_all

text \<open>
  The padding stops a key from being a proper prefix of another one, unless the length of
  its path is a multiple of three.
\<close>

lemma three_dvd [simp]:
  "3 dvd Suc (Suc (Suc n)) \<longleftrightarrow> 3 dvd n" "\<not> 3 dvd Suc 0" "\<not> 3 dvd Suc (Suc 0)"
  using dvd_add_right_iff[of 3 3 n] by (simp_all add: dvd_eq_mod_eq_0)

lemma base64_encode_append:
  "3 dvd length s \<Longrightarrow> base64_encode (s @ t) = base64_encode s @ base64_encode t"
  by (induction s rule: base64_encode.induct) simp_all

lemma enc64_neq_sym [simp]: "i < 64 \<Longrightarrow> pad64 \<noteq> enc64 i"
  using enc64_neq(1)[of i] by metis

lemma enc64_inject [simp]: "i < 64 \<Longrightarrow> j < 64 \<Longrightarrow> enc64 i = enc64 j \<longleftrightarrow> i = j"
proof
  assume "i < 64" "j < 64" "enc64 i = enc64 j"
  from arg_cong[OF this(3), of dec64] this(1,2) show "i = j" by (simp only: dec64_enc64)
qed simp

lemma sextets_inject:
  assumes "sextet0 a = sextet0 a'" "sextet1 a b = sextet1 a' b'" "sextet2 b c = sextet2 b' c'" "sextet3 c = sextet3 c'"
  shows "a = a'" "b = b'" "c = c'"
  using group_bits(1)[of a b, unfolded assms(1,2)] group_bits(2)[of a b c, unfolded assms(2,3)]
    group_bits(3)[of b c, unfolded assms(3,4)] by (simp_all only: group_bits)

lemma base64_encode_prefixD:
  "prefix (base64_encode s) (base64_encode t) \<Longrightarrow> s = t \<or> 3 dvd length s \<and> prefix s t"
proof (induction s arbitrary: t rule: base64_encode.induct)
  case (1 s0 s1 s2 s)
  then obtain t0 t1 t2 t' where t: "t = t0 # t1 # t2 # t'"
    by (cases t rule: base64_encode.cases) simp_all
  with "1.prems" have eq: "sextet0 s0 = sextet0 t0" "sextet1 s0 s1 = sextet1 t0 t1"
      "sextet2 s1 s2 = sextet2 t1 t2" "sextet3 s2 = sextet3 t2"
    and "prefix (base64_encode s) (base64_encode t')" by simp_all
  with "1.IH"[of t'] show ?case unfolding t sextets_inject[OF eq] by simp
next
  case (2 s0)
  then have "base64_encode [s0] = base64_encode t"
    by (cases t rule: base64_encode.cases) (simp_all del: base64_encode_inject)
  then show ?case unfolding base64_encode_inject by simp
next
  case (3 s0 s1)
  then have "base64_encode [s0, s1] = base64_encode t"
    by (cases t rule: base64_encode.cases) (simp_all del: base64_encode_inject)
  then show ?case unfolding base64_encode_inject by simp
qed simp

lemma base64_encode_prefix:
  "prefix (base64_encode s) (base64_encode t) \<longleftrightarrow> s = t \<or> 3 dvd length s \<and> prefix s t"
proof
  assume "s = t \<or> 3 dvd length s \<and> prefix s t"
  then show "prefix (base64_encode s) (base64_encode t)"
  proof
    assume *: "3 dvd length s \<and> prefix s t"
    then obtain u where "t = s @ u" by (blast elim: prefixE)
    with * show ?thesis by (simp add: base64_encode_append)
  qed simp
qed (rule base64_encode_prefixD)

text \<open>
  C37. What \<open>string_base64_encode\<close> writes is read back by \<open>string_base64_decode\<close>, whatever the target held,
  and four characters stand for three bytes, rounded up.
\<close>

theorem base64_roundtrip:
  "base64_decode dst (base64_encode s) = (DFS_OK, s) \<and> length (base64_encode s) = 4 * ((length s + 2) div 3)"
  by (simp add: length_base64_encode)

text \<open>
  C38. The key of a path is a proper prefix of another key exactly when the path is a prefix whose length
  is a multiple of three. The lookup of the file index compares as many bytes as the key it is given has,
  so only then it may confuse two keys.
\<close>

theorem base64_prefix_keys:
  "prefix (base64_encode s) (base64_encode t) \<longleftrightarrow> s = t \<or> 3 dvd length s \<and> prefix s t"
  by (rule base64_encode_prefix)

end
