(* ===== verification/Phx_Editlog.thy ===== *)
theory Phx_Editlog
  imports Dfs_Prelude
begin

text \<open>
  The messages of the edit log (\<open>src/src/paxos/phxeditlog.pb.h\<close>): what a name node proposes to
  the paxos group and what every member executes. A field that is not set has its default value;
  a sub-message that is not set is NULL, and the \<open>mutable_\<close> accessor creates it.
\<close>

record LogMkdir =
  mkr_key :: bytes
  mkr_permission :: u32
  mkr_owner :: bytes
  mkr_group :: bytes
  mkr_mtime :: u64

record LogRmr =
  rmr_key :: bytes
  rmr_mtime :: u64

record LogCreate =
  cre_key :: bytes
  cre_permission :: u32
  cre_owner :: bytes
  cre_group :: bytes
  cre_mtime :: u64
  cre_blk_id :: u64
  cre_blk_sz :: u64
  cre_blk_rep :: u32

record LogGetAdditionalBlk =
  gab_key :: bytes
  gab_blk_id :: u64
  gab_blk_sz :: u64
  gab_blk_rep :: u32

record LogClose =
  cle_key :: bytes
  cle_mtime :: u64
  cle_len :: u64
  cle_blk_rep :: u32

record LogRm =
  rm_key :: bytes
  rm_mtime :: u64

definition LogMkdir0 :: LogMkdir where
  "LogMkdir0 = \<lparr>mkr_key = [], mkr_permission = 0, mkr_owner = [], mkr_group = [], mkr_mtime = 0\<rparr>"

definition LogRmr0 :: LogRmr where
  "LogRmr0 = \<lparr>rmr_key = [], rmr_mtime = 0\<rparr>"

definition LogCreate0 :: LogCreate where
  "LogCreate0 = \<lparr>cre_key = [], cre_permission = 0, cre_owner = [], cre_group = [], cre_mtime = 0,
     cre_blk_id = 0, cre_blk_sz = 0, cre_blk_rep = 0\<rparr>"

definition LogGetAdditionalBlk0 :: LogGetAdditionalBlk where
  "LogGetAdditionalBlk0 = \<lparr>gab_key = [], gab_blk_id = 0, gab_blk_sz = 0, gab_blk_rep = 0\<rparr>"

definition LogClose0 :: LogClose where
  "LogClose0 = \<lparr>cle_key = [], cle_mtime = 0, cle_len = 0, cle_blk_rep = 0\<rparr>"

definition LogRm0 :: LogRm where
  "LogRm0 = \<lparr>rm_key = [], rm_mtime = 0\<rparr>"

record LogOperator =
  optype :: u32
  mkr :: "LogMkdir option"
  rmr :: "LogRmr option"
  cre :: "LogCreate option"
  gab :: "LogGetAdditionalBlk option"
  cle :: "LogClose option"
  rm :: "LogRm option"

definition LogOperator0 :: LogOperator where
  "LogOperator0 = \<lparr>optype = 0, mkr = None, rmr = None, cre = None, gab = None, cle = None, rm = None\<rparr>"

definition mutable_mkr :: "LogOperator \<Rightarrow> LogMkdir" where
  "mutable_mkr l = (case mkr l of None \<Rightarrow> LogMkdir0 | Some m \<Rightarrow> m)"

definition mutable_rmr :: "LogOperator \<Rightarrow> LogRmr" where
  "mutable_rmr l = (case rmr l of None \<Rightarrow> LogRmr0 | Some m \<Rightarrow> m)"

definition mutable_cre :: "LogOperator \<Rightarrow> LogCreate" where
  "mutable_cre l = (case cre l of None \<Rightarrow> LogCreate0 | Some m \<Rightarrow> m)"

definition mutable_gab :: "LogOperator \<Rightarrow> LogGetAdditionalBlk" where
  "mutable_gab l = (case gab l of None \<Rightarrow> LogGetAdditionalBlk0 | Some m \<Rightarrow> m)"

definition mutable_cle :: "LogOperator \<Rightarrow> LogClose" where
  "mutable_cle l = (case cle l of None \<Rightarrow> LogClose0 | Some m \<Rightarrow> m)"

definition mutable_rm :: "LogOperator \<Rightarrow> LogRm" where
  "mutable_rm l = (case rm l of None \<Rightarrow> LogRm0 | Some m \<Rightarrow> m)"

end
