(* ===== verification/Phx_Wire.thy ===== *)
theory Phx_Wire
  imports Phx_Editlog "HOL-Library.Monad_Syntax"
begin

text \<open>
  The wire format of the edit log: the part of the protobuf runtime that the generated code runs on.
  The inline functions of \<open>src/include/google/protobuf\<close> are translated; the compiled functions they
  fall back to are the cases of \<open>wire\<close>, and \<open>wire_ok\<close> says what the documentation of the format
  promises of them. A stream is the list of the bytes that are left.
\<close>

unbundle bit_operations_syntax

record wire =
  WriteVarint64ToArray :: "u64 \<Rightarrow> bytes"
  WriteStringWithSizeToArray :: "bytes \<Rightarrow> bytes"
  VarintSize32Fallback :: "u32 \<Rightarrow> nat"
  VarintSize64 :: "u64 \<Rightarrow> nat"
  ReadVarint32Fallback :: "bytes \<Rightarrow> (u32 \<times> bytes) option"
  ReadVarint64Fallback :: "bytes \<Rightarrow> (u64 \<times> bytes) option"
  ReadVarintSizeAsIntFallback :: "bytes \<Rightarrow> (nat \<times> bytes) option"
  ReadTagFallback :: "bytes \<Rightarrow> u32 \<times> bool \<times> bytes"
  ReadBytes :: "bytes \<Rightarrow> (bytes \<times> bytes) option"
  SkipField :: "u32 \<Rightarrow> bytes \<Rightarrow> bytes option"
  VerifyUtf8String :: "bytes \<Rightarrow> bool"
  PushLimit :: "nat \<Rightarrow> bytes \<Rightarrow> (bytes \<times> bytes) option"

section \<open>The format\<close>

text \<open>Base 128, least significant group first, the high bit of all bytes but the last set.\<close>

fun varint :: "nat \<Rightarrow> bytes" where
  "varint n = (if n < 128 then [of_nat n] else of_nat (n mod 128 + 128) # varint (n div 128))"

declare varint.simps [simp del]

text \<open>
  What the runtime is documented to do: varints are written and read in the format above, a string
  is preceded by its length, the end of the input is the tag 0, and a limit cuts the input.
\<close>

definition wire_ok :: "wire \<Rightarrow> bool" where
  "wire_ok w \<longleftrightarrow>
     (\<forall>v. WriteVarint64ToArray w v = varint (unat v)) \<and>
     (\<forall>s. WriteStringWithSizeToArray w s = varint (length s) @ s) \<and>
     (\<forall>v. VarintSize32Fallback w v = length (varint (unat v))) \<and>
     (\<forall>v. VarintSize64 w v = length (varint (unat v))) \<and>
     (\<forall>v r. ReadVarint32Fallback w (varint (unat v) @ r) = Some (v, r)) \<and>
     (\<forall>v r. ReadVarint64Fallback w (varint (unat v) @ r) = Some (v, r)) \<and>
     (\<forall>n r. n < 2 ^ 31 \<longrightarrow> ReadVarintSizeAsIntFallback w (varint n @ r) = Some (n, r)) \<and>
     ReadTagFallback w [] = (0, True, []) \<and>
     (\<forall>s r. length s < 2 ^ 31 \<longrightarrow> ReadBytes w (varint (length s) @ s @ r) = Some (s, r)) \<and>
     (\<forall>a r. PushLimit w (length a) (a @ r) = Some (a, r))"

section \<open>Writing\<close>

function WriteVarint32ToArray :: "u32 \<Rightarrow> bytes" where
  "WriteVarint32ToArray value =
     (if value \<ge> 0x80 then ucast (value OR 0x80) # WriteVarint32ToArray (drop_bit 7 value) else [ucast value])"
  by auto
termination
proof (relation "measure unat")
  fix v :: u32
  assume "0x80 \<le> v"
  then have "unat v div 2 ^ 7 < unat v" by (intro div_less_dividend) (auto simp: word_le_nat_alt)
  then show "(drop_bit 7 v, v) \<in> measure unat" by (simp add: drop_bit_eq_div unat_div_distrib)
qed simp

declare WriteVarint32ToArray.simps [simp del]

definition WIRETYPE_VARINT :: u32 where "WIRETYPE_VARINT = 0"
definition WIRETYPE_LENGTH_DELIMITED :: u32 where "WIRETYPE_LENGTH_DELIMITED = 2"
definition WIRETYPE_END_GROUP :: u32 where "WIRETYPE_END_GROUP = 4"

definition MakeTag :: "u32 \<Rightarrow> u32 \<Rightarrow> u32" where
  "MakeTag field_number type = push_bit 3 field_number OR type"

definition GetTagWireType :: "u32 \<Rightarrow> u32" where
  "GetTagWireType tag = tag AND 7"

definition WriteUInt32ToArray :: "u32 \<Rightarrow> u32 \<Rightarrow> bytes" where
  "WriteUInt32ToArray field_number value =
     WriteVarint32ToArray (MakeTag field_number WIRETYPE_VARINT) @ WriteVarint32ToArray value"

definition WriteUInt64ToArray :: "wire \<Rightarrow> u32 \<Rightarrow> u64 \<Rightarrow> bytes" where
  "WriteUInt64ToArray w field_number value =
     WriteVarint32ToArray (MakeTag field_number WIRETYPE_VARINT) @ WriteVarint64ToArray w value"

definition WriteStringToArray :: "wire \<Rightarrow> u32 \<Rightarrow> bytes \<Rightarrow> bytes" where
  "WriteStringToArray w field_number value =
     WriteVarint32ToArray (MakeTag field_number WIRETYPE_LENGTH_DELIMITED) @ WriteStringWithSizeToArray w value"

text \<open>A message is written with the size that \<open>ByteSizeLong\<close> cached.\<close>

definition InternalWriteMessageNoVirtualToArray :: "u32 \<Rightarrow> nat \<Rightarrow> bytes \<Rightarrow> bytes" where
  "InternalWriteMessageNoVirtualToArray field_number cached_size body =
     WriteVarint32ToArray (MakeTag field_number WIRETYPE_LENGTH_DELIMITED) @
     WriteVarint32ToArray (of_nat cached_size) @ body"

definition VarintSize32 :: "wire \<Rightarrow> u32 \<Rightarrow> nat" where
  "VarintSize32 w value = (if value < 0x80 then 1 else VarintSize32Fallback w value)"

definition LengthDelimitedSize :: "wire \<Rightarrow> nat \<Rightarrow> nat" where
  "LengthDelimitedSize w len = VarintSize32 w (of_nat len) + len"

section \<open>Reading\<close>

definition ReadVarint32 :: "wire \<Rightarrow> bytes \<Rightarrow> (u32 \<times> bytes) option" where
  "ReadVarint32 w input = (case input of
       b # rest \<Rightarrow> if b < 0x80 then Some (ucast b, rest) else ReadVarint32Fallback w input
     | [] \<Rightarrow> ReadVarint32Fallback w input)"

definition ReadVarint64 :: "wire \<Rightarrow> bytes \<Rightarrow> (u64 \<times> bytes) option" where
  "ReadVarint64 w input = (case input of
       b # rest \<Rightarrow> if b < 0x80 then Some (ucast b, rest) else ReadVarint64Fallback w input
     | [] \<Rightarrow> ReadVarint64Fallback w input)"

definition ReadVarintSizeAsInt :: "wire \<Rightarrow> bytes \<Rightarrow> (nat \<times> bytes) option" where
  "ReadVarintSizeAsInt w input = (case input of
       b # rest \<Rightarrow> if b < 0x80 then Some (unat b, rest) else ReadVarintSizeAsIntFallback w input
     | [] \<Rightarrow> ReadVarintSizeAsIntFallback w input)"

text \<open>
  The tag, whether it is at or below the cutoff, whether the input ended where a message may end, and
  the rest.
\<close>

definition ReadTagWithCutoff :: "wire \<Rightarrow> u32 \<Rightarrow> bytes \<Rightarrow> u32 \<times> bool \<times> bool \<times> bytes" where
  "ReadTagWithCutoff w cutoff input =
     (let slow = (let (tag, end, rest) = ReadTagFallback w input in (tag, tag - 1 < cutoff, end, rest))
      in case input of
           [] \<Rightarrow> slow
         | b # rest \<Rightarrow>
             if 0 < b \<and> b < 0x80 then (ucast b, cutoff \<ge> 0x7f \<or> ucast b \<le> cutoff, False, rest)
             else if cutoff \<ge> 0x80 \<and> rest \<noteq> [] \<and> (b AND NOT (hd rest)) \<ge> 0x80 then
               (let tag = push_bit 7 (ucast (hd rest)) + (ucast b - 0x80)
                in (tag, cutoff \<ge> 0x3fff \<or> tag \<le> cutoff, False, tl rest))
             else slow)"

section \<open>The generated loop\<close>

text \<open>
  Every message has the same loop around its own \<open>switch\<close>. \<open>cases tag\<close> is the case of a tag, \<open>None\<close>
  for \<open>handle_unusual\<close>; a case returns whether it succeeded, the message and the rest. The jumps from
  one case into the next when the next tag follows (\<open>ExpectTag\<close>) are turns of the loop here. The
  result says whether parsing succeeded and whether it stopped at the end of the message.
\<close>

type_synonym 'm field_case = "'m \<Rightarrow> bytes \<Rightarrow> (bool \<times> 'm \<times> bytes) option"

partial_function (option) merge_loop ::
  "wire \<Rightarrow> (u32 \<Rightarrow> 'm field_case option) \<Rightarrow> 'm \<Rightarrow> bytes \<Rightarrow> (bool \<times> bool \<times> 'm \<times> bytes) option" where
  "merge_loop w cases m input =
     (case ReadTagWithCutoff w 127 input of (tag, below, end, rest) \<Rightarrow>
        case (if below then cases tag else None) of
          Some h \<Rightarrow> do {
            (ok, m, rest) \<leftarrow> h m rest;
            if ok then merge_loop w cases m rest else Some (False, False, m, rest) }
        | None \<Rightarrow>
            if tag = 0 \<or> GetTagWireType tag = WIRETYPE_END_GROUP then Some (True, end, m, rest)
            else (case SkipField w tag rest of
                    None \<Rightarrow> Some (False, False, m, rest)
                  | Some rest \<Rightarrow> merge_loop w cases m rest))"

text \<open>A string is stored before its encoding is checked.\<close>

definition read_string :: "wire \<Rightarrow> (bytes \<Rightarrow> 'm \<Rightarrow> 'm) \<Rightarrow> 'm field_case" where
  "read_string w put m input = Some (case ReadBytes w input of
       None \<Rightarrow> (False, m, input)
     | Some (s, rest) \<Rightarrow> (VerifyUtf8String w s, put s m, rest))"

definition read_uint32 :: "wire \<Rightarrow> (u32 \<Rightarrow> 'm \<Rightarrow> 'm) \<Rightarrow> 'm field_case" where
  "read_uint32 w put m input = Some (case ReadVarint32 w input of
       None \<Rightarrow> (False, m, input)
     | Some (v, rest) \<Rightarrow> (True, put v m, rest))"

definition read_uint64 :: "wire \<Rightarrow> (u64 \<Rightarrow> 'm \<Rightarrow> 'm) \<Rightarrow> 'm field_case" where
  "read_uint64 w put m input = Some (case ReadVarint64 w input of
       None \<Rightarrow> (False, m, input)
     | Some (v, rest) \<Rightarrow> (True, put v m, rest))"

text \<open>
  \<open>ReadMessageNoVirtual\<close>: \<open>sub\<close> is the sub-message, created before anything is read; it must end at
  the limit.
\<close>

definition ReadMessageNoVirtual ::
  "wire \<Rightarrow> (u32 \<Rightarrow> 's field_case option) \<Rightarrow> ('m \<Rightarrow> 's) \<Rightarrow> ('s \<Rightarrow> 'm \<Rightarrow> 'm) \<Rightarrow> 'm field_case" where
  "ReadMessageNoVirtual w cases sub put m input =
     (case ReadVarintSizeAsInt w input of
        None \<Rightarrow> Some (False, put (sub m) m, input)
      | Some (len, rest) \<Rightarrow>
          (case PushLimit w len rest of
             None \<Rightarrow> Some (False, put (sub m) m, rest)
           | Some (inside, after) \<Rightarrow> do {
               (ok, end, x, _) \<leftarrow> merge_loop w cases (sub m) inside;
               Some (ok \<and> end, put x m, after) }))"

section \<open>Writing and reading back\<close>

lemma varint_small: "n < 128 \<Longrightarrow> varint n = [of_nat n]"
  by (simp add: varint.simps)

lemma varint_large: "128 \<le> n \<Longrightarrow> \<exists>b r. varint n = b # r \<and> \<not> b < 0x80"
proof -
  assume n: "128 \<le> n"
  have "n mod 128 + 128 < 2 ^ 8" by (simp add: mod_less_divisor[THEN order_less_le_trans])
  then have "unat (of_nat (n mod 128 + 128) :: u8) = n mod 128 + 128"
    by (subst unsigned_of_nat) (simp add: take_bit_nat_eq_self)
  then have "\<not> (of_nat (n mod 128 + 128) :: u8) < 0x80" by (simp add: word_less_nat_alt)
  with n show ?thesis by (subst varint.simps) simp
qed

lemma varint_nonempty [simp]: "varint n \<noteq> []"
  by (subst varint.simps) simp

lemma high_bit_byte: "ucast (v OR 0x80) = (of_nat (unat v mod 128 + 128) :: u8)" for v :: u32
proof -
  have b7: "bit (0x80 :: int) n \<longleftrightarrow> n = 7" for n
    using bit_exp_iff[of 7 n, where ?'a = int] by auto
  have "(ucast (v OR 0x80) :: u8) = take_bit 7 (ucast v) OR 0x80"
  proof (rule bit_word_eqI)
    fix n assume "n < LENGTH(8)"
    then have "n < 7 \<or> n = 7" by auto
    then show "bit (ucast (v OR 0x80) :: u8) n = bit (take_bit 7 (ucast v :: u8) OR 0x80) n"
      by (auto simp: bit_simps b7)
  qed
  also have "\<dots> = take_bit 7 (ucast v) + 0x80"
    by (rule disjunctive_add[symmetric]) (auto simp: bit_simps b7)
  also have "take_bit 7 (ucast v :: u8) = of_nat (take_bit 7 (unat v))"
    by (rule word_unat_eq_iff[THEN iffD2]) (simp only: unsigned_take_bit_eq unsigned_ucast_eq unsigned_of_nat take_bit_take_bit, simp)
  finally show ?thesis by (simp add: take_bit_eq_mod)
qed

lemma WriteVarint32_varint: "WriteVarint32ToArray v = varint (unat v)"
proof (induction v rule: WriteVarint32ToArray.induct)
  case (1 v)
  show ?case
  proof (cases "0x80 \<le> v")
    case True
    then have large: "128 \<le> unat v" by (simp add: word_le_nat_alt)
    have d: "unat (drop_bit 7 v) = unat v div 128" by (simp add: drop_bit_eq_div unat_div_distrib)
    have "WriteVarint32ToArray v = ucast (v OR 0x80) # WriteVarint32ToArray (drop_bit 7 v)"
      using True by (subst WriteVarint32ToArray.simps) simp
    also have "\<dots> = of_nat (unat v mod 128 + 128) # varint (unat v div 128)"
      by (simp only: high_bit_byte 1[OF True] d)
    also have "\<dots> = varint (unat v)" using large by (subst (2) varint.simps) simp
    finally show ?thesis .
  next
    case False
    then have "unat v < 128" by (simp add: word_le_nat_alt)
    then show ?thesis using False by (subst WriteVarint32ToArray.simps) (simp add: varint_small)
  qed
qed

lemma byte_word:
  fixes v :: "'a::len word"
  assumes "unat v < 128"
  shows "ucast (of_nat (unat v) :: u8) = v"
proof (rule word_unat_eq_iff[THEN iffD2])
  have "unat (of_nat (unat v) :: u8) = unat v"
    using assms by (subst unsigned_of_nat) (simp add: take_bit_nat_eq_self)
  then have "unat (ucast (of_nat (unat v) :: u8) :: 'a word) = take_bit LENGTH('a) (unat v)"
    by (simp only: unsigned_ucast_eq)
  also have "\<dots> = unat v" by (simp add: take_bit_nat_eq_self)
  finally show "unat (ucast (of_nat (unat v) :: u8) :: 'a word) = unat v" .
qed

lemma wire_okD:
  assumes "wire_ok w"
  shows wire_write64: "WriteVarint64ToArray w v = varint (unat v)"
    and wire_write_string: "WriteStringWithSizeToArray w s = varint (length s) @ s"
    and wire_size32_slow: "VarintSize32Fallback w u = length (varint (unat u))"
    and wire_size64: "VarintSize64 w v = length (varint (unat v))"
    and wire_read32_slow: "ReadVarint32Fallback w (varint (unat u) @ r) = Some (u, r)"
    and wire_read64_slow: "ReadVarint64Fallback w (varint (unat v) @ r) = Some (v, r)"
    and wire_read_size_slow: "n < 2 ^ 31 \<Longrightarrow> ReadVarintSizeAsIntFallback w (varint n @ r) = Some (n, r)"
    and wire_end: "ReadTagFallback w [] = (0, True, [])"
    and wire_read_string: "length s < 2 ^ 31 \<Longrightarrow> ReadBytes w (varint (length s) @ s @ r) = Some (s, r)"
    and wire_limit: "PushLimit w (length s) (s @ r) = Some (s, r)"
  using assms unfolding wire_ok_def by blast+

lemma small_byte: "n < 128 \<Longrightarrow> unat (of_nat n :: u8) = n" "n < 128 \<Longrightarrow> (of_nat n :: u8) < 0x80"
proof -
  assume n: "n < 128"
  then show "unat (of_nat n :: u8) = n" by (subst unsigned_of_nat) (simp add: take_bit_nat_eq_self)
  with n show "(of_nat n :: u8) < 0x80" by (simp add: word_less_nat_alt)
qed

lemma wire_size32: "wire_ok w \<Longrightarrow> VarintSize32 w u = length (varint (unat u))"
  by (cases "unat u < 128") (simp_all add: VarintSize32_def word_less_nat_alt wire_size32_slow varint_small)

lemma wire_read32:
  assumes "wire_ok w"
  shows "ReadVarint32 w (varint (unat u) @ r) = Some (u, r)"
proof (cases "unat u < 128")
  case True
  then show ?thesis using byte_word[OF True] small_byte[OF True] varint_small[OF True] by (simp add: ReadVarint32_def)
next
  case False
  then obtain b t where "varint (unat u) = b # t" "\<not> b < 0x80" using varint_large[of "unat u"] by auto
  then show ?thesis using wire_read32_slow[OF assms, of u r] by (simp add: ReadVarint32_def)
qed

lemma wire_read64:
  assumes "wire_ok w"
  shows "ReadVarint64 w (varint (unat v) @ r) = Some (v, r)"
proof (cases "unat v < 128")
  case True
  then show ?thesis using byte_word[OF True] small_byte[OF True] varint_small[OF True] by (simp add: ReadVarint64_def)
next
  case False
  then obtain b t where "varint (unat v) = b # t" "\<not> b < 0x80" using varint_large[of "unat v"] by auto
  then show ?thesis using wire_read64_slow[OF assms, of v r] by (simp add: ReadVarint64_def)
qed

lemma wire_read_size:
  assumes "wire_ok w" "n < 2 ^ 31"
  shows "ReadVarintSizeAsInt w (varint n @ r) = Some (n, r)"
proof (cases "n < 128")
  case True
  then show ?thesis using small_byte[OF True] varint_small[OF True] by (simp add: ReadVarintSizeAsInt_def)
next
  case False
  then obtain b t where "varint n = b # t" "\<not> b < 0x80" using varint_large[of n] by auto
  then show ?thesis using wire_read_size_slow[OF assms, of r] by (simp add: ReadVarintSizeAsInt_def)
qed

text \<open>The turns of the loop on what the writers wrote.\<close>

lemma merge_end: "wire_ok w \<Longrightarrow> cases 0 = None \<Longrightarrow> merge_loop w cases m [] = Some (True, True, m, [])"
  by (subst merge_loop.simps) (simp add: ReadTagWithCutoff_def wire_end)

lemma merge_tag:
  assumes tag: "0 < tag" "tag < 0x80" and h: "cases tag = Some h"
  shows "merge_loop w cases m (varint (unat tag) @ rest) = do {
    (ok, m, rest) \<leftarrow> h m rest;
    if ok then merge_loop w cases m rest else Some (False, False, m, rest) }"
proof -
  have n: "unat tag < 128" "0 < unat tag" using tag by (simp_all add: word_less_nat_alt)
  let ?b = "of_nat (unat tag) :: u8"
  have "0 < ?b" using n(2) small_byte(1)[OF n(1)] by (simp only: word_less_nat_alt unsigned_0)
  then have "ReadTagWithCutoff w 127 (?b # rest) = (tag, True, False, rest)"
    using small_byte(2)[OF n(1)] byte_word[OF n(1)] by (simp add: ReadTagWithCutoff_def)
  moreover have "varint (unat tag) = [?b]" by (rule varint_small[OF n(1)])
  ultimately show ?thesis using h by (subst merge_loop.simps) simp
qed

lemma merge_string:
  assumes w: "wire_ok w" and tag: "0 < MakeTag n WIRETYPE_LENGTH_DELIMITED" "MakeTag n WIRETYPE_LENGTH_DELIMITED < 0x80"
    and h: "cases (MakeTag n WIRETYPE_LENGTH_DELIMITED) = Some (read_string w put)"
    and s: "length s < 2 ^ 31" "VerifyUtf8String w s" "put [] m = m"
  shows "merge_loop w cases m ((if s \<noteq> [] then WriteStringToArray w n s else []) @ rest) = merge_loop w cases (put s m) rest"
  using s(2,3) wire_read_string[OF w s(1), of rest]
  by (cases "s = []") (simp_all add: WriteStringToArray_def merge_tag[OF tag, of cases, OF h] read_string_def wire_write_string[OF w] WriteVarint32_varint)

lemma merge_uint32:
  assumes w: "wire_ok w" and tag: "0 < MakeTag n WIRETYPE_VARINT" "MakeTag n WIRETYPE_VARINT < 0x80"
    and h: "cases (MakeTag n WIRETYPE_VARINT) = Some (read_uint32 w put)" and v: "put 0 m = m"
  shows "merge_loop w cases m ((if v \<noteq> 0 then WriteUInt32ToArray n v else []) @ rest) = merge_loop w cases (put v m) rest"
  using v by (cases "v = 0") (simp_all add: WriteUInt32ToArray_def merge_tag[OF tag, of cases, OF h] read_uint32_def
    WriteVarint32_varint wire_read32[OF w])

lemma merge_uint64:
  assumes w: "wire_ok w" and tag: "0 < MakeTag n WIRETYPE_VARINT" "MakeTag n WIRETYPE_VARINT < 0x80"
    and h: "cases (MakeTag n WIRETYPE_VARINT) = Some (read_uint64 w put)" and v: "put 0 m = m"
  shows "merge_loop w cases m ((if v \<noteq> 0 then WriteUInt64ToArray w n v else []) @ rest) = merge_loop w cases (put v m) rest"
  using v by (cases "v = 0") (simp_all add: WriteUInt64ToArray_def merge_tag[OF tag, of cases, OF h] read_uint64_def
    wire_write64[OF w] wire_read64[OF w] WriteVarint32_varint)

lemma merge_message:
  assumes w: "wire_ok w" and tag: "0 < MakeTag n WIRETYPE_LENGTH_DELIMITED" "MakeTag n WIRETYPE_LENGTH_DELIMITED < 0x80"
    and h: "cases (MakeTag n WIRETYPE_LENGTH_DELIMITED) = Some (ReadMessageNoVirtual w scases sub put)"
    and b: "length body < 2 ^ 31" "merge_loop w scases (sub m) body = Some (True, True, x, [])"
  shows "merge_loop w cases m (InternalWriteMessageNoVirtualToArray n (length body) body @ rest) = merge_loop w cases (put x m) rest"
proof -
  have "unat (of_nat (length body) :: u32) = length body" using b(1) by (simp add: unsigned_of_nat take_bit_nat_eq_self)
  then show ?thesis
    using wire_read_size[OF w b(1)] wire_limit[OF w] b(2)
    by (simp add: InternalWriteMessageNoVirtualToArray_def merge_tag[OF tag, of cases, OF h] ReadMessageNoVirtual_def WriteVarint32_varint)
qed

end
