(* ===== verification/Phx_Codec.thy ===== *)
theory Phx_Codec
  imports Phx_Wire
begin

text \<open>
  The generated code of the edit log messages (\<open>src/src/paxos/phxeditlog.pb.cpp\<close>): for each message the
  cases of its parser, its serialiser, the size that is cached before serialising, and the merge that
  copies it. What is serialised is parsed back, and has the size that was announced.
\<close>

section \<open>Messages\<close>

subsection \<open>\<open>LogMkdir\<close>\<close>

definition LogMkdir_Clear :: "LogMkdir \<Rightarrow> LogMkdir" where
  "LogMkdir_Clear m = m\<lparr>mkr_key := [], mkr_permission := 0, mkr_owner := [], mkr_group := [], mkr_mtime := 0\<rparr>"

definition LogMkdir_cases :: "wire \<Rightarrow> u32 \<Rightarrow> LogMkdir field_case option" where
  "LogMkdir_cases w tag =
     (if tag = 10 then Some (read_string w (\<lambda>x m. m\<lparr>mkr_key := x\<rparr>))
      else if tag = 16 then Some (read_uint32 w (\<lambda>x m. m\<lparr>mkr_permission := x\<rparr>))
      else if tag = 26 then Some (read_string w (\<lambda>x m. m\<lparr>mkr_owner := x\<rparr>))
      else if tag = 34 then Some (read_string w (\<lambda>x m. m\<lparr>mkr_group := x\<rparr>))
      else if tag = 40 then Some (read_uint64 w (\<lambda>x m. m\<lparr>mkr_mtime := x\<rparr>))
      else None)"

definition LogMkdir_MergePartialFromCodedStream :: "wire \<Rightarrow> LogMkdir \<Rightarrow> bytes \<Rightarrow> (bool \<times> bool \<times> LogMkdir \<times> bytes) option" where
  "LogMkdir_MergePartialFromCodedStream w = merge_loop w (LogMkdir_cases w)"

definition LogMkdir_SerializeToArray :: "wire \<Rightarrow> LogMkdir \<Rightarrow> bytes" where
  "LogMkdir_SerializeToArray w m =
     (if mkr_key m \<noteq> [] then WriteStringToArray w 1 (mkr_key m) else []) @
     (if mkr_permission m \<noteq> 0 then WriteUInt32ToArray 2 (mkr_permission m) else []) @
     (if mkr_owner m \<noteq> [] then WriteStringToArray w 3 (mkr_owner m) else []) @
     (if mkr_group m \<noteq> [] then WriteStringToArray w 4 (mkr_group m) else []) @
     (if mkr_mtime m \<noteq> 0 then WriteUInt64ToArray w 5 (mkr_mtime m) else [])"

definition LogMkdir_ByteSizeLong :: "wire \<Rightarrow> LogMkdir \<Rightarrow> nat" where
  "LogMkdir_ByteSizeLong w m =
     (if mkr_key m \<noteq> [] then 1 + LengthDelimitedSize w (length (mkr_key m)) else 0) +
     (if mkr_permission m \<noteq> 0 then 1 + VarintSize32 w (mkr_permission m) else 0) +
     (if mkr_owner m \<noteq> [] then 1 + LengthDelimitedSize w (length (mkr_owner m)) else 0) +
     (if mkr_group m \<noteq> [] then 1 + LengthDelimitedSize w (length (mkr_group m)) else 0) +
     (if mkr_mtime m \<noteq> 0 then 1 + VarintSize64 w (mkr_mtime m) else 0)"

definition LogMkdir_UnsafeMergeFrom :: "LogMkdir \<Rightarrow> LogMkdir \<Rightarrow> LogMkdir" where
  "LogMkdir_UnsafeMergeFrom from m =
     (let m = (if mkr_key from \<noteq> [] then m\<lparr>mkr_key := mkr_key from\<rparr> else m) in
     (let m = (if mkr_permission from \<noteq> 0 then m\<lparr>mkr_permission := mkr_permission from\<rparr> else m) in
     (let m = (if mkr_owner from \<noteq> [] then m\<lparr>mkr_owner := mkr_owner from\<rparr> else m) in
     (let m = (if mkr_group from \<noteq> [] then m\<lparr>mkr_group := mkr_group from\<rparr> else m) in
     (let m = (if mkr_mtime from \<noteq> 0 then m\<lparr>mkr_mtime := mkr_mtime from\<rparr> else m) in
      m)))))"

definition LogMkdir_CopyFrom :: "LogMkdir \<Rightarrow> LogMkdir \<Rightarrow> LogMkdir" where
  "LogMkdir_CopyFrom from m = LogMkdir_UnsafeMergeFrom from (LogMkdir_Clear m)"

subsection \<open>\<open>LogRmr\<close>\<close>

definition LogRmr_Clear :: "LogRmr \<Rightarrow> LogRmr" where
  "LogRmr_Clear m = m\<lparr>rmr_key := [], rmr_mtime := 0\<rparr>"

definition LogRmr_cases :: "wire \<Rightarrow> u32 \<Rightarrow> LogRmr field_case option" where
  "LogRmr_cases w tag =
     (if tag = 10 then Some (read_string w (\<lambda>x m. m\<lparr>rmr_key := x\<rparr>))
      else if tag = 16 then Some (read_uint64 w (\<lambda>x m. m\<lparr>rmr_mtime := x\<rparr>))
      else None)"

definition LogRmr_MergePartialFromCodedStream :: "wire \<Rightarrow> LogRmr \<Rightarrow> bytes \<Rightarrow> (bool \<times> bool \<times> LogRmr \<times> bytes) option" where
  "LogRmr_MergePartialFromCodedStream w = merge_loop w (LogRmr_cases w)"

definition LogRmr_SerializeToArray :: "wire \<Rightarrow> LogRmr \<Rightarrow> bytes" where
  "LogRmr_SerializeToArray w m =
     (if rmr_key m \<noteq> [] then WriteStringToArray w 1 (rmr_key m) else []) @
     (if rmr_mtime m \<noteq> 0 then WriteUInt64ToArray w 2 (rmr_mtime m) else [])"

definition LogRmr_ByteSizeLong :: "wire \<Rightarrow> LogRmr \<Rightarrow> nat" where
  "LogRmr_ByteSizeLong w m =
     (if rmr_key m \<noteq> [] then 1 + LengthDelimitedSize w (length (rmr_key m)) else 0) +
     (if rmr_mtime m \<noteq> 0 then 1 + VarintSize64 w (rmr_mtime m) else 0)"

definition LogRmr_UnsafeMergeFrom :: "LogRmr \<Rightarrow> LogRmr \<Rightarrow> LogRmr" where
  "LogRmr_UnsafeMergeFrom from m =
     (let m = (if rmr_key from \<noteq> [] then m\<lparr>rmr_key := rmr_key from\<rparr> else m) in
     (let m = (if rmr_mtime from \<noteq> 0 then m\<lparr>rmr_mtime := rmr_mtime from\<rparr> else m) in
      m))"

definition LogRmr_CopyFrom :: "LogRmr \<Rightarrow> LogRmr \<Rightarrow> LogRmr" where
  "LogRmr_CopyFrom from m = LogRmr_UnsafeMergeFrom from (LogRmr_Clear m)"

subsection \<open>\<open>LogCreate\<close>\<close>

definition LogCreate_Clear :: "LogCreate \<Rightarrow> LogCreate" where
  "LogCreate_Clear m = m\<lparr>cre_key := [], cre_permission := 0, cre_owner := [], cre_group := [], cre_mtime := 0, cre_blk_id := 0, cre_blk_sz := 0, cre_blk_rep := 0\<rparr>"

definition LogCreate_cases :: "wire \<Rightarrow> u32 \<Rightarrow> LogCreate field_case option" where
  "LogCreate_cases w tag =
     (if tag = 10 then Some (read_string w (\<lambda>x m. m\<lparr>cre_key := x\<rparr>))
      else if tag = 16 then Some (read_uint32 w (\<lambda>x m. m\<lparr>cre_permission := x\<rparr>))
      else if tag = 26 then Some (read_string w (\<lambda>x m. m\<lparr>cre_owner := x\<rparr>))
      else if tag = 34 then Some (read_string w (\<lambda>x m. m\<lparr>cre_group := x\<rparr>))
      else if tag = 40 then Some (read_uint64 w (\<lambda>x m. m\<lparr>cre_mtime := x\<rparr>))
      else if tag = 48 then Some (read_uint64 w (\<lambda>x m. m\<lparr>cre_blk_id := x\<rparr>))
      else if tag = 56 then Some (read_uint64 w (\<lambda>x m. m\<lparr>cre_blk_sz := x\<rparr>))
      else if tag = 64 then Some (read_uint32 w (\<lambda>x m. m\<lparr>cre_blk_rep := x\<rparr>))
      else None)"

definition LogCreate_MergePartialFromCodedStream :: "wire \<Rightarrow> LogCreate \<Rightarrow> bytes \<Rightarrow> (bool \<times> bool \<times> LogCreate \<times> bytes) option" where
  "LogCreate_MergePartialFromCodedStream w = merge_loop w (LogCreate_cases w)"

definition LogCreate_SerializeToArray :: "wire \<Rightarrow> LogCreate \<Rightarrow> bytes" where
  "LogCreate_SerializeToArray w m =
     (if cre_key m \<noteq> [] then WriteStringToArray w 1 (cre_key m) else []) @
     (if cre_permission m \<noteq> 0 then WriteUInt32ToArray 2 (cre_permission m) else []) @
     (if cre_owner m \<noteq> [] then WriteStringToArray w 3 (cre_owner m) else []) @
     (if cre_group m \<noteq> [] then WriteStringToArray w 4 (cre_group m) else []) @
     (if cre_mtime m \<noteq> 0 then WriteUInt64ToArray w 5 (cre_mtime m) else []) @
     (if cre_blk_id m \<noteq> 0 then WriteUInt64ToArray w 6 (cre_blk_id m) else []) @
     (if cre_blk_sz m \<noteq> 0 then WriteUInt64ToArray w 7 (cre_blk_sz m) else []) @
     (if cre_blk_rep m \<noteq> 0 then WriteUInt32ToArray 8 (cre_blk_rep m) else [])"

definition LogCreate_ByteSizeLong :: "wire \<Rightarrow> LogCreate \<Rightarrow> nat" where
  "LogCreate_ByteSizeLong w m =
     (if cre_key m \<noteq> [] then 1 + LengthDelimitedSize w (length (cre_key m)) else 0) +
     (if cre_permission m \<noteq> 0 then 1 + VarintSize32 w (cre_permission m) else 0) +
     (if cre_owner m \<noteq> [] then 1 + LengthDelimitedSize w (length (cre_owner m)) else 0) +
     (if cre_group m \<noteq> [] then 1 + LengthDelimitedSize w (length (cre_group m)) else 0) +
     (if cre_mtime m \<noteq> 0 then 1 + VarintSize64 w (cre_mtime m) else 0) +
     (if cre_blk_id m \<noteq> 0 then 1 + VarintSize64 w (cre_blk_id m) else 0) +
     (if cre_blk_sz m \<noteq> 0 then 1 + VarintSize64 w (cre_blk_sz m) else 0) +
     (if cre_blk_rep m \<noteq> 0 then 1 + VarintSize32 w (cre_blk_rep m) else 0)"

definition LogCreate_UnsafeMergeFrom :: "LogCreate \<Rightarrow> LogCreate \<Rightarrow> LogCreate" where
  "LogCreate_UnsafeMergeFrom from m =
     (let m = (if cre_key from \<noteq> [] then m\<lparr>cre_key := cre_key from\<rparr> else m) in
     (let m = (if cre_permission from \<noteq> 0 then m\<lparr>cre_permission := cre_permission from\<rparr> else m) in
     (let m = (if cre_owner from \<noteq> [] then m\<lparr>cre_owner := cre_owner from\<rparr> else m) in
     (let m = (if cre_group from \<noteq> [] then m\<lparr>cre_group := cre_group from\<rparr> else m) in
     (let m = (if cre_mtime from \<noteq> 0 then m\<lparr>cre_mtime := cre_mtime from\<rparr> else m) in
     (let m = (if cre_blk_id from \<noteq> 0 then m\<lparr>cre_blk_id := cre_blk_id from\<rparr> else m) in
     (let m = (if cre_blk_sz from \<noteq> 0 then m\<lparr>cre_blk_sz := cre_blk_sz from\<rparr> else m) in
     (let m = (if cre_blk_rep from \<noteq> 0 then m\<lparr>cre_blk_rep := cre_blk_rep from\<rparr> else m) in
      m))))))))"

definition LogCreate_CopyFrom :: "LogCreate \<Rightarrow> LogCreate \<Rightarrow> LogCreate" where
  "LogCreate_CopyFrom from m = LogCreate_UnsafeMergeFrom from (LogCreate_Clear m)"

subsection \<open>\<open>LogGetAdditionalBlk\<close>\<close>

definition LogGetAdditionalBlk_Clear :: "LogGetAdditionalBlk \<Rightarrow> LogGetAdditionalBlk" where
  "LogGetAdditionalBlk_Clear m = m\<lparr>gab_key := [], gab_blk_id := 0, gab_blk_sz := 0, gab_blk_rep := 0\<rparr>"

definition LogGetAdditionalBlk_cases :: "wire \<Rightarrow> u32 \<Rightarrow> LogGetAdditionalBlk field_case option" where
  "LogGetAdditionalBlk_cases w tag =
     (if tag = 10 then Some (read_string w (\<lambda>x m. m\<lparr>gab_key := x\<rparr>))
      else if tag = 16 then Some (read_uint64 w (\<lambda>x m. m\<lparr>gab_blk_id := x\<rparr>))
      else if tag = 24 then Some (read_uint64 w (\<lambda>x m. m\<lparr>gab_blk_sz := x\<rparr>))
      else if tag = 32 then Some (read_uint32 w (\<lambda>x m. m\<lparr>gab_blk_rep := x\<rparr>))
      else None)"

definition LogGetAdditionalBlk_MergePartialFromCodedStream :: "wire \<Rightarrow> LogGetAdditionalBlk \<Rightarrow> bytes \<Rightarrow> (bool \<times> bool \<times> LogGetAdditionalBlk \<times> bytes) option" where
  "LogGetAdditionalBlk_MergePartialFromCodedStream w = merge_loop w (LogGetAdditionalBlk_cases w)"

definition LogGetAdditionalBlk_SerializeToArray :: "wire \<Rightarrow> LogGetAdditionalBlk \<Rightarrow> bytes" where
  "LogGetAdditionalBlk_SerializeToArray w m =
     (if gab_key m \<noteq> [] then WriteStringToArray w 1 (gab_key m) else []) @
     (if gab_blk_id m \<noteq> 0 then WriteUInt64ToArray w 2 (gab_blk_id m) else []) @
     (if gab_blk_sz m \<noteq> 0 then WriteUInt64ToArray w 3 (gab_blk_sz m) else []) @
     (if gab_blk_rep m \<noteq> 0 then WriteUInt32ToArray 4 (gab_blk_rep m) else [])"

definition LogGetAdditionalBlk_ByteSizeLong :: "wire \<Rightarrow> LogGetAdditionalBlk \<Rightarrow> nat" where
  "LogGetAdditionalBlk_ByteSizeLong w m =
     (if gab_key m \<noteq> [] then 1 + LengthDelimitedSize w (length (gab_key m)) else 0) +
     (if gab_blk_id m \<noteq> 0 then 1 + VarintSize64 w (gab_blk_id m) else 0) +
     (if gab_blk_sz m \<noteq> 0 then 1 + VarintSize64 w (gab_blk_sz m) else 0) +
     (if gab_blk_rep m \<noteq> 0 then 1 + VarintSize32 w (gab_blk_rep m) else 0)"

definition LogGetAdditionalBlk_UnsafeMergeFrom :: "LogGetAdditionalBlk \<Rightarrow> LogGetAdditionalBlk \<Rightarrow> LogGetAdditionalBlk" where
  "LogGetAdditionalBlk_UnsafeMergeFrom from m =
     (let m = (if gab_key from \<noteq> [] then m\<lparr>gab_key := gab_key from\<rparr> else m) in
     (let m = (if gab_blk_id from \<noteq> 0 then m\<lparr>gab_blk_id := gab_blk_id from\<rparr> else m) in
     (let m = (if gab_blk_sz from \<noteq> 0 then m\<lparr>gab_blk_sz := gab_blk_sz from\<rparr> else m) in
     (let m = (if gab_blk_rep from \<noteq> 0 then m\<lparr>gab_blk_rep := gab_blk_rep from\<rparr> else m) in
      m))))"

definition LogGetAdditionalBlk_CopyFrom :: "LogGetAdditionalBlk \<Rightarrow> LogGetAdditionalBlk \<Rightarrow> LogGetAdditionalBlk" where
  "LogGetAdditionalBlk_CopyFrom from m = LogGetAdditionalBlk_UnsafeMergeFrom from (LogGetAdditionalBlk_Clear m)"

subsection \<open>\<open>LogClose\<close>\<close>

definition LogClose_Clear :: "LogClose \<Rightarrow> LogClose" where
  "LogClose_Clear m = m\<lparr>cle_key := [], cle_mtime := 0, cle_len := 0, cle_blk_rep := 0\<rparr>"

definition LogClose_cases :: "wire \<Rightarrow> u32 \<Rightarrow> LogClose field_case option" where
  "LogClose_cases w tag =
     (if tag = 10 then Some (read_string w (\<lambda>x m. m\<lparr>cle_key := x\<rparr>))
      else if tag = 16 then Some (read_uint64 w (\<lambda>x m. m\<lparr>cle_mtime := x\<rparr>))
      else if tag = 24 then Some (read_uint64 w (\<lambda>x m. m\<lparr>cle_len := x\<rparr>))
      else if tag = 32 then Some (read_uint32 w (\<lambda>x m. m\<lparr>cle_blk_rep := x\<rparr>))
      else None)"

definition LogClose_MergePartialFromCodedStream :: "wire \<Rightarrow> LogClose \<Rightarrow> bytes \<Rightarrow> (bool \<times> bool \<times> LogClose \<times> bytes) option" where
  "LogClose_MergePartialFromCodedStream w = merge_loop w (LogClose_cases w)"

definition LogClose_SerializeToArray :: "wire \<Rightarrow> LogClose \<Rightarrow> bytes" where
  "LogClose_SerializeToArray w m =
     (if cle_key m \<noteq> [] then WriteStringToArray w 1 (cle_key m) else []) @
     (if cle_mtime m \<noteq> 0 then WriteUInt64ToArray w 2 (cle_mtime m) else []) @
     (if cle_len m \<noteq> 0 then WriteUInt64ToArray w 3 (cle_len m) else []) @
     (if cle_blk_rep m \<noteq> 0 then WriteUInt32ToArray 4 (cle_blk_rep m) else [])"

definition LogClose_ByteSizeLong :: "wire \<Rightarrow> LogClose \<Rightarrow> nat" where
  "LogClose_ByteSizeLong w m =
     (if cle_key m \<noteq> [] then 1 + LengthDelimitedSize w (length (cle_key m)) else 0) +
     (if cle_mtime m \<noteq> 0 then 1 + VarintSize64 w (cle_mtime m) else 0) +
     (if cle_len m \<noteq> 0 then 1 + VarintSize64 w (cle_len m) else 0) +
     (if cle_blk_rep m \<noteq> 0 then 1 + VarintSize32 w (cle_blk_rep m) else 0)"

definition LogClose_UnsafeMergeFrom :: "LogClose \<Rightarrow> LogClose \<Rightarrow> LogClose" where
  "LogClose_UnsafeMergeFrom from m =
     (let m = (if cle_key from \<noteq> [] then m\<lparr>cle_key := cle_key from\<rparr> else m) in
     (let m = (if cle_mtime from \<noteq> 0 then m\<lparr>cle_mtime := cle_mtime from\<rparr> else m) in
     (let m = (if cle_len from \<noteq> 0 then m\<lparr>cle_len := cle_len from\<rparr> else m) in
     (let m = (if cle_blk_rep from \<noteq> 0 then m\<lparr>cle_blk_rep := cle_blk_rep from\<rparr> else m) in
      m))))"

definition LogClose_CopyFrom :: "LogClose \<Rightarrow> LogClose \<Rightarrow> LogClose" where
  "LogClose_CopyFrom from m = LogClose_UnsafeMergeFrom from (LogClose_Clear m)"

subsection \<open>\<open>LogRm\<close>\<close>

definition LogRm_Clear :: "LogRm \<Rightarrow> LogRm" where
  "LogRm_Clear m = m\<lparr>rm_key := [], rm_mtime := 0\<rparr>"

definition LogRm_cases :: "wire \<Rightarrow> u32 \<Rightarrow> LogRm field_case option" where
  "LogRm_cases w tag =
     (if tag = 10 then Some (read_string w (\<lambda>x m. m\<lparr>rm_key := x\<rparr>))
      else if tag = 16 then Some (read_uint64 w (\<lambda>x m. m\<lparr>rm_mtime := x\<rparr>))
      else None)"

definition LogRm_MergePartialFromCodedStream :: "wire \<Rightarrow> LogRm \<Rightarrow> bytes \<Rightarrow> (bool \<times> bool \<times> LogRm \<times> bytes) option" where
  "LogRm_MergePartialFromCodedStream w = merge_loop w (LogRm_cases w)"

definition LogRm_SerializeToArray :: "wire \<Rightarrow> LogRm \<Rightarrow> bytes" where
  "LogRm_SerializeToArray w m =
     (if rm_key m \<noteq> [] then WriteStringToArray w 1 (rm_key m) else []) @
     (if rm_mtime m \<noteq> 0 then WriteUInt64ToArray w 2 (rm_mtime m) else [])"

definition LogRm_ByteSizeLong :: "wire \<Rightarrow> LogRm \<Rightarrow> nat" where
  "LogRm_ByteSizeLong w m =
     (if rm_key m \<noteq> [] then 1 + LengthDelimitedSize w (length (rm_key m)) else 0) +
     (if rm_mtime m \<noteq> 0 then 1 + VarintSize64 w (rm_mtime m) else 0)"

definition LogRm_UnsafeMergeFrom :: "LogRm \<Rightarrow> LogRm \<Rightarrow> LogRm" where
  "LogRm_UnsafeMergeFrom from m =
     (let m = (if rm_key from \<noteq> [] then m\<lparr>rm_key := rm_key from\<rparr> else m) in
     (let m = (if rm_mtime from \<noteq> 0 then m\<lparr>rm_mtime := rm_mtime from\<rparr> else m) in
      m))"

definition LogRm_CopyFrom :: "LogRm \<Rightarrow> LogRm \<Rightarrow> LogRm" where
  "LogRm_CopyFrom from m = LogRm_UnsafeMergeFrom from (LogRm_Clear m)"

subsection \<open>\<open>LogOperator\<close>\<close>

definition LogOperator_Clear :: "LogOperator \<Rightarrow> LogOperator" where
  "LogOperator_Clear l = l\<lparr>optype := 0, mkr := None, rmr := None, cre := None, gab := None, cle := None, rm := None\<rparr>"

definition LogOperator_cases :: "wire \<Rightarrow> u32 \<Rightarrow> LogOperator field_case option" where
  "LogOperator_cases w tag =
     (if tag = 8 then Some (read_uint32 w (\<lambda>x l. l\<lparr>optype := x\<rparr>))
      else if tag = 18 then Some (ReadMessageNoVirtual w (LogMkdir_cases w) mutable_mkr (\<lambda>x l. l\<lparr>mkr := Some x\<rparr>))
      else if tag = 26 then Some (ReadMessageNoVirtual w (LogRmr_cases w) mutable_rmr (\<lambda>x l. l\<lparr>rmr := Some x\<rparr>))
      else if tag = 34 then Some (ReadMessageNoVirtual w (LogCreate_cases w) mutable_cre (\<lambda>x l. l\<lparr>cre := Some x\<rparr>))
      else if tag = 42 then Some (ReadMessageNoVirtual w (LogGetAdditionalBlk_cases w) mutable_gab (\<lambda>x l. l\<lparr>gab := Some x\<rparr>))
      else if tag = 50 then Some (ReadMessageNoVirtual w (LogClose_cases w) mutable_cle (\<lambda>x l. l\<lparr>cle := Some x\<rparr>))
      else if tag = 58 then Some (ReadMessageNoVirtual w (LogRm_cases w) mutable_rm (\<lambda>x l. l\<lparr>rm := Some x\<rparr>))
      else None)"

definition LogOperator_MergePartialFromCodedStream :: "wire \<Rightarrow> LogOperator \<Rightarrow> bytes \<Rightarrow> (bool \<times> bool \<times> LogOperator \<times> bytes) option" where
  "LogOperator_MergePartialFromCodedStream w = merge_loop w (LogOperator_cases w)"

text \<open>A sub-message that is set is written also when it is empty.\<close>

definition write_sub :: "u32 \<Rightarrow> ('s \<Rightarrow> nat) \<Rightarrow> ('s \<Rightarrow> bytes) \<Rightarrow> 's option \<Rightarrow> bytes" where
  "write_sub n bsize ser x = (case x of None \<Rightarrow> [] | Some m \<Rightarrow> InternalWriteMessageNoVirtualToArray n (bsize m) (ser m))"

definition sub_size :: "wire \<Rightarrow> ('s \<Rightarrow> nat) \<Rightarrow> 's option \<Rightarrow> nat" where
  "sub_size w bsize x = (case x of None \<Rightarrow> 0 | Some m \<Rightarrow> 1 + LengthDelimitedSize w (bsize m))"

definition LogOperator_SerializeToArray :: "wire \<Rightarrow> LogOperator \<Rightarrow> bytes" where
  "LogOperator_SerializeToArray w l =
     (if optype l \<noteq> 0 then WriteUInt32ToArray 1 (optype l) else []) @
     write_sub 2 (LogMkdir_ByteSizeLong w) (LogMkdir_SerializeToArray w) (mkr l) @
     write_sub 3 (LogRmr_ByteSizeLong w) (LogRmr_SerializeToArray w) (rmr l) @
     write_sub 4 (LogCreate_ByteSizeLong w) (LogCreate_SerializeToArray w) (cre l) @
     write_sub 5 (LogGetAdditionalBlk_ByteSizeLong w) (LogGetAdditionalBlk_SerializeToArray w) (gab l) @
     write_sub 6 (LogClose_ByteSizeLong w) (LogClose_SerializeToArray w) (cle l) @
     write_sub 7 (LogRm_ByteSizeLong w) (LogRm_SerializeToArray w) (rm l)"

definition LogOperator_ByteSizeLong :: "wire \<Rightarrow> LogOperator \<Rightarrow> nat" where
  "LogOperator_ByteSizeLong w l =
     (if optype l \<noteq> 0 then 1 + VarintSize32 w (optype l) else 0) +
     sub_size w (LogMkdir_ByteSizeLong w) (mkr l) +
     sub_size w (LogRmr_ByteSizeLong w) (rmr l) +
     sub_size w (LogCreate_ByteSizeLong w) (cre l) +
     sub_size w (LogGetAdditionalBlk_ByteSizeLong w) (gab l) +
     sub_size w (LogClose_ByteSizeLong w) (cle l) +
     sub_size w (LogRm_ByteSizeLong w) (rm l)"

definition LogOperator_UnsafeMergeFrom :: "LogOperator \<Rightarrow> LogOperator \<Rightarrow> LogOperator" where
  "LogOperator_UnsafeMergeFrom from l =
     (let l = (if optype from \<noteq> 0 then l\<lparr>optype := optype from\<rparr> else l) in
     (let l = (case mkr from of None \<Rightarrow> l | Some x \<Rightarrow> l\<lparr>mkr := Some (LogMkdir_UnsafeMergeFrom x (mutable_mkr l))\<rparr>) in
     (let l = (case rmr from of None \<Rightarrow> l | Some x \<Rightarrow> l\<lparr>rmr := Some (LogRmr_UnsafeMergeFrom x (mutable_rmr l))\<rparr>) in
     (let l = (case cre from of None \<Rightarrow> l | Some x \<Rightarrow> l\<lparr>cre := Some (LogCreate_UnsafeMergeFrom x (mutable_cre l))\<rparr>) in
     (let l = (case gab from of None \<Rightarrow> l | Some x \<Rightarrow> l\<lparr>gab := Some (LogGetAdditionalBlk_UnsafeMergeFrom x (mutable_gab l))\<rparr>) in
     (let l = (case cle from of None \<Rightarrow> l | Some x \<Rightarrow> l\<lparr>cle := Some (LogClose_UnsafeMergeFrom x (mutable_cle l))\<rparr>) in
     (let l = (case rm from of None \<Rightarrow> l | Some x \<Rightarrow> l\<lparr>rm := Some (LogRm_UnsafeMergeFrom x (mutable_rm l))\<rparr>) in
      l)))))))"

definition LogOperator_CopyFrom :: "LogOperator \<Rightarrow> LogOperator \<Rightarrow> LogOperator" where
  "LogOperator_CopyFrom from l = LogOperator_UnsafeMergeFrom from (LogOperator_Clear l)"

text \<open>
  What \<open>ParseFromString\<close> does with the generated code: clear, merge, and succeed if the whole input was
  read. The message holds what was merged also when it fails.
\<close>

definition LogOperator_ParseFromString :: "wire \<Rightarrow> bytes \<Rightarrow> (bool \<times> LogOperator) option" where
  "LogOperator_ParseFromString w input = do {
     (ok, end, l, _) \<leftarrow> LogOperator_MergePartialFromCodedStream w LogOperator0 input;
     Some (ok \<and> end, l) }"

definition LogOperator_SerializeToString :: "wire \<Rightarrow> LogOperator \<Rightarrow> bytes" where
  "LogOperator_SerializeToString w l = LogOperator_SerializeToArray w l"

section \<open>Sizes\<close>

text \<open>Strings that fit the length fields and that the parser accepts.\<close>

definition text_ok :: "wire \<Rightarrow> bytes \<Rightarrow> bool" where
  "text_ok w s \<longleftrightarrow> length s < 2 ^ 16 \<and> VerifyUtf8String w s"

lemmas wire_tags = MakeTag_def WIRETYPE_VARINT_def WIRETYPE_LENGTH_DELIMITED_def

lemma varint_length: "n < 2 ^ (7 * k) \<Longrightarrow> 0 < k \<Longrightarrow> length (varint n) \<le> k"
proof (induction n arbitrary: k rule: varint.induct)
  case (1 n)
  show ?case
  proof (cases "n < 128")
    case True
    then show ?thesis using 1(3) by (simp add: varint_small)
  next
    case False
    then have "k \<noteq> 1" using 1(2) by auto
    then obtain j where j: "k = Suc j" "0 < j" using 1(3) by (cases k) auto
    have "n div 128 < 2 ^ (7 * j)" using 1(2) j(1) by (simp add: less_mult_imp_div_less power_add)
    then have "length (varint (n div 128)) \<le> j" using 1(1)[OF False] j(2) by blast
    then show ?thesis using False j(1) by (subst varint.simps) simp
  qed
qed

lemma tag_length: "tag < 0x80 \<Longrightarrow> length (WriteVarint32ToArray tag) = 1"
  by (simp add: WriteVarint32_varint varint_small word_less_nat_alt)

lemma write_length:
  assumes w: "wire_ok w"
  shows "MakeTag n WIRETYPE_LENGTH_DELIMITED < 0x80 \<Longrightarrow> length s < 2 ^ 32 \<Longrightarrow>
      length (WriteStringToArray w n s) = 1 + LengthDelimitedSize w (length s)"
    and "MakeTag n WIRETYPE_VARINT < 0x80 \<Longrightarrow> length (WriteUInt32ToArray n u) = 1 + VarintSize32 w u"
    and "MakeTag n WIRETYPE_VARINT < 0x80 \<Longrightarrow> length (WriteUInt64ToArray w n v) = 1 + VarintSize64 w v"
    and "MakeTag n WIRETYPE_LENGTH_DELIMITED < 0x80 \<Longrightarrow> length (InternalWriteMessageNoVirtualToArray n c s) = 1 + VarintSize32 w (of_nat c) + length s"
  by (simp_all add: WriteStringToArray_def WriteUInt32ToArray_def WriteUInt64ToArray_def InternalWriteMessageNoVirtualToArray_def
    LengthDelimitedSize_def tag_length wire_write_string[OF w] wire_write64[OF w] wire_size32[OF w] wire_size64[OF w]
    WriteVarint32_varint[of "of_nat _"] WriteVarint32_varint[of u] unsigned_of_nat take_bit_nat_eq_self)

lemma size_bounds:
  assumes "wire_ok w"
  shows "VarintSize32 w u \<le> 5" "VarintSize64 w v \<le> 10" "LengthDelimitedSize w n \<le> 5 + n"
proof -
  have "unat u < 2 ^ (7 * 5)" for u :: u32 using unsigned_less[of u, where ?'a = nat] by simp
  then show 32: "VarintSize32 w u \<le> 5" for u using varint_length[of "unat u" 5] by (simp add: wire_size32[OF assms])
  have "unat v < 2 ^ (7 * 10)" using unsigned_less[of v, where ?'a = nat] by simp
  then show "VarintSize64 w v \<le> 10" using varint_length[of "unat v" 10] by (simp add: wire_size64[OF assms])
  show "LengthDelimitedSize w n \<le> 5 + n" using 32[of "of_nat n"] by (simp add: LengthDelimitedSize_def)
qed

lemma if_size: "x \<le> k \<Longrightarrow> (if c then 1 + x else 0) \<le> 1 + (k :: nat)"
  by simp

lemma text_okD: "text_ok w s \<Longrightarrow> length s < 2 ^ 16" "text_ok w s \<Longrightarrow> length s < 2 ^ 31" "text_ok w s \<Longrightarrow> VerifyUtf8String w s"
  by (auto simp: text_ok_def)

lemma short_text: "length s < 2 ^ 16 \<Longrightarrow> length s < (2 ^ 32 :: nat)"
    "length s < 2 ^ 16 \<Longrightarrow> wire_ok w \<Longrightarrow> LengthDelimitedSize w (length s) \<le> 131072"
  using size_bounds(3)[of w "length s"] by auto

section \<open>Round trips\<close>

lemma LogMkdir_case:
  "LogMkdir_cases w (MakeTag 1 WIRETYPE_LENGTH_DELIMITED) = Some (read_string w (\<lambda>x m. m\<lparr>mkr_key := x\<rparr>))"
  "LogMkdir_cases w (MakeTag 2 WIRETYPE_VARINT) = Some (read_uint32 w (\<lambda>x m. m\<lparr>mkr_permission := x\<rparr>))"
  "LogMkdir_cases w (MakeTag 3 WIRETYPE_LENGTH_DELIMITED) = Some (read_string w (\<lambda>x m. m\<lparr>mkr_owner := x\<rparr>))"
  "LogMkdir_cases w (MakeTag 4 WIRETYPE_LENGTH_DELIMITED) = Some (read_string w (\<lambda>x m. m\<lparr>mkr_group := x\<rparr>))"
  "LogMkdir_cases w (MakeTag 5 WIRETYPE_VARINT) = Some (read_uint64 w (\<lambda>x m. m\<lparr>mkr_mtime := x\<rparr>))"
  "LogMkdir_cases w 0 = None"
  by (simp_all add: LogMkdir_cases_def wire_tags)

lemma LogMkdir_size:
  assumes w: "wire_ok w" and t: "length (mkr_key m) < 2 ^ 16" "length (mkr_owner m) < 2 ^ 16" "length (mkr_group m) < 2 ^ 16"
  shows "length (LogMkdir_SerializeToArray w m) = LogMkdir_ByteSizeLong w m" "LogMkdir_ByteSizeLong w m < 2 ^ 31"
proof -
  show "length (LogMkdir_SerializeToArray w m) = LogMkdir_ByteSizeLong w m"
    using t[THEN short_text(1)] by (simp add: LogMkdir_SerializeToArray_def LogMkdir_ByteSizeLong_def write_length[OF w] wire_tags)
  have "LogMkdir_ByteSizeLong w m \<le> 1000000"
    using if_size[OF short_text(2)[OF t(1) w], of "mkr_key m \<noteq> []"]
      if_size[OF size_bounds(1)[OF w], of "mkr_permission m \<noteq> 0" "mkr_permission m"]
      if_size[OF short_text(2)[OF t(2) w], of "mkr_owner m \<noteq> []"]
      if_size[OF short_text(2)[OF t(3) w], of "mkr_group m \<noteq> []"]
      if_size[OF size_bounds(2)[OF w], of "mkr_mtime m \<noteq> 0" "mkr_mtime m"]
    unfolding LogMkdir_ByteSizeLong_def by linarith
  then show "LogMkdir_ByteSizeLong w m < 2 ^ 31" by simp
qed

lemma LogMkdir_text_size:
  assumes "wire_ok w"
  shows "text_ok w (mkr_key m) \<Longrightarrow> text_ok w (mkr_owner m) \<Longrightarrow> text_ok w (mkr_group m) \<Longrightarrow> length (LogMkdir_SerializeToArray w m) = LogMkdir_ByteSizeLong w m"
    "text_ok w (mkr_key m) \<Longrightarrow> text_ok w (mkr_owner m) \<Longrightarrow> text_ok w (mkr_group m) \<Longrightarrow> LogMkdir_ByteSizeLong w m < 2147483648"
  using LogMkdir_size[OF assms, of m] by (simp_all add: text_ok_def)

lemma LogMkdir_parse:
  assumes w: "wire_ok w" and t: "text_ok w (mkr_key m)" "text_ok w (mkr_owner m)" "text_ok w (mkr_group m)"
  shows "merge_loop w (LogMkdir_cases w) LogMkdir0 (LogMkdir_SerializeToArray w m) = Some (True, True, m, [])"
proof -
  have 1: "merge_loop w (LogMkdir_cases w) LogMkdir0 ((if mkr_key m \<noteq> [] then WriteStringToArray w 1 (mkr_key m) else []) @ r) =
      merge_loop w (LogMkdir_cases w) (LogMkdir0\<lparr>mkr_key := mkr_key m\<rparr>) r" for r
    by (rule merge_string[where cases = "LogMkdir_cases w" and n = 1, OF w _ _ LogMkdir_case(1) text_okD(2)[OF t(1)] text_okD(3)[OF t(1)], THEN trans]) (simp_all add: wire_tags LogMkdir0_def)
  have 2: "merge_loop w (LogMkdir_cases w) (LogMkdir0\<lparr>mkr_key := mkr_key m\<rparr>) ((if mkr_permission m \<noteq> 0 then WriteUInt32ToArray 2 (mkr_permission m) else []) @ r) =
      merge_loop w (LogMkdir_cases w) (LogMkdir0\<lparr>mkr_key := mkr_key m, mkr_permission := mkr_permission m\<rparr>) r" for r
    by (rule merge_uint32[where cases = "LogMkdir_cases w" and n = 2, OF w _ _ LogMkdir_case(2), THEN trans]) (simp_all add: wire_tags LogMkdir0_def)
  have 3: "merge_loop w (LogMkdir_cases w) (LogMkdir0\<lparr>mkr_key := mkr_key m, mkr_permission := mkr_permission m\<rparr>) ((if mkr_owner m \<noteq> [] then WriteStringToArray w 3 (mkr_owner m) else []) @ r) =
      merge_loop w (LogMkdir_cases w) (LogMkdir0\<lparr>mkr_key := mkr_key m, mkr_permission := mkr_permission m, mkr_owner := mkr_owner m\<rparr>) r" for r
    by (rule merge_string[where cases = "LogMkdir_cases w" and n = 3, OF w _ _ LogMkdir_case(3) text_okD(2)[OF t(2)] text_okD(3)[OF t(2)], THEN trans]) (simp_all add: wire_tags LogMkdir0_def)
  have 4: "merge_loop w (LogMkdir_cases w) (LogMkdir0\<lparr>mkr_key := mkr_key m, mkr_permission := mkr_permission m, mkr_owner := mkr_owner m\<rparr>) ((if mkr_group m \<noteq> [] then WriteStringToArray w 4 (mkr_group m) else []) @ r) =
      merge_loop w (LogMkdir_cases w) (LogMkdir0\<lparr>mkr_key := mkr_key m, mkr_permission := mkr_permission m, mkr_owner := mkr_owner m, mkr_group := mkr_group m\<rparr>) r" for r
    by (rule merge_string[where cases = "LogMkdir_cases w" and n = 4, OF w _ _ LogMkdir_case(4) text_okD(2)[OF t(3)] text_okD(3)[OF t(3)], THEN trans]) (simp_all add: wire_tags LogMkdir0_def)
  have 5: "merge_loop w (LogMkdir_cases w) (LogMkdir0\<lparr>mkr_key := mkr_key m, mkr_permission := mkr_permission m, mkr_owner := mkr_owner m, mkr_group := mkr_group m\<rparr>) ((if mkr_mtime m \<noteq> 0 then WriteUInt64ToArray w 5 (mkr_mtime m) else []) @ r) =
      merge_loop w (LogMkdir_cases w) (LogMkdir0\<lparr>mkr_key := mkr_key m, mkr_permission := mkr_permission m, mkr_owner := mkr_owner m, mkr_group := mkr_group m, mkr_mtime := mkr_mtime m\<rparr>) r" for r
    by (rule merge_uint64[where cases = "LogMkdir_cases w" and n = 5, OF w _ _ LogMkdir_case(5), THEN trans]) (simp_all add: wire_tags LogMkdir0_def)
  have full: "LogMkdir0\<lparr>mkr_key := mkr_key m, mkr_permission := mkr_permission m, mkr_owner := mkr_owner m, mkr_group := mkr_group m, mkr_mtime := mkr_mtime m\<rparr> = m" by (simp add: LogMkdir0_def)
  have "merge_loop w (LogMkdir_cases w) LogMkdir0 (LogMkdir_SerializeToArray w m @ []) = merge_loop w (LogMkdir_cases w) m []"
    unfolding LogMkdir_SerializeToArray_def append_assoc by (simp only: 1 2 3 4 5 full)
  then show ?thesis by (simp add: merge_end[of w "LogMkdir_cases w", OF w LogMkdir_case(6)])
qed

lemma LogRmr_case:
  "LogRmr_cases w (MakeTag 1 WIRETYPE_LENGTH_DELIMITED) = Some (read_string w (\<lambda>x m. m\<lparr>rmr_key := x\<rparr>))"
  "LogRmr_cases w (MakeTag 2 WIRETYPE_VARINT) = Some (read_uint64 w (\<lambda>x m. m\<lparr>rmr_mtime := x\<rparr>))"
  "LogRmr_cases w 0 = None"
  by (simp_all add: LogRmr_cases_def wire_tags)

lemma LogRmr_size:
  assumes w: "wire_ok w" and t: "length (rmr_key m) < 2 ^ 16"
  shows "length (LogRmr_SerializeToArray w m) = LogRmr_ByteSizeLong w m" "LogRmr_ByteSizeLong w m < 2 ^ 31"
proof -
  show "length (LogRmr_SerializeToArray w m) = LogRmr_ByteSizeLong w m"
    using t[THEN short_text(1)] by (simp add: LogRmr_SerializeToArray_def LogRmr_ByteSizeLong_def write_length[OF w] wire_tags)
  have "LogRmr_ByteSizeLong w m \<le> 1000000"
    using if_size[OF short_text(2)[OF t w], of "rmr_key m \<noteq> []"]
      if_size[OF size_bounds(2)[OF w], of "rmr_mtime m \<noteq> 0" "rmr_mtime m"]
    unfolding LogRmr_ByteSizeLong_def by linarith
  then show "LogRmr_ByteSizeLong w m < 2 ^ 31" by simp
qed

lemma LogRmr_text_size:
  assumes "wire_ok w"
  shows "text_ok w (rmr_key m) \<Longrightarrow> length (LogRmr_SerializeToArray w m) = LogRmr_ByteSizeLong w m"
    "text_ok w (rmr_key m) \<Longrightarrow> LogRmr_ByteSizeLong w m < 2147483648"
  using LogRmr_size[OF assms, of m] by (simp_all add: text_ok_def)

lemma LogRmr_parse:
  assumes w: "wire_ok w" and t: "text_ok w (rmr_key m)"
  shows "merge_loop w (LogRmr_cases w) LogRmr0 (LogRmr_SerializeToArray w m) = Some (True, True, m, [])"
proof -
  have 1: "merge_loop w (LogRmr_cases w) LogRmr0 ((if rmr_key m \<noteq> [] then WriteStringToArray w 1 (rmr_key m) else []) @ r) =
      merge_loop w (LogRmr_cases w) (LogRmr0\<lparr>rmr_key := rmr_key m\<rparr>) r" for r
    by (rule merge_string[where cases = "LogRmr_cases w" and n = 1, OF w _ _ LogRmr_case(1) text_okD(2)[OF t] text_okD(3)[OF t], THEN trans]) (simp_all add: wire_tags LogRmr0_def)
  have 2: "merge_loop w (LogRmr_cases w) (LogRmr0\<lparr>rmr_key := rmr_key m\<rparr>) ((if rmr_mtime m \<noteq> 0 then WriteUInt64ToArray w 2 (rmr_mtime m) else []) @ r) =
      merge_loop w (LogRmr_cases w) (LogRmr0\<lparr>rmr_key := rmr_key m, rmr_mtime := rmr_mtime m\<rparr>) r" for r
    by (rule merge_uint64[where cases = "LogRmr_cases w" and n = 2, OF w _ _ LogRmr_case(2), THEN trans]) (simp_all add: wire_tags LogRmr0_def)
  have full: "LogRmr0\<lparr>rmr_key := rmr_key m, rmr_mtime := rmr_mtime m\<rparr> = m" by (simp add: LogRmr0_def)
  have "merge_loop w (LogRmr_cases w) LogRmr0 (LogRmr_SerializeToArray w m @ []) = merge_loop w (LogRmr_cases w) m []"
    unfolding LogRmr_SerializeToArray_def append_assoc by (simp only: 1 2 full)
  then show ?thesis by (simp add: merge_end[of w "LogRmr_cases w", OF w LogRmr_case(3)])
qed

lemma LogCreate_case:
  "LogCreate_cases w (MakeTag 1 WIRETYPE_LENGTH_DELIMITED) = Some (read_string w (\<lambda>x m. m\<lparr>cre_key := x\<rparr>))"
  "LogCreate_cases w (MakeTag 2 WIRETYPE_VARINT) = Some (read_uint32 w (\<lambda>x m. m\<lparr>cre_permission := x\<rparr>))"
  "LogCreate_cases w (MakeTag 3 WIRETYPE_LENGTH_DELIMITED) = Some (read_string w (\<lambda>x m. m\<lparr>cre_owner := x\<rparr>))"
  "LogCreate_cases w (MakeTag 4 WIRETYPE_LENGTH_DELIMITED) = Some (read_string w (\<lambda>x m. m\<lparr>cre_group := x\<rparr>))"
  "LogCreate_cases w (MakeTag 5 WIRETYPE_VARINT) = Some (read_uint64 w (\<lambda>x m. m\<lparr>cre_mtime := x\<rparr>))"
  "LogCreate_cases w (MakeTag 6 WIRETYPE_VARINT) = Some (read_uint64 w (\<lambda>x m. m\<lparr>cre_blk_id := x\<rparr>))"
  "LogCreate_cases w (MakeTag 7 WIRETYPE_VARINT) = Some (read_uint64 w (\<lambda>x m. m\<lparr>cre_blk_sz := x\<rparr>))"
  "LogCreate_cases w (MakeTag 8 WIRETYPE_VARINT) = Some (read_uint32 w (\<lambda>x m. m\<lparr>cre_blk_rep := x\<rparr>))"
  "LogCreate_cases w 0 = None"
  by (simp_all add: LogCreate_cases_def wire_tags)

lemma LogCreate_size:
  assumes w: "wire_ok w" and t: "length (cre_key m) < 2 ^ 16" "length (cre_owner m) < 2 ^ 16" "length (cre_group m) < 2 ^ 16"
  shows "length (LogCreate_SerializeToArray w m) = LogCreate_ByteSizeLong w m" "LogCreate_ByteSizeLong w m < 2 ^ 31"
proof -
  show "length (LogCreate_SerializeToArray w m) = LogCreate_ByteSizeLong w m"
    using t[THEN short_text(1)] by (simp add: LogCreate_SerializeToArray_def LogCreate_ByteSizeLong_def write_length[OF w] wire_tags)
  have "LogCreate_ByteSizeLong w m \<le> 1000000"
    using if_size[OF short_text(2)[OF t(1) w], of "cre_key m \<noteq> []"]
      if_size[OF size_bounds(1)[OF w], of "cre_permission m \<noteq> 0" "cre_permission m"]
      if_size[OF short_text(2)[OF t(2) w], of "cre_owner m \<noteq> []"]
      if_size[OF short_text(2)[OF t(3) w], of "cre_group m \<noteq> []"]
      if_size[OF size_bounds(2)[OF w], of "cre_mtime m \<noteq> 0" "cre_mtime m"]
      if_size[OF size_bounds(2)[OF w], of "cre_blk_id m \<noteq> 0" "cre_blk_id m"]
      if_size[OF size_bounds(2)[OF w], of "cre_blk_sz m \<noteq> 0" "cre_blk_sz m"]
      if_size[OF size_bounds(1)[OF w], of "cre_blk_rep m \<noteq> 0" "cre_blk_rep m"]
    unfolding LogCreate_ByteSizeLong_def by linarith
  then show "LogCreate_ByteSizeLong w m < 2 ^ 31" by simp
qed

lemma LogCreate_text_size:
  assumes "wire_ok w"
  shows "text_ok w (cre_key m) \<Longrightarrow> text_ok w (cre_owner m) \<Longrightarrow> text_ok w (cre_group m) \<Longrightarrow> length (LogCreate_SerializeToArray w m) = LogCreate_ByteSizeLong w m"
    "text_ok w (cre_key m) \<Longrightarrow> text_ok w (cre_owner m) \<Longrightarrow> text_ok w (cre_group m) \<Longrightarrow> LogCreate_ByteSizeLong w m < 2147483648"
  using LogCreate_size[OF assms, of m] by (simp_all add: text_ok_def)

lemma LogCreate_parse:
  assumes w: "wire_ok w" and t: "text_ok w (cre_key m)" "text_ok w (cre_owner m)" "text_ok w (cre_group m)"
  shows "merge_loop w (LogCreate_cases w) LogCreate0 (LogCreate_SerializeToArray w m) = Some (True, True, m, [])"
proof -
  have 1: "merge_loop w (LogCreate_cases w) LogCreate0 ((if cre_key m \<noteq> [] then WriteStringToArray w 1 (cre_key m) else []) @ r) =
      merge_loop w (LogCreate_cases w) (LogCreate0\<lparr>cre_key := cre_key m\<rparr>) r" for r
    by (rule merge_string[where cases = "LogCreate_cases w" and n = 1, OF w _ _ LogCreate_case(1) text_okD(2)[OF t(1)] text_okD(3)[OF t(1)], THEN trans]) (simp_all add: wire_tags LogCreate0_def)
  have 2: "merge_loop w (LogCreate_cases w) (LogCreate0\<lparr>cre_key := cre_key m\<rparr>) ((if cre_permission m \<noteq> 0 then WriteUInt32ToArray 2 (cre_permission m) else []) @ r) =
      merge_loop w (LogCreate_cases w) (LogCreate0\<lparr>cre_key := cre_key m, cre_permission := cre_permission m\<rparr>) r" for r
    by (rule merge_uint32[where cases = "LogCreate_cases w" and n = 2, OF w _ _ LogCreate_case(2), THEN trans]) (simp_all add: wire_tags LogCreate0_def)
  have 3: "merge_loop w (LogCreate_cases w) (LogCreate0\<lparr>cre_key := cre_key m, cre_permission := cre_permission m\<rparr>) ((if cre_owner m \<noteq> [] then WriteStringToArray w 3 (cre_owner m) else []) @ r) =
      merge_loop w (LogCreate_cases w) (LogCreate0\<lparr>cre_key := cre_key m, cre_permission := cre_permission m, cre_owner := cre_owner m\<rparr>) r" for r
    by (rule merge_string[where cases = "LogCreate_cases w" and n = 3, OF w _ _ LogCreate_case(3) text_okD(2)[OF t(2)] text_okD(3)[OF t(2)], THEN trans]) (simp_all add: wire_tags LogCreate0_def)
  have 4: "merge_loop w (LogCreate_cases w) (LogCreate0\<lparr>cre_key := cre_key m, cre_permission := cre_permission m, cre_owner := cre_owner m\<rparr>) ((if cre_group m \<noteq> [] then WriteStringToArray w 4 (cre_group m) else []) @ r) =
      merge_loop w (LogCreate_cases w) (LogCreate0\<lparr>cre_key := cre_key m, cre_permission := cre_permission m, cre_owner := cre_owner m, cre_group := cre_group m\<rparr>) r" for r
    by (rule merge_string[where cases = "LogCreate_cases w" and n = 4, OF w _ _ LogCreate_case(4) text_okD(2)[OF t(3)] text_okD(3)[OF t(3)], THEN trans]) (simp_all add: wire_tags LogCreate0_def)
  have 5: "merge_loop w (LogCreate_cases w) (LogCreate0\<lparr>cre_key := cre_key m, cre_permission := cre_permission m, cre_owner := cre_owner m, cre_group := cre_group m\<rparr>) ((if cre_mtime m \<noteq> 0 then WriteUInt64ToArray w 5 (cre_mtime m) else []) @ r) =
      merge_loop w (LogCreate_cases w) (LogCreate0\<lparr>cre_key := cre_key m, cre_permission := cre_permission m, cre_owner := cre_owner m, cre_group := cre_group m, cre_mtime := cre_mtime m\<rparr>) r" for r
    by (rule merge_uint64[where cases = "LogCreate_cases w" and n = 5, OF w _ _ LogCreate_case(5), THEN trans]) (simp_all add: wire_tags LogCreate0_def)
  have 6: "merge_loop w (LogCreate_cases w) (LogCreate0\<lparr>cre_key := cre_key m, cre_permission := cre_permission m, cre_owner := cre_owner m, cre_group := cre_group m, cre_mtime := cre_mtime m\<rparr>) ((if cre_blk_id m \<noteq> 0 then WriteUInt64ToArray w 6 (cre_blk_id m) else []) @ r) =
      merge_loop w (LogCreate_cases w) (LogCreate0\<lparr>cre_key := cre_key m, cre_permission := cre_permission m, cre_owner := cre_owner m, cre_group := cre_group m, cre_mtime := cre_mtime m, cre_blk_id := cre_blk_id m\<rparr>) r" for r
    by (rule merge_uint64[where cases = "LogCreate_cases w" and n = 6, OF w _ _ LogCreate_case(6), THEN trans]) (simp_all add: wire_tags LogCreate0_def)
  have 7: "merge_loop w (LogCreate_cases w) (LogCreate0\<lparr>cre_key := cre_key m, cre_permission := cre_permission m, cre_owner := cre_owner m, cre_group := cre_group m, cre_mtime := cre_mtime m, cre_blk_id := cre_blk_id m\<rparr>) ((if cre_blk_sz m \<noteq> 0 then WriteUInt64ToArray w 7 (cre_blk_sz m) else []) @ r) =
      merge_loop w (LogCreate_cases w) (LogCreate0\<lparr>cre_key := cre_key m, cre_permission := cre_permission m, cre_owner := cre_owner m, cre_group := cre_group m, cre_mtime := cre_mtime m, cre_blk_id := cre_blk_id m, cre_blk_sz := cre_blk_sz m\<rparr>) r" for r
    by (rule merge_uint64[where cases = "LogCreate_cases w" and n = 7, OF w _ _ LogCreate_case(7), THEN trans]) (simp_all add: wire_tags LogCreate0_def)
  have 8: "merge_loop w (LogCreate_cases w) (LogCreate0\<lparr>cre_key := cre_key m, cre_permission := cre_permission m, cre_owner := cre_owner m, cre_group := cre_group m, cre_mtime := cre_mtime m, cre_blk_id := cre_blk_id m, cre_blk_sz := cre_blk_sz m\<rparr>) ((if cre_blk_rep m \<noteq> 0 then WriteUInt32ToArray 8 (cre_blk_rep m) else []) @ r) =
      merge_loop w (LogCreate_cases w) (LogCreate0\<lparr>cre_key := cre_key m, cre_permission := cre_permission m, cre_owner := cre_owner m, cre_group := cre_group m, cre_mtime := cre_mtime m, cre_blk_id := cre_blk_id m, cre_blk_sz := cre_blk_sz m, cre_blk_rep := cre_blk_rep m\<rparr>) r" for r
    by (rule merge_uint32[where cases = "LogCreate_cases w" and n = 8, OF w _ _ LogCreate_case(8), THEN trans]) (simp_all add: wire_tags LogCreate0_def)
  have full: "LogCreate0\<lparr>cre_key := cre_key m, cre_permission := cre_permission m, cre_owner := cre_owner m, cre_group := cre_group m, cre_mtime := cre_mtime m, cre_blk_id := cre_blk_id m, cre_blk_sz := cre_blk_sz m, cre_blk_rep := cre_blk_rep m\<rparr> = m" by (simp add: LogCreate0_def)
  have "merge_loop w (LogCreate_cases w) LogCreate0 (LogCreate_SerializeToArray w m @ []) = merge_loop w (LogCreate_cases w) m []"
    unfolding LogCreate_SerializeToArray_def append_assoc by (simp only: 1 2 3 4 5 6 7 8 full)
  then show ?thesis by (simp add: merge_end[of w "LogCreate_cases w", OF w LogCreate_case(9)])
qed

lemma LogGetAdditionalBlk_case:
  "LogGetAdditionalBlk_cases w (MakeTag 1 WIRETYPE_LENGTH_DELIMITED) = Some (read_string w (\<lambda>x m. m\<lparr>gab_key := x\<rparr>))"
  "LogGetAdditionalBlk_cases w (MakeTag 2 WIRETYPE_VARINT) = Some (read_uint64 w (\<lambda>x m. m\<lparr>gab_blk_id := x\<rparr>))"
  "LogGetAdditionalBlk_cases w (MakeTag 3 WIRETYPE_VARINT) = Some (read_uint64 w (\<lambda>x m. m\<lparr>gab_blk_sz := x\<rparr>))"
  "LogGetAdditionalBlk_cases w (MakeTag 4 WIRETYPE_VARINT) = Some (read_uint32 w (\<lambda>x m. m\<lparr>gab_blk_rep := x\<rparr>))"
  "LogGetAdditionalBlk_cases w 0 = None"
  by (simp_all add: LogGetAdditionalBlk_cases_def wire_tags)

lemma LogGetAdditionalBlk_size:
  assumes w: "wire_ok w" and t: "length (gab_key m) < 2 ^ 16"
  shows "length (LogGetAdditionalBlk_SerializeToArray w m) = LogGetAdditionalBlk_ByteSizeLong w m" "LogGetAdditionalBlk_ByteSizeLong w m < 2 ^ 31"
proof -
  show "length (LogGetAdditionalBlk_SerializeToArray w m) = LogGetAdditionalBlk_ByteSizeLong w m"
    using t[THEN short_text(1)] by (simp add: LogGetAdditionalBlk_SerializeToArray_def LogGetAdditionalBlk_ByteSizeLong_def write_length[OF w] wire_tags)
  have "LogGetAdditionalBlk_ByteSizeLong w m \<le> 1000000"
    using if_size[OF short_text(2)[OF t w], of "gab_key m \<noteq> []"]
      if_size[OF size_bounds(2)[OF w], of "gab_blk_id m \<noteq> 0" "gab_blk_id m"]
      if_size[OF size_bounds(2)[OF w], of "gab_blk_sz m \<noteq> 0" "gab_blk_sz m"]
      if_size[OF size_bounds(1)[OF w], of "gab_blk_rep m \<noteq> 0" "gab_blk_rep m"]
    unfolding LogGetAdditionalBlk_ByteSizeLong_def by linarith
  then show "LogGetAdditionalBlk_ByteSizeLong w m < 2 ^ 31" by simp
qed

lemma LogGetAdditionalBlk_text_size:
  assumes "wire_ok w"
  shows "text_ok w (gab_key m) \<Longrightarrow> length (LogGetAdditionalBlk_SerializeToArray w m) = LogGetAdditionalBlk_ByteSizeLong w m"
    "text_ok w (gab_key m) \<Longrightarrow> LogGetAdditionalBlk_ByteSizeLong w m < 2147483648"
  using LogGetAdditionalBlk_size[OF assms, of m] by (simp_all add: text_ok_def)

lemma LogGetAdditionalBlk_parse:
  assumes w: "wire_ok w" and t: "text_ok w (gab_key m)"
  shows "merge_loop w (LogGetAdditionalBlk_cases w) LogGetAdditionalBlk0 (LogGetAdditionalBlk_SerializeToArray w m) = Some (True, True, m, [])"
proof -
  have 1: "merge_loop w (LogGetAdditionalBlk_cases w) LogGetAdditionalBlk0 ((if gab_key m \<noteq> [] then WriteStringToArray w 1 (gab_key m) else []) @ r) =
      merge_loop w (LogGetAdditionalBlk_cases w) (LogGetAdditionalBlk0\<lparr>gab_key := gab_key m\<rparr>) r" for r
    by (rule merge_string[where cases = "LogGetAdditionalBlk_cases w" and n = 1, OF w _ _ LogGetAdditionalBlk_case(1) text_okD(2)[OF t] text_okD(3)[OF t], THEN trans]) (simp_all add: wire_tags LogGetAdditionalBlk0_def)
  have 2: "merge_loop w (LogGetAdditionalBlk_cases w) (LogGetAdditionalBlk0\<lparr>gab_key := gab_key m\<rparr>) ((if gab_blk_id m \<noteq> 0 then WriteUInt64ToArray w 2 (gab_blk_id m) else []) @ r) =
      merge_loop w (LogGetAdditionalBlk_cases w) (LogGetAdditionalBlk0\<lparr>gab_key := gab_key m, gab_blk_id := gab_blk_id m\<rparr>) r" for r
    by (rule merge_uint64[where cases = "LogGetAdditionalBlk_cases w" and n = 2, OF w _ _ LogGetAdditionalBlk_case(2), THEN trans]) (simp_all add: wire_tags LogGetAdditionalBlk0_def)
  have 3: "merge_loop w (LogGetAdditionalBlk_cases w) (LogGetAdditionalBlk0\<lparr>gab_key := gab_key m, gab_blk_id := gab_blk_id m\<rparr>) ((if gab_blk_sz m \<noteq> 0 then WriteUInt64ToArray w 3 (gab_blk_sz m) else []) @ r) =
      merge_loop w (LogGetAdditionalBlk_cases w) (LogGetAdditionalBlk0\<lparr>gab_key := gab_key m, gab_blk_id := gab_blk_id m, gab_blk_sz := gab_blk_sz m\<rparr>) r" for r
    by (rule merge_uint64[where cases = "LogGetAdditionalBlk_cases w" and n = 3, OF w _ _ LogGetAdditionalBlk_case(3), THEN trans]) (simp_all add: wire_tags LogGetAdditionalBlk0_def)
  have 4: "merge_loop w (LogGetAdditionalBlk_cases w) (LogGetAdditionalBlk0\<lparr>gab_key := gab_key m, gab_blk_id := gab_blk_id m, gab_blk_sz := gab_blk_sz m\<rparr>) ((if gab_blk_rep m \<noteq> 0 then WriteUInt32ToArray 4 (gab_blk_rep m) else []) @ r) =
      merge_loop w (LogGetAdditionalBlk_cases w) (LogGetAdditionalBlk0\<lparr>gab_key := gab_key m, gab_blk_id := gab_blk_id m, gab_blk_sz := gab_blk_sz m, gab_blk_rep := gab_blk_rep m\<rparr>) r" for r
    by (rule merge_uint32[where cases = "LogGetAdditionalBlk_cases w" and n = 4, OF w _ _ LogGetAdditionalBlk_case(4), THEN trans]) (simp_all add: wire_tags LogGetAdditionalBlk0_def)
  have full: "LogGetAdditionalBlk0\<lparr>gab_key := gab_key m, gab_blk_id := gab_blk_id m, gab_blk_sz := gab_blk_sz m, gab_blk_rep := gab_blk_rep m\<rparr> = m" by (simp add: LogGetAdditionalBlk0_def)
  have "merge_loop w (LogGetAdditionalBlk_cases w) LogGetAdditionalBlk0 (LogGetAdditionalBlk_SerializeToArray w m @ []) = merge_loop w (LogGetAdditionalBlk_cases w) m []"
    unfolding LogGetAdditionalBlk_SerializeToArray_def append_assoc by (simp only: 1 2 3 4 full)
  then show ?thesis by (simp add: merge_end[of w "LogGetAdditionalBlk_cases w", OF w LogGetAdditionalBlk_case(5)])
qed

lemma LogClose_case:
  "LogClose_cases w (MakeTag 1 WIRETYPE_LENGTH_DELIMITED) = Some (read_string w (\<lambda>x m. m\<lparr>cle_key := x\<rparr>))"
  "LogClose_cases w (MakeTag 2 WIRETYPE_VARINT) = Some (read_uint64 w (\<lambda>x m. m\<lparr>cle_mtime := x\<rparr>))"
  "LogClose_cases w (MakeTag 3 WIRETYPE_VARINT) = Some (read_uint64 w (\<lambda>x m. m\<lparr>cle_len := x\<rparr>))"
  "LogClose_cases w (MakeTag 4 WIRETYPE_VARINT) = Some (read_uint32 w (\<lambda>x m. m\<lparr>cle_blk_rep := x\<rparr>))"
  "LogClose_cases w 0 = None"
  by (simp_all add: LogClose_cases_def wire_tags)

lemma LogClose_size:
  assumes w: "wire_ok w" and t: "length (cle_key m) < 2 ^ 16"
  shows "length (LogClose_SerializeToArray w m) = LogClose_ByteSizeLong w m" "LogClose_ByteSizeLong w m < 2 ^ 31"
proof -
  show "length (LogClose_SerializeToArray w m) = LogClose_ByteSizeLong w m"
    using t[THEN short_text(1)] by (simp add: LogClose_SerializeToArray_def LogClose_ByteSizeLong_def write_length[OF w] wire_tags)
  have "LogClose_ByteSizeLong w m \<le> 1000000"
    using if_size[OF short_text(2)[OF t w], of "cle_key m \<noteq> []"]
      if_size[OF size_bounds(2)[OF w], of "cle_mtime m \<noteq> 0" "cle_mtime m"]
      if_size[OF size_bounds(2)[OF w], of "cle_len m \<noteq> 0" "cle_len m"]
      if_size[OF size_bounds(1)[OF w], of "cle_blk_rep m \<noteq> 0" "cle_blk_rep m"]
    unfolding LogClose_ByteSizeLong_def by linarith
  then show "LogClose_ByteSizeLong w m < 2 ^ 31" by simp
qed

lemma LogClose_text_size:
  assumes "wire_ok w"
  shows "text_ok w (cle_key m) \<Longrightarrow> length (LogClose_SerializeToArray w m) = LogClose_ByteSizeLong w m"
    "text_ok w (cle_key m) \<Longrightarrow> LogClose_ByteSizeLong w m < 2147483648"
  using LogClose_size[OF assms, of m] by (simp_all add: text_ok_def)

lemma LogClose_parse:
  assumes w: "wire_ok w" and t: "text_ok w (cle_key m)"
  shows "merge_loop w (LogClose_cases w) LogClose0 (LogClose_SerializeToArray w m) = Some (True, True, m, [])"
proof -
  have 1: "merge_loop w (LogClose_cases w) LogClose0 ((if cle_key m \<noteq> [] then WriteStringToArray w 1 (cle_key m) else []) @ r) =
      merge_loop w (LogClose_cases w) (LogClose0\<lparr>cle_key := cle_key m\<rparr>) r" for r
    by (rule merge_string[where cases = "LogClose_cases w" and n = 1, OF w _ _ LogClose_case(1) text_okD(2)[OF t] text_okD(3)[OF t], THEN trans]) (simp_all add: wire_tags LogClose0_def)
  have 2: "merge_loop w (LogClose_cases w) (LogClose0\<lparr>cle_key := cle_key m\<rparr>) ((if cle_mtime m \<noteq> 0 then WriteUInt64ToArray w 2 (cle_mtime m) else []) @ r) =
      merge_loop w (LogClose_cases w) (LogClose0\<lparr>cle_key := cle_key m, cle_mtime := cle_mtime m\<rparr>) r" for r
    by (rule merge_uint64[where cases = "LogClose_cases w" and n = 2, OF w _ _ LogClose_case(2), THEN trans]) (simp_all add: wire_tags LogClose0_def)
  have 3: "merge_loop w (LogClose_cases w) (LogClose0\<lparr>cle_key := cle_key m, cle_mtime := cle_mtime m\<rparr>) ((if cle_len m \<noteq> 0 then WriteUInt64ToArray w 3 (cle_len m) else []) @ r) =
      merge_loop w (LogClose_cases w) (LogClose0\<lparr>cle_key := cle_key m, cle_mtime := cle_mtime m, cle_len := cle_len m\<rparr>) r" for r
    by (rule merge_uint64[where cases = "LogClose_cases w" and n = 3, OF w _ _ LogClose_case(3), THEN trans]) (simp_all add: wire_tags LogClose0_def)
  have 4: "merge_loop w (LogClose_cases w) (LogClose0\<lparr>cle_key := cle_key m, cle_mtime := cle_mtime m, cle_len := cle_len m\<rparr>) ((if cle_blk_rep m \<noteq> 0 then WriteUInt32ToArray 4 (cle_blk_rep m) else []) @ r) =
      merge_loop w (LogClose_cases w) (LogClose0\<lparr>cle_key := cle_key m, cle_mtime := cle_mtime m, cle_len := cle_len m, cle_blk_rep := cle_blk_rep m\<rparr>) r" for r
    by (rule merge_uint32[where cases = "LogClose_cases w" and n = 4, OF w _ _ LogClose_case(4), THEN trans]) (simp_all add: wire_tags LogClose0_def)
  have full: "LogClose0\<lparr>cle_key := cle_key m, cle_mtime := cle_mtime m, cle_len := cle_len m, cle_blk_rep := cle_blk_rep m\<rparr> = m" by (simp add: LogClose0_def)
  have "merge_loop w (LogClose_cases w) LogClose0 (LogClose_SerializeToArray w m @ []) = merge_loop w (LogClose_cases w) m []"
    unfolding LogClose_SerializeToArray_def append_assoc by (simp only: 1 2 3 4 full)
  then show ?thesis by (simp add: merge_end[of w "LogClose_cases w", OF w LogClose_case(5)])
qed

lemma LogRm_case:
  "LogRm_cases w (MakeTag 1 WIRETYPE_LENGTH_DELIMITED) = Some (read_string w (\<lambda>x m. m\<lparr>rm_key := x\<rparr>))"
  "LogRm_cases w (MakeTag 2 WIRETYPE_VARINT) = Some (read_uint64 w (\<lambda>x m. m\<lparr>rm_mtime := x\<rparr>))"
  "LogRm_cases w 0 = None"
  by (simp_all add: LogRm_cases_def wire_tags)

lemma LogRm_size:
  assumes w: "wire_ok w" and t: "length (rm_key m) < 2 ^ 16"
  shows "length (LogRm_SerializeToArray w m) = LogRm_ByteSizeLong w m" "LogRm_ByteSizeLong w m < 2 ^ 31"
proof -
  show "length (LogRm_SerializeToArray w m) = LogRm_ByteSizeLong w m"
    using t[THEN short_text(1)] by (simp add: LogRm_SerializeToArray_def LogRm_ByteSizeLong_def write_length[OF w] wire_tags)
  have "LogRm_ByteSizeLong w m \<le> 1000000"
    using if_size[OF short_text(2)[OF t w], of "rm_key m \<noteq> []"]
      if_size[OF size_bounds(2)[OF w], of "rm_mtime m \<noteq> 0" "rm_mtime m"]
    unfolding LogRm_ByteSizeLong_def by linarith
  then show "LogRm_ByteSizeLong w m < 2 ^ 31" by simp
qed

lemma LogRm_text_size:
  assumes "wire_ok w"
  shows "text_ok w (rm_key m) \<Longrightarrow> length (LogRm_SerializeToArray w m) = LogRm_ByteSizeLong w m"
    "text_ok w (rm_key m) \<Longrightarrow> LogRm_ByteSizeLong w m < 2147483648"
  using LogRm_size[OF assms, of m] by (simp_all add: text_ok_def)

lemma LogRm_parse:
  assumes w: "wire_ok w" and t: "text_ok w (rm_key m)"
  shows "merge_loop w (LogRm_cases w) LogRm0 (LogRm_SerializeToArray w m) = Some (True, True, m, [])"
proof -
  have 1: "merge_loop w (LogRm_cases w) LogRm0 ((if rm_key m \<noteq> [] then WriteStringToArray w 1 (rm_key m) else []) @ r) =
      merge_loop w (LogRm_cases w) (LogRm0\<lparr>rm_key := rm_key m\<rparr>) r" for r
    by (rule merge_string[where cases = "LogRm_cases w" and n = 1, OF w _ _ LogRm_case(1) text_okD(2)[OF t] text_okD(3)[OF t], THEN trans]) (simp_all add: wire_tags LogRm0_def)
  have 2: "merge_loop w (LogRm_cases w) (LogRm0\<lparr>rm_key := rm_key m\<rparr>) ((if rm_mtime m \<noteq> 0 then WriteUInt64ToArray w 2 (rm_mtime m) else []) @ r) =
      merge_loop w (LogRm_cases w) (LogRm0\<lparr>rm_key := rm_key m, rm_mtime := rm_mtime m\<rparr>) r" for r
    by (rule merge_uint64[where cases = "LogRm_cases w" and n = 2, OF w _ _ LogRm_case(2), THEN trans]) (simp_all add: wire_tags LogRm0_def)
  have full: "LogRm0\<lparr>rm_key := rm_key m, rm_mtime := rm_mtime m\<rparr> = m" by (simp add: LogRm0_def)
  have "merge_loop w (LogRm_cases w) LogRm0 (LogRm_SerializeToArray w m @ []) = merge_loop w (LogRm_cases w) m []"
    unfolding LogRm_SerializeToArray_def append_assoc by (simp only: 1 2 full)
  then show ?thesis by (simp add: merge_end[of w "LogRm_cases w", OF w LogRm_case(3)])
qed

lemma merge_sub:
  assumes w: "wire_ok w" and tag: "0 < MakeTag n WIRETYPE_LENGTH_DELIMITED" "MakeTag n WIRETYPE_LENGTH_DELIMITED < 0x80"
    and h: "cases (MakeTag n WIRETYPE_LENGTH_DELIMITED) = Some (ReadMessageNoVirtual w scases sub (\<lambda>x. put (Some x)))"
    and b: "\<And>m. x = Some m \<Longrightarrow> length (ser m) = bsize m" "\<And>m. x = Some m \<Longrightarrow> bsize m < 2 ^ 31"
      "\<And>m. x = Some m \<Longrightarrow> merge_loop w scases (sub l) (ser m) = Some (True, True, m, [])"
    and l: "put None l = l"
  shows "merge_loop w cases l (write_sub n bsize ser x @ rest) = merge_loop w cases (put x l) rest"
proof (cases x)
  case None
  then show ?thesis using l by (simp add: write_sub_def)
next
  case (Some m)
  with merge_message[OF w tag, of cases scases sub "\<lambda>x. put (Some x)" "ser m" l m rest] h b show ?thesis
    by (simp add: write_sub_def)
qed

text \<open>The strings of a record fit and are accepted.\<close>

definition lopr_ok :: "wire \<Rightarrow> LogOperator \<Rightarrow> bool" where
  "lopr_ok w l \<longleftrightarrow>
     (\<forall>m. mkr l = Some m \<longrightarrow> text_ok w (mkr_key m) \<and> text_ok w (mkr_owner m) \<and> text_ok w (mkr_group m)) \<and>
     (\<forall>m. rmr l = Some m \<longrightarrow> text_ok w (rmr_key m)) \<and>
     (\<forall>m. cre l = Some m \<longrightarrow> text_ok w (cre_key m) \<and> text_ok w (cre_owner m) \<and> text_ok w (cre_group m)) \<and>
     (\<forall>m. gab l = Some m \<longrightarrow> text_ok w (gab_key m)) \<and>
     (\<forall>m. cle l = Some m \<longrightarrow> text_ok w (cle_key m)) \<and>
     (\<forall>m. rm l = Some m \<longrightarrow> text_ok w (rm_key m))"

lemma LogOperator_case:
  "LogOperator_cases w (MakeTag 1 WIRETYPE_VARINT) = Some (read_uint32 w (\<lambda>x l. l\<lparr>optype := x\<rparr>))"
  "LogOperator_cases w (MakeTag 2 WIRETYPE_LENGTH_DELIMITED) = Some (ReadMessageNoVirtual w (LogMkdir_cases w) mutable_mkr (\<lambda>x l. l\<lparr>mkr := Some x\<rparr>))"
  "LogOperator_cases w (MakeTag 3 WIRETYPE_LENGTH_DELIMITED) = Some (ReadMessageNoVirtual w (LogRmr_cases w) mutable_rmr (\<lambda>x l. l\<lparr>rmr := Some x\<rparr>))"
  "LogOperator_cases w (MakeTag 4 WIRETYPE_LENGTH_DELIMITED) = Some (ReadMessageNoVirtual w (LogCreate_cases w) mutable_cre (\<lambda>x l. l\<lparr>cre := Some x\<rparr>))"
  "LogOperator_cases w (MakeTag 5 WIRETYPE_LENGTH_DELIMITED) = Some (ReadMessageNoVirtual w (LogGetAdditionalBlk_cases w) mutable_gab (\<lambda>x l. l\<lparr>gab := Some x\<rparr>))"
  "LogOperator_cases w (MakeTag 6 WIRETYPE_LENGTH_DELIMITED) = Some (ReadMessageNoVirtual w (LogClose_cases w) mutable_cle (\<lambda>x l. l\<lparr>cle := Some x\<rparr>))"
  "LogOperator_cases w (MakeTag 7 WIRETYPE_LENGTH_DELIMITED) = Some (ReadMessageNoVirtual w (LogRm_cases w) mutable_rm (\<lambda>x l. l\<lparr>rm := Some x\<rparr>))"
  "LogOperator_cases w 0 = None"
  by (simp_all add: LogOperator_cases_def wire_tags)

lemma LogOperator_parse:
  assumes w: "wire_ok w" and t: "lopr_ok w l"
  shows "merge_loop w (LogOperator_cases w) LogOperator0 (LogOperator_SerializeToArray w l) = Some (True, True, l, [])"
proof -
  let ?c = "LogOperator_cases w"
  have 1: "merge_loop w ?c LogOperator0 ((if optype l \<noteq> 0 then WriteUInt32ToArray 1 (optype l) else []) @ r) =
      merge_loop w ?c (LogOperator0\<lparr>optype := optype l\<rparr>) r" for r
    by (rule merge_uint32[where cases = ?c and n = 1, OF w _ _ LogOperator_case(1), THEN trans]) (simp_all add: wire_tags LogOperator0_def)
  have 2: "merge_loop w ?c (LogOperator0\<lparr>optype := optype l\<rparr>) (write_sub 2 (LogMkdir_ByteSizeLong w) (LogMkdir_SerializeToArray w) (mkr l) @ r) =
      merge_loop w ?c (LogOperator0\<lparr>optype := optype l, mkr := mkr l\<rparr>) r" for r
    by (rule merge_sub[where cases = ?c and n = 2 and put = "\<lambda>x l. l\<lparr>mkr := x\<rparr>", OF w _ _ LogOperator_case(2), THEN trans])
      (use t in \<open>auto simp: wire_tags LogOperator0_def lopr_ok_def mutable_mkr_def LogMkdir_text_size[OF w] LogMkdir_parse[OF w]\<close>)
  have 3: "merge_loop w ?c (LogOperator0\<lparr>optype := optype l, mkr := mkr l\<rparr>) (write_sub 3 (LogRmr_ByteSizeLong w) (LogRmr_SerializeToArray w) (rmr l) @ r) =
      merge_loop w ?c (LogOperator0\<lparr>optype := optype l, mkr := mkr l, rmr := rmr l\<rparr>) r" for r
    by (rule merge_sub[where cases = ?c and n = 3 and put = "\<lambda>x l. l\<lparr>rmr := x\<rparr>", OF w _ _ LogOperator_case(3), THEN trans])
      (use t in \<open>auto simp: wire_tags LogOperator0_def lopr_ok_def mutable_rmr_def LogRmr_text_size[OF w] LogRmr_parse[OF w]\<close>)
  have 4: "merge_loop w ?c (LogOperator0\<lparr>optype := optype l, mkr := mkr l, rmr := rmr l\<rparr>) (write_sub 4 (LogCreate_ByteSizeLong w) (LogCreate_SerializeToArray w) (cre l) @ r) =
      merge_loop w ?c (LogOperator0\<lparr>optype := optype l, mkr := mkr l, rmr := rmr l, cre := cre l\<rparr>) r" for r
    by (rule merge_sub[where cases = ?c and n = 4 and put = "\<lambda>x l. l\<lparr>cre := x\<rparr>", OF w _ _ LogOperator_case(4), THEN trans])
      (use t in \<open>auto simp: wire_tags LogOperator0_def lopr_ok_def mutable_cre_def LogCreate_text_size[OF w] LogCreate_parse[OF w]\<close>)
  have 5: "merge_loop w ?c (LogOperator0\<lparr>optype := optype l, mkr := mkr l, rmr := rmr l, cre := cre l\<rparr>) (write_sub 5 (LogGetAdditionalBlk_ByteSizeLong w) (LogGetAdditionalBlk_SerializeToArray w) (gab l) @ r) =
      merge_loop w ?c (LogOperator0\<lparr>optype := optype l, mkr := mkr l, rmr := rmr l, cre := cre l, gab := gab l\<rparr>) r" for r
    by (rule merge_sub[where cases = ?c and n = 5 and put = "\<lambda>x l. l\<lparr>gab := x\<rparr>", OF w _ _ LogOperator_case(5), THEN trans])
      (use t in \<open>auto simp: wire_tags LogOperator0_def lopr_ok_def mutable_gab_def LogGetAdditionalBlk_text_size[OF w] LogGetAdditionalBlk_parse[OF w]\<close>)
  have 6: "merge_loop w ?c (LogOperator0\<lparr>optype := optype l, mkr := mkr l, rmr := rmr l, cre := cre l, gab := gab l\<rparr>) (write_sub 6 (LogClose_ByteSizeLong w) (LogClose_SerializeToArray w) (cle l) @ r) =
      merge_loop w ?c (LogOperator0\<lparr>optype := optype l, mkr := mkr l, rmr := rmr l, cre := cre l, gab := gab l, cle := cle l\<rparr>) r" for r
    by (rule merge_sub[where cases = ?c and n = 6 and put = "\<lambda>x l. l\<lparr>cle := x\<rparr>", OF w _ _ LogOperator_case(6), THEN trans])
      (use t in \<open>auto simp: wire_tags LogOperator0_def lopr_ok_def mutable_cle_def LogClose_text_size[OF w] LogClose_parse[OF w]\<close>)
  have 7: "merge_loop w ?c (LogOperator0\<lparr>optype := optype l, mkr := mkr l, rmr := rmr l, cre := cre l, gab := gab l, cle := cle l\<rparr>) (write_sub 7 (LogRm_ByteSizeLong w) (LogRm_SerializeToArray w) (rm l) @ r) =
      merge_loop w ?c (LogOperator0\<lparr>optype := optype l, mkr := mkr l, rmr := rmr l, cre := cre l, gab := gab l, cle := cle l, rm := rm l\<rparr>) r" for r
    by (rule merge_sub[where cases = ?c and n = 7 and put = "\<lambda>x l. l\<lparr>rm := x\<rparr>", OF w _ _ LogOperator_case(7), THEN trans])
      (use t in \<open>auto simp: wire_tags LogOperator0_def lopr_ok_def mutable_rm_def LogRm_text_size[OF w] LogRm_parse[OF w]\<close>)
  have full: "LogOperator0\<lparr>optype := optype l, mkr := mkr l, rmr := rmr l, cre := cre l, gab := gab l, cle := cle l, rm := rm l\<rparr> = l" by (simp add: LogOperator0_def)
  have "merge_loop w ?c LogOperator0 (LogOperator_SerializeToArray w l @ []) = merge_loop w ?c l []"
    unfolding LogOperator_SerializeToArray_def append_assoc by (simp only: 1 2 3 4 5 6 7 full)
  then show ?thesis by (simp add: merge_end[of w "LogOperator_cases w", OF w LogOperator_case(8)])
qed

section \<open>Properties\<close>

text \<open>The size of a record before the strings are known to be valid.\<close>

definition lopr_short :: "LogOperator \<Rightarrow> bool" where
  "lopr_short l \<longleftrightarrow>
     (\<forall>m. mkr l = Some m \<longrightarrow> length (mkr_key m) < 2 ^ 16 \<and> length (mkr_owner m) < 2 ^ 16 \<and> length (mkr_group m) < 2 ^ 16) \<and>
     (\<forall>m. rmr l = Some m \<longrightarrow> length (rmr_key m) < 2 ^ 16) \<and>
     (\<forall>m. cre l = Some m \<longrightarrow> length (cre_key m) < 2 ^ 16 \<and> length (cre_owner m) < 2 ^ 16 \<and> length (cre_group m) < 2 ^ 16) \<and>
     (\<forall>m. gab l = Some m \<longrightarrow> length (gab_key m) < 2 ^ 16) \<and>
     (\<forall>m. cle l = Some m \<longrightarrow> length (cle_key m) < 2 ^ 16) \<and>
     (\<forall>m. rm l = Some m \<longrightarrow> length (rm_key m) < 2 ^ 16)"

lemma write_sub_size:
  assumes "wire_ok w" "MakeTag n WIRETYPE_LENGTH_DELIMITED < 0x80" "\<And>m. x = Some m \<Longrightarrow> length (ser m) = bsize m"
  shows "length (write_sub n bsize ser x) = sub_size w bsize x"
  using assms(3) by (cases x) (simp_all add: write_sub_def sub_size_def write_length[OF assms(1)] assms(2) LengthDelimitedSize_def)

text \<open>
  C24. The size that \<open>ByteSizeLong\<close> announces, and with which the buffer is allocated, is the number of
  bytes that the serialiser writes, for every record whose strings are shorter than 64 kilobytes.
\<close>

theorem serialized_size:
  assumes "wire_ok w" and "lopr_short l"
  shows "length (LogOperator_SerializeToString w l) = LogOperator_ByteSizeLong w l"
proof -
  note size = LogMkdir_size(1)[OF assms(1)] LogRmr_size(1)[OF assms(1)] LogCreate_size(1)[OF assms(1)]
    LogGetAdditionalBlk_size(1)[OF assms(1)] LogClose_size(1)[OF assms(1)] LogRm_size(1)[OF assms(1)]
  show ?thesis
    using assms(2) unfolding lopr_short_def LogOperator_SerializeToString_def LogOperator_SerializeToArray_def LogOperator_ByteSizeLong_def
    by (simp add: write_length[OF assms(1)] write_sub_size[OF assms(1)] size wire_tags)
qed

text \<open>
  C6. A record that is serialised by the proposing member is parsed by every member to the same record,
  field by field, with unset sub-messages staying unset, whenever its strings are shorter than 64
  kilobytes and valid UTF-8.
\<close>

theorem parse_serialize:
  assumes "wire_ok w" and "lopr_ok w l"
  shows "LogOperator_ParseFromString w (LogOperator_SerializeToString w l) = Some (True, l)"
  using LogOperator_parse[OF assms]
  by (simp add: LogOperator_ParseFromString_def LogOperator_MergePartialFromCodedStream_def LogOperator_SerializeToString_def)

text \<open>
  C25. Copying a record, which clears the target and merges, makes the target equal to the source,
  whatever the target held.
\<close>

theorem copy_from: "LogOperator_CopyFrom from l = from"
proof -
  have mkr: "LogMkdir_UnsafeMergeFrom m LogMkdir0 = m" for m by (simp add: LogMkdir_UnsafeMergeFrom_def LogMkdir0_def Let_def)
  have rmr: "LogRmr_UnsafeMergeFrom m LogRmr0 = m" for m by (simp add: LogRmr_UnsafeMergeFrom_def LogRmr0_def Let_def)
  have cre: "LogCreate_UnsafeMergeFrom m LogCreate0 = m" for m by (simp add: LogCreate_UnsafeMergeFrom_def LogCreate0_def Let_def)
  have gab: "LogGetAdditionalBlk_UnsafeMergeFrom m LogGetAdditionalBlk0 = m" for m by (simp add: LogGetAdditionalBlk_UnsafeMergeFrom_def LogGetAdditionalBlk0_def Let_def)
  have cle: "LogClose_UnsafeMergeFrom m LogClose0 = m" for m by (simp add: LogClose_UnsafeMergeFrom_def LogClose0_def Let_def)
  have rm: "LogRm_UnsafeMergeFrom m LogRm0 = m" for m by (simp add: LogRm_UnsafeMergeFrom_def LogRm0_def Let_def)
  show ?thesis
    by (cases "mkr from"; cases "rmr from"; cases "cre from"; cases "gab from"; cases "cle from"; cases "rm from")
      (simp_all add: LogOperator_CopyFrom_def LogOperator_UnsafeMergeFrom_def LogOperator_Clear_def Let_def
        mutable_mkr_def mutable_rmr_def mutable_cre_def mutable_gab_def mutable_cle_def mutable_rm_def mkr rmr cre gab cle rm)
qed

text \<open>A string that the parser rejects ends the parse after it was stored.\<close>

lemma LogMkdir_bad_owner:
  assumes w: "wire_ok w" and key: "text_ok w (mkr_key m)"
    and owner: "mkr_owner m \<noteq> []" "length (mkr_owner m) < 2 ^ 16" "\<not> VerifyUtf8String w (mkr_owner m)"
  shows "\<exists>r. merge_loop w (LogMkdir_cases w) LogMkdir0 (LogMkdir_SerializeToArray w m) =
    Some (False, False, m\<lparr>mkr_group := [], mkr_mtime := 0\<rparr>, r)"
proof -
  let ?c = "LogMkdir_cases w" and ?m2 = "LogMkdir0\<lparr>mkr_key := mkr_key m, mkr_permission := mkr_permission m\<rparr>"
  have 1: "merge_loop w ?c LogMkdir0 ((if mkr_key m \<noteq> [] then WriteStringToArray w 1 (mkr_key m) else []) @ r) =
      merge_loop w ?c (LogMkdir0\<lparr>mkr_key := mkr_key m\<rparr>) r" for r
    by (rule merge_string[where cases = ?c and n = 1, OF w _ _ LogMkdir_case(1) text_okD(2)[OF key] text_okD(3)[OF key], THEN trans])
      (simp_all add: wire_tags LogMkdir0_def)
  have 2: "merge_loop w ?c (LogMkdir0\<lparr>mkr_key := mkr_key m\<rparr>)
      ((if mkr_permission m \<noteq> 0 then WriteUInt32ToArray 2 (mkr_permission m) else []) @ r) = merge_loop w ?c ?m2 r" for r
    by (rule merge_uint32[where cases = ?c and n = 2, OF w _ _ LogMkdir_case(2), THEN trans]) (simp_all add: wire_tags LogMkdir0_def)
  have "length (mkr_owner m) < 2 ^ 31" using owner(2) by simp
  note read = wire_read_string[OF w this]
  have 3: "merge_loop w ?c ?m2 ((if mkr_owner m \<noteq> [] then WriteStringToArray w 3 (mkr_owner m) else []) @ r) =
      Some (False, False, ?m2\<lparr>mkr_owner := mkr_owner m\<rparr>, r)" for r
    using owner(1,3) merge_tag[of "MakeTag 3 WIRETYPE_LENGTH_DELIMITED" ?c, OF _ _ LogMkdir_case(3), of w] read[of r]
    by (simp add: WriteStringToArray_def WriteVarint32_varint wire_write_string[OF w] read_string_def wire_tags)
  have "?m2\<lparr>mkr_owner := mkr_owner m\<rparr> = m\<lparr>mkr_group := [], mkr_mtime := 0\<rparr>" by (simp add: LogMkdir0_def)
  then show ?thesis unfolding LogMkdir_SerializeToArray_def append_assoc by (simp only: 1 2 3) blast
qed

text \<open>
  C26. A record with a user name that is not valid UTF-8 is written, but no member can read it back: the
  parse fails after the name, and what it leaves behind lacks the group and the time of modification.
  The caller does not look at the result of the parse, so the directory is created without them.
\<close>

theorem parse_bad_owner:
  assumes w: "wire_ok w" and key: "text_ok w (mkr_key m)" and group: "length (mkr_group m) < 2 ^ 16"
    and owner: "mkr_owner m \<noteq> []" "length (mkr_owner m) < 2 ^ 16" "\<not> VerifyUtf8String w (mkr_owner m)"
  shows "LogOperator_ParseFromString w (LogOperator_SerializeToString w (LogOperator0\<lparr>optype := t, mkr := Some m\<rparr>)) =
    Some (False, LogOperator0\<lparr>optype := t, mkr := Some (m\<lparr>mkr_group := [], mkr_mtime := 0\<rparr>)\<rparr>)"
proof -
  let ?c = "LogOperator_cases w" and ?body = "LogMkdir_SerializeToArray w m"
  have 1: "merge_loop w ?c LogOperator0 ((if t \<noteq> 0 then WriteUInt32ToArray 1 t else []) @ r) =
      merge_loop w ?c (LogOperator0\<lparr>optype := t\<rparr>) r" for r
    by (rule merge_uint32[where cases = ?c and n = 1, OF w _ _ LogOperator_case(1), THEN trans]) (simp_all add: wire_tags LogOperator0_def)
  have len: "length ?body = LogMkdir_ByteSizeLong w m" "LogMkdir_ByteSizeLong w m < 2 ^ 31"
    using LogMkdir_size[OF w, of m] text_okD(1)[OF key] owner(2) group by blast+
  have short: "length ?body < 2 ^ 31" using len by simp
  then have u: "unat (of_nat (length ?body) :: u32) = length ?body" by (simp add: unsigned_of_nat take_bit_nat_eq_self)
  obtain r where bad: "merge_loop w (LogMkdir_cases w) LogMkdir0 ?body = Some (False, False, m\<lparr>mkr_group := [], mkr_mtime := 0\<rparr>, r)"
    using LogMkdir_bad_owner[OF w key owner] by blast
  have sub: "mutable_mkr (LogOperator0\<lparr>optype := t\<rparr>) = LogMkdir0" by (simp add: mutable_mkr_def LogOperator0_def)
  have 2: "merge_loop w ?c (LogOperator0\<lparr>optype := t\<rparr>) (InternalWriteMessageNoVirtualToArray 2 (length ?body) ?body @ []) =
      Some (False, False, LogOperator0\<lparr>optype := t, mkr := Some (m\<lparr>mkr_group := [], mkr_mtime := 0\<rparr>)\<rparr>, [])"
    using merge_tag[of "MakeTag 2 WIRETYPE_LENGTH_DELIMITED" ?c, OF _ _ LogOperator_case(2), of w] bad sub
      wire_read_size[OF w short, of ?body] wire_limit[OF w, of ?body "[]"]
    by (simp add: InternalWriteMessageNoVirtualToArray_def WriteVarint32_varint ReadMessageNoVirtual_def u wire_tags)
  have "LogOperator_SerializeToString w (LogOperator0\<lparr>optype := t, mkr := Some m\<rparr>) =
      (if t \<noteq> 0 then WriteUInt32ToArray 1 t else []) @ InternalWriteMessageNoVirtualToArray 2 (length ?body) ?body @ []"
    by (simp add: LogOperator_SerializeToString_def LogOperator_SerializeToArray_def write_sub_def LogOperator0_def len(1))
  then show ?thesis
    unfolding LogOperator_ParseFromString_def LogOperator_MergePartialFromCodedStream_def by (simp only: 1 2) simp
qed

section \<open>A runtime\<close>

text \<open>A runtime with the documented behaviour; it accepts ASCII strings and skips no field.\<close>

fun unvarint :: "bytes \<Rightarrow> (nat \<times> bytes) option" where
  "unvarint [] = None"
| "unvarint (b # r) = (if b < 0x80 then Some (unat b, r)
     else (case unvarint r of None \<Rightarrow> None | Some (n, r') \<Rightarrow> Some (unat b - 128 + 128 * n, r')))"

definition wire0 :: wire where
  "wire0 = \<lparr>WriteVarint64ToArray = (\<lambda>v. varint (unat v)), WriteStringWithSizeToArray = (\<lambda>s. varint (length s) @ s),
     VarintSize32Fallback = (\<lambda>v. length (varint (unat v))), VarintSize64 = (\<lambda>v. length (varint (unat v))),
     ReadVarint32Fallback = (\<lambda>i. map_option (\<lambda>(n, r). (of_nat n, r)) (unvarint i)),
     ReadVarint64Fallback = (\<lambda>i. map_option (\<lambda>(n, r). (of_nat n, r)) (unvarint i)),
     ReadVarintSizeAsIntFallback = unvarint,
     ReadTagFallback = (\<lambda>i. case unvarint i of None \<Rightarrow> (0, i = [], []) | Some (n, r) \<Rightarrow> (of_nat n, False, r)),
     ReadBytes = (\<lambda>i. case unvarint i of None \<Rightarrow> None | Some (n, r) \<Rightarrow> if n \<le> length r then Some (take n r, drop n r) else None),
     SkipField = (\<lambda>_ _. None), VerifyUtf8String = (\<lambda>s. \<forall>b \<in> set s. b < 0x80),
     PushLimit = (\<lambda>n i. if n \<le> length i then Some (take n i, drop n i) else None)\<rparr>"

lemma unvarint_varint: "unvarint (varint n @ r) = Some (n, r)"
proof (induction n rule: varint.induct)
  case (1 n)
  show ?case
  proof (cases "n < 128")
    case True
    then show ?thesis using small_byte[OF True] by (simp add: varint_small)
  next
    case False
    let ?b = "of_nat (n mod 128 + 128) :: u8"
    have "n mod 128 + 128 < 2 ^ 8" by (simp add: mod_less_divisor[THEN order_less_le_trans])
    then have b: "unat ?b = n mod 128 + 128" by (subst unsigned_of_nat) (simp add: take_bit_nat_eq_self)
    then have "\<not> ?b < 0x80" by (simp add: word_less_nat_alt)
    moreover have "varint n = ?b # varint (n div 128)" using False by (subst varint.simps) simp
    ultimately have "unvarint (varint n @ r) = Some (unat ?b - 128 + 128 * (n div 128), r)" using 1[OF False] by (simp only: append_Cons unvarint.simps) simp
    then show ?thesis unfolding b by simp
  qed
qed

lemma wire0_ok: "wire_ok wire0"
  by (simp add: wire_ok_def wire0_def unvarint_varint)

definition demo_mkdir :: LogMkdir where
  "demo_mkdir = \<lparr>mkr_key = str ''L2hvbWU='', mkr_permission = 755, mkr_owner = str ''ann'', mkr_group = str ''staff'', mkr_mtime = 1000\<rparr>"

theorem serialized_size_witness:
  "length (LogOperator_SerializeToString wire0 (LogOperator0\<lparr>optype := 1, mkr := Some demo_mkdir\<rparr>)) =
   LogOperator_ByteSizeLong wire0 (LogOperator0\<lparr>optype := 1, mkr := Some demo_mkdir\<rparr>)"
  by (rule serialized_size[OF wire0_ok]) (simp add: lopr_short_def demo_mkdir_def str_def LogOperator0_def)

theorem parse_serialize_witness:
  "LogOperator_ParseFromString wire0 (LogOperator_SerializeToString wire0 (LogOperator0\<lparr>optype := 1, mkr := Some demo_mkdir\<rparr>)) =
   Some (True, LogOperator0\<lparr>optype := 1, mkr := Some demo_mkdir\<rparr>)"
  by (rule parse_serialize[OF wire0_ok]) (simp add: lopr_ok_def text_ok_def demo_mkdir_def str_def LogOperator0_def wire0_def)

theorem parse_bad_owner_witness:
  "LogOperator_ParseFromString wire0 (LogOperator_SerializeToString wire0
     (LogOperator0\<lparr>optype := 1, mkr := Some (demo_mkdir\<lparr>mkr_owner := [0xff]\<rparr>)\<rparr>)) =
   Some (False, LogOperator0\<lparr>optype := 1, mkr := Some (demo_mkdir\<lparr>mkr_owner := [0xff], mkr_group := [], mkr_mtime := 0\<rparr>)\<rparr>)"
  using parse_bad_owner[OF wire0_ok, of "demo_mkdir\<lparr>mkr_owner := [0xff]\<rparr>" 1]
  by (simp add: text_ok_def demo_mkdir_def str_def wire0_def)

end
