(* ===== verification/Nn_File_Index.thy ===== *)
theory Nn_File_Index
  imports Fs_Permission Nn_Dn_Runs Dfs_Base64 Phx_Codec
begin

text \<open>
  The file index of the name node (\<open>src/src/namenode/nn_file_index.c\<close>): a hash table from keys,
  the base64 forms of paths, to inodes; a directory has the queue of its children, and all closed
  objects are on the queue of the next checkpoint. This theory holds the code: the path helpers,
  the handlers that read, and the updates that every member of the paxos group executes.
\<close>

section \<open>Start\<close>

definition fi_hash_keycmp :: "bytes \<Rightarrow> bytes \<Rightarrow> nat \<Rightarrow> int" where
  "fi_hash_keycmp arg1 arg2 sz = string_strncmp arg1 arg2 sz"

definition fi_mem_mgmt_create ::
  "(resource \<Rightarrow> bool) \<Rightarrow> nat \<Rightarrow> resource set \<Rightarrow> (int \<times> fi_store mem_mblks option) \<times> resource set" where
  "fi_mem_mgmt_create = mem_mgmt_create fi_store0"

definition fi_cache_mgmt_create ::
  "(nat, bytes) hashtable \<Rightarrow> (resource \<Rightarrow> bool) \<Rightarrow> nat \<Rightarrow> resource set \<Rightarrow>
   ((fi_store mem_mblks \<times> (nat, bytes) hashtable) option \<times> resource set) option" where
  "fi_cache_mgmt_create = cache_mgmt_create fi_store0 fi_hash_keycmp dfs_hashtable_hash_low"

text \<open>\<open>index_num\<close> is the configured number of objects.\<close>

definition fi_cache_mgmt_new_init ::
  "nat \<Rightarrow> (nat, bytes) hashtable \<Rightarrow> (resource \<Rightarrow> bool) \<Rightarrow>
   ((fi_store mem_mblks \<times> (nat, bytes) hashtable) option \<times> resource set) option" where
  "fi_cache_mgmt_new_init index_num mem ok = do {
     index_num \<leftarrow> dfs_math_find_prime index_num;
     fi_cache_mgmt_create mem ok index_num {} }"

text \<open>The table of timers is created and never used; \<open>tok\<close> is whether that succeeds.\<close>

definition nn_file_index_worker_init ::
  "nat \<Rightarrow> (nat, bytes) hashtable \<Rightarrow> (resource \<Rightarrow> bool) \<Rightarrow> bool \<Rightarrow> fi_index \<Rightarrow> (int \<times> fi_index) option" where
  "nn_file_index_worker_init index_num mem ok tok s = do {
     (r, _) \<leftarrow> fi_cache_mgmt_new_init index_num mem ok;
     Some (case r of
             None \<Rightarrow> (DFS_ERROR, s)
           | Some (pool, ht) \<Rightarrow>
               let s = s\<lparr>fi_pool := pool, fi_htable := ht\<rparr> in
               if \<not> tok then (DFS_ERROR, s)
               else (DFS_OK, s\<lparr>fs_object_num := 0, fi_links := queue_init CheckpointQ (fi_links s)\<rparr>)) }"

section \<open>Keys and paths\<close>

definition get_store_obj :: "bytes \<Rightarrow> fi_index \<Rightarrow> nat option option" where
  "get_store_obj key s = dfs_hashtable_lookup (fi_htable s) key (length key)"

text \<open>The path buffer is zeroed, so the path ends at the first zero byte.\<close>

definition get_store_path :: "bytes \<Rightarrow> bytes" where
  "get_store_path key = takeWhile (\<lambda>b. b \<noteq> 0) (snd (base64_decode [] key))"

definition slash :: u8 where
  "slash = 47"

text \<open>
  \<open>strtok_r\<close> with the delimiter \<open>/\<close>: the tokens, and what is left of the path, which is cut off
  after the first token.
\<close>

fun tokens :: "bytes \<Rightarrow> bytes \<Rightarrow> bytes list" where
  "tokens cur [] = (if cur = [] then [] else [rev cur])"
| "tokens cur (c # s) =
     (if c = slash then (if cur = [] then tokens [] s else rev cur # tokens [] s) else tokens (c # cur) s)"

definition cut_path :: "bytes \<Rightarrow> bytes" where
  "cut_path path =
     (let lead = takeWhile (\<lambda>c. c = slash) path; rest = dropWhile (\<lambda>c. c = slash) path
      in lead @ takeWhile (\<lambda>c. c \<noteq> slash) rest)"

definition get_path_names :: "bytes \<Rightarrow> bytes list \<times> bytes" where
  "get_path_names path = ([slash] # tokens [] path, cut_path path)"

text \<open>The key of a path; a key that fills its buffer is not terminated, which is undefined behaviour.\<close>

definition key_encode :: "bytes \<Rightarrow> bytes option" where
  "key_encode path = c_strcpy PATH_LEN (base64_encode path)"

fun path_keys_loop :: "nat \<Rightarrow> bytes \<Rightarrow> bytes list \<Rightarrow> bytes list option" where
  "path_keys_loop i ancestor_path [] = Some []"
| "path_keys_loop i ancestor_path (name # names) = do {
     let sub_path = (if i = 0 then name else if i = 1 then slash # name else ancestor_path @ slash # name);
     key \<leftarrow> key_encode sub_path;
     keys \<leftarrow> path_keys_loop (Suc i) sub_path names;
     Some (key # keys) }"

definition get_path_keys :: "bytes list \<Rightarrow> bytes list option" where
  "get_path_keys names = path_keys_loop 0 [] names"

text \<open>
  The inodes of a path, up to the first that does not exist: the slots that were filled, and the
  index of the last one, or \<open>-1\<close> also when none is missing.
\<close>

fun path_inodes_loop :: "int \<Rightarrow> bytes list \<Rightarrow> fi_index \<Rightarrow> (int \<times> nat list) option" where
  "path_inodes_loop i [] s = Some (-1, [])"
| "path_inodes_loop i (key # keys) s = do {
     fi \<leftarrow> get_store_obj key s;
     case fi of
       None \<Rightarrow> Some (i - 1, [])
     | Some p \<Rightarrow> do {
         (r, ps) \<leftarrow> path_inodes_loop (i + 1) keys s;
         Some (r, p # ps) } }"

definition get_path_inodes :: "bytes list \<Rightarrow> fi_index \<Rightarrow> (int \<times> nat list) option" where
  "get_path_inodes keys s = path_inodes_loop 0 keys s"

text \<open>The comparison of the object counter, in unsigned 64-bit arithmetic.\<close>

definition is_FsObjectExceed :: "nat \<Rightarrow> int \<Rightarrow> fi_index \<Rightarrow> bool" where
  "is_FsObjectExceed index_num num s \<longleftrightarrow> fs_object_num s + of_int num \<ge> of_nat index_num"

definition inc_FsObjectNum :: "int \<Rightarrow> fi_index \<Rightarrow> fi_index" where
  "inc_FsObjectNum num s = s\<lparr>fs_object_num := fs_object_num s + of_int num\<rparr>"

definition sub_FsObjectNum :: "int \<Rightarrow> fi_index \<Rightarrow> fi_index" where
  "sub_FsObjectNum num s = s\<lparr>fs_object_num := fs_object_num s - of_int num\<rparr>"

definition is_InSafeMode :: bool where
  "is_InSafeMode \<longleftrightarrow> False"

text \<open>The comparison of a path with the root; it also holds of the empty path.\<close>

definition is_root :: "bytes \<Rightarrow> bool" where
  "is_root path \<longleftrightarrow> string_strncmp [slash] path (length path) = 0"

text \<open>
  The key of the parent directory: \<open>strrchr\<close> returns NULL for a path without \<open>/\<close>, and the copy of
  a number of bytes computed from NULL is undefined behaviour.
\<close>

definition get_parent_key :: "bytes \<Rightarrow> bytes option" where
  "get_parent_key path = do {
     let back = takeWhile (\<lambda>c. c \<noteq> slash) (rev path);
     if length back = length path then None
     else (let pIndex = length path - length back - 1
           in key_encode (if pIndex = 0 then [slash] else take pIndex path)) }"

section \<open>Handlers that forward\<close>

datatype outcome = WriteBack task | ToPaxos task

definition forward :: "task \<Rightarrow> outcome" where
  "forward task = (if is_InSafeMode then WriteBack (task\<lparr>t_ret := IN_SAFE_MODE\<rparr>) else ToPaxos task)"

definition nn_mkdir :: "task \<Rightarrow> outcome" where
  "nn_mkdir = forward"

definition nn_rmr :: "task \<Rightarrow> outcome" where
  "nn_rmr = forward"

definition nn_create :: "task \<Rightarrow> outcome" where
  "nn_create = forward"

definition nn_get_additional_blk :: "task \<Rightarrow> outcome" where
  "nn_get_additional_blk = forward"

definition nn_close :: "task \<Rightarrow> outcome" where
  "nn_close = forward"

definition nn_rm :: "task \<Rightarrow> outcome" where
  "nn_rm = forward"

section \<open>Handlers that read\<close>

text \<open>From \<open>nn_paxos.c\<close>; the message of a denied check is only logged.\<close>

definition check_ancestor_access :: "task \<Rightarrow> int \<Rightarrow> fi_inode \<Rightarrow> int option" where
  "check_ancestor_access task access finode = do {
     (rc, err) \<leftarrow> check_permission task finode access;
     Some (if rc \<noteq> DFS_OK then DFS_ERROR else DFS_OK) }"

fun me_of :: "fi_node \<Rightarrow> nat option" where
  "me_of (Me p) = Some p"
| "me_of _ = None"

text \<open>The loop over the children.\<close>

fun ls_loop :: "nat \<Rightarrow> fi_node \<Rightarrow> fi_index \<Rightarrow> fi_inode list option" where
  "ls_loop 0 entry s = Some []"
| "ls_loop (Suc n) entry s = do {
     fsubdir \<leftarrow> me_of entry;
     entry \<leftarrow> q_next (fi_links s) entry;
     d \<leftarrow> pool_at fsubdir (fi_pool s);
     fins \<leftarrow> ls_loop n entry s;
     Some (fs_fin d # fins) }"

definition nn_ls :: "bytes \<Rightarrow> task \<Rightarrow> fi_index \<Rightarrow> task option" where
  "nn_ls admin task s = do {
     fi \<leftarrow> get_store_obj (t_key task) s;
     case fi of
       None \<Rightarrow> Some (task\<lparr>t_ret := KEY_NOTEXIST\<rparr>)
     | Some fis \<Rightarrow> do {
         d \<leftarrow> pool_at fis (fi_pool s);
         let finode = fs_fin d;
         rc \<leftarrow> (if is_super (t_user task) admin then Some DFS_OK
                else check_ancestor_access task READ_EXECUTE finode);
         if rc \<noteq> DFS_OK then Some (task\<lparr>t_ret := PERMISSION_DENY\<rparr>)
         else if \<not> i_is_directory finode then Some (task\<lparr>t_data := TInodes [finode], t_ret := DFS_OK\<rparr>)
         else do {
           let children_num = unat (fs_children_num d);
           entry \<leftarrow> q_next (fi_links s) (Children fis);
           fins \<leftarrow> ls_loop children_num entry s;
           Some (if children_num > 0 then task\<lparr>t_data := TInodes fins, t_ret := DFS_OK\<rparr>
                 else task\<lparr>t_ret := DFS_OK\<rparr>) } } }"

definition nn_get_file_info :: "task \<Rightarrow> int" where
  "nn_get_file_info task = DFS_OK"

text \<open>Opening a file answers with its first block; a block the index does not know is NULL.\<close>

definition nn_open :: "bytes \<Rightarrow> u64 \<Rightarrow> task \<Rightarrow> nn_state \<Rightarrow> task option" where
  "nn_open admin namespace_id task s =
     (case t_data task of
        TBlkInfo _ _ \<Rightarrow> do {
          let task = task\<lparr>t_data := TNull\<rparr>;
          fi \<leftarrow> get_store_obj (t_key task) (nn_fi s);
          case fi of
            None \<Rightarrow> Some (task\<lparr>t_ret := KEY_NOTEXIST\<rparr>)
          | Some p \<Rightarrow> do {
              d \<leftarrow> pool_at p (fi_pool (nn_fi s));
              if fs_state d = KEY_STATE_CREATING then Some (task\<lparr>t_ret := KEY_STATE_CREATING\<rparr>)
              else if i_is_directory (fs_fin d) then Some (task\<lparr>t_ret := NOT_FILE\<rparr>)
              else do {
                rc \<leftarrow> (if is_super (t_user task) admin then Some DFS_OK
                       else check_ancestor_access task READ_EXECUTE (fs_fin d));
                if rc \<noteq> DFS_OK then Some (task\<lparr>t_ret := PERMISSION_DENY\<rparr>)
                else do {
                  blk \<leftarrow> get_blk_store_obj (i_blks (fs_fin d) ! 0) (nn_bd s);
                  q \<leftarrow> blk;
                  b \<leftarrow> pool_at q (blk_pool (nn_bd s));
                  Some (task\<lparr>t_data := TResp (resp0\<lparr>r_blk_id := b_id b, r_blk_sz := b_size b,
                          r_namespace_id := namespace_id, r_dn_num := 1, r_dn_ips := [b_dn_ip b, [], []]\<rparr>),
                        t_ret := SUCC\<rparr>) } } } }
      | _ \<Rightarrow> None)"

section \<open>Updates\<close>

definition FI_CREATE_TIME_OUT :: int where [dfs_code]: "FI_CREATE_TIME_OUT = 60 * 60 * 1000"

text \<open>A new record; its three queue links are zeroed with it.\<close>

definition fi_get0 :: "fi_index \<Rightarrow> (nat option \<times> fi_index) option" where
  "fi_get0 s = do {
     (r, pool) \<leftarrow> mem_get0 fi_store0 (fi_pool s);
     let s = s\<lparr>fi_pool := pool\<rparr>;
     Some (case r of
             None \<Rightarrow> (None, s)
           | Some p \<Rightarrow> (Some p, s\<lparr>fi_links :=
               clear_links (Ckp p) (clear_links (Me p) (clear_links (Children p) (fi_links s)))\<rparr>)) }"

definition fi_upd :: "nat \<Rightarrow> (fi_store \<Rightarrow> fi_store) \<Rightarrow> fi_index \<Rightarrow> fi_index option" where
  "fi_upd p f s = do { pool \<leftarrow> pool_upd p f (fi_pool s); Some (s\<lparr>fi_pool := pool\<rparr>) }"

abbreviation set_mtime :: "u64 \<Rightarrow> fi_store \<Rightarrow> fi_store" where
  "set_mtime t d \<equiv> d\<lparr>fs_fin := (fs_fin d)\<lparr>i_mtime := t\<rparr>\<rparr>"

text \<open>
  The statements that \<open>update_fi_mkdir\<close> and \<open>update_fi_close\<close> share: the parent is looked up and used
  without a check, its time is set, the record is appended to its children.
\<close>

definition link_parent :: "bytes \<Rightarrow> u64 \<Rightarrow> nat \<Rightarrow> fi_index \<Rightarrow> fi_index option" where
  "link_parent pKey mtime fis s = do {
     r \<leftarrow> get_store_obj pKey s;
     fparent \<leftarrow> r;
     s \<leftarrow> fi_upd fparent (set_mtime mtime) s;
     links \<leftarrow> queue_insert_tail (Children fparent) (Me fis) (fi_links s);
     fi_upd fparent (\<lambda>d. d\<lparr>fs_children_num := fs_children_num d + 1\<rparr>) (s\<lparr>fi_links := links\<rparr>) }"

definition update_fi_mkdir :: "fi_inode \<Rightarrow> fi_index \<Rightarrow> fi_index option" where
  "update_fi_mkdir fin s = do {
     (r, s) \<leftarrow> fi_get0 s;
     fis \<leftarrow> r;
     let s = s\<lparr>fi_links := queue_init (Children fis) (queue_init (Me fis) (queue_init (Ckp fis) (fi_links s)))\<rparr>;
     s \<leftarrow> fi_upd fis (\<lambda>d. d\<lparr>fs_fin := fin\<rparr>) s;
     ht \<leftarrow> dfs_hashtable_join fis (link_make fis (i_key fin) (length (i_key fin)) (fi_htable s));
     let s = s\<lparr>fi_htable := ht\<rparr>;
     let path = get_store_path (i_key fin);
     s \<leftarrow> (if is_root path then Some s
           else do {
             pKey \<leftarrow> get_parent_key path;
             link_parent pKey (i_mtime fin) fis s });
     links \<leftarrow> queue_insert_tail CheckpointQ (Ckp fis) (fi_links s);
     Some (inc_FsObjectNum 1 (s\<lparr>fi_links := links\<rparr>)) }"

text \<open>
  The blocks of a removed file: every slot above zero, the unused ones included. \<open>del\<close> is
  \<open>block_object_del\<close> of the block index.
\<close>

fun del_blks_loop :: "(u64 \<Rightarrow> 'b \<Rightarrow> (int \<times> 'b) option) \<Rightarrow> u64 list \<Rightarrow> 'b \<Rightarrow> 'b option" where
  "del_blks_loop del [] s = Some s"
| "del_blks_loop del (b # bs) s = do {
     s \<leftarrow> (if b > 0 then map_option snd (del b s) else Some s);
     del_blks_loop del bs s }"

text \<open>
  The removal of all children, which calls itself for a directory: \<open>entry\<close> is the next child, \<open>num\<close>
  the number that is left.
\<close>

partial_function (option) clear_loop ::
  "fi_node \<Rightarrow> u64 \<Rightarrow> int \<Rightarrow> int \<Rightarrow> nn_state \<Rightarrow> (int \<times> nn_state) option" where
  "clear_loop entry num file_num dir_num s =
     (if num = 0 then Some (file_num + dir_num, s)
      else do {
        fis \<leftarrow> me_of entry;
        entry \<leftarrow> q_next (fi_links (nn_fi s)) entry;
        links \<leftarrow> queue_remove (Me fis) (fi_links (nn_fi s));
        links \<leftarrow> queue_remove (Ckp fis) links;
        d \<leftarrow> pool_at fis (fi_pool (nn_fi s));
        let s = s\<lparr>nn_fi := (nn_fi s)\<lparr>fi_links := links\<rparr>\<rparr>;
        (file_num, dir_num, s) \<leftarrow>
          (if i_is_directory (fs_fin d)
           then do {
             sub \<leftarrow> q_next (fi_links (nn_fi s)) (Children fis);
             (n, s) \<leftarrow> clear_loop sub (fs_children_num d) 0 0 s;
             Some (file_num, dir_num + n + 1, s) }
           else do {
             bd \<leftarrow> del_blks_loop block_object_del (i_blks (fs_fin d)) (nn_bd s);
             Some (file_num + 1, dir_num, s\<lparr>nn_bd := bd\<rparr>) });
        (_, ht) \<leftarrow> dfs_hashtable_remove_link fis (fi_htable (nn_fi s));
        pool \<leftarrow> mem_put fis (fi_pool (nn_fi s));
        clear_loop entry (num - 1) file_num dir_num
          (s\<lparr>nn_fi := (nn_fi s)\<lparr>fi_htable := ht, fi_pool := pool\<rparr>\<rparr>) })"

definition clear_children :: "nat \<Rightarrow> u64 \<Rightarrow> nn_state \<Rightarrow> (int \<times> nn_state) option" where
  "clear_children p num s = do {
     entry \<leftarrow> q_next (fi_links (nn_fi s)) (Children p);
     clear_loop entry num 0 0 s }"

definition update_fi_rmr :: "fi_inode \<Rightarrow> nn_state \<Rightarrow> nn_state option" where
  "update_fi_rmr fin s = do {
     pKey \<leftarrow> get_parent_key (get_store_path (i_key fin));
     r \<leftarrow> get_store_obj pKey (nn_fi s);
     fparent \<leftarrow> r;
     fi \<leftarrow> fi_upd fparent (set_mtime (i_mtime fin)) (nn_fi s);
     r \<leftarrow> get_store_obj (i_key fin) fi;
     fcurrent \<leftarrow> r;
     d \<leftarrow> pool_at fcurrent (fi_pool fi);
     (num, s) \<leftarrow> clear_children fcurrent (fs_children_num d) (s\<lparr>nn_fi := fi\<rparr>);
     let fi = nn_fi s;
     (_, ht) \<leftarrow> dfs_hashtable_remove_link fcurrent (fi_htable fi);
     links \<leftarrow> queue_remove (Me fcurrent) (fi_links fi);
     links \<leftarrow> queue_remove (Ckp fcurrent) links;
     pool \<leftarrow> mem_put fcurrent (fi_pool fi);
     fi \<leftarrow> fi_upd fparent (\<lambda>d. d\<lparr>fs_children_num := fs_children_num d - 1\<rparr>)
             (fi\<lparr>fi_htable := ht, fi_links := links, fi_pool := pool\<rparr>);
     Some (s\<lparr>nn_fi := sub_FsObjectNum (num + 1) fi\<rparr>) }"

text \<open>
  A file that is being created: it is in the table, on no queue, and on the proposing member
  (\<open>thread\<close> is set there) under a timer. \<open>now\<close> is the clock of the timers.
\<close>

definition update_fi_create :: "int \<Rightarrow> nat option \<Rightarrow> fi_inode \<Rightarrow> u64 \<Rightarrow> fi_index \<Rightarrow> fi_index option" where
  "update_fi_create now thread fin blk_id s = do {
     (r, s) \<leftarrow> fi_get0 s;
     fis \<leftarrow> r;
     let s = s\<lparr>fi_links := queue_init (Me fis) (queue_init (Ckp fis) (fi_links s))\<rparr>;
     s \<leftarrow> fi_upd fis (\<lambda>d. d\<lparr>fs_state := KEY_STATE_CREATING,
            fs_fin := fin\<lparr>i_blks := blk_id # replicate (BLK_LIMIT - 1) (-1)\<rparr>\<rparr>) s;
     ht \<leftarrow> dfs_hashtable_join fis (link_make fis (i_key fin) (length (i_key fin)) (fi_htable s));
     let s = s\<lparr>fi_htable := ht\<rparr>;
     s \<leftarrow> (if thread = None then Some s
           else fi_upd fis (\<lambda>d. d\<lparr>fs_thread := thread,
                  fs_timer_ev := event_timer_add now FI_CREATE_TIME_OUT (fs_timer_ev d)\<rparr>) s);
     Some (inc_FsObjectNum 1 s) }"

definition fi_create_timeout :: "nat \<Rightarrow> fi_index \<Rightarrow> fi_index option" where
  "fi_create_timeout fis s = do {
     (_, ht) \<leftarrow> dfs_hashtable_remove_link fis (fi_htable s);
     pool \<leftarrow> mem_put fis (fi_pool s);
     Some (s\<lparr>fi_htable := ht, fi_pool := pool\<rparr>) }"

text \<open>The first unused slot takes the block; without one nothing changes.\<close>

fun put_blk :: "u64 \<Rightarrow> u64 list \<Rightarrow> u64 list" where
  "put_blk blk_id [] = []"
| "put_blk blk_id (b # bs) = (if b = -1 then blk_id # bs else b # put_blk blk_id bs)"

definition update_fi_get_additional_blk :: "int \<Rightarrow> fi_inode \<Rightarrow> u64 \<Rightarrow> fi_index \<Rightarrow> fi_index option" where
  "update_fi_get_additional_blk now fin blk_id s = do {
     r \<leftarrow> get_store_obj (i_key fin) s;
     fis \<leftarrow> r;
     s \<leftarrow> fi_upd fis (\<lambda>d. d\<lparr>fs_fin := (fs_fin d)\<lparr>i_blks := put_blk blk_id (i_blks (fs_fin d))\<rparr>\<rparr>) s;
     d \<leftarrow> pool_at fis (fi_pool s);
     if fs_thread d = None then Some s
     else fi_upd fis (\<lambda>d. d\<lparr>fs_timer_ev := event_timer_add now FI_CREATE_TIME_OUT (fs_timer_ev d)\<rparr>) s }"

definition update_fi_close :: "fi_inode \<Rightarrow> fi_index \<Rightarrow> fi_index option" where
  "update_fi_close fin s = do {
     r \<leftarrow> get_store_obj (i_key fin) s;
     fis \<leftarrow> r;
     s \<leftarrow> fi_upd fis (\<lambda>d. if fs_thread d = None then d
            else d\<lparr>fs_timer_ev := event_timer_del (fs_timer_ev d), fs_thread := None\<rparr>) s;
     s \<leftarrow> fi_upd fis (\<lambda>d. d\<lparr>fs_state := KEY_STATE_OK, fs_fin := (fs_fin d)\<lparr>i_mtime := i_mtime fin,
            i_length := i_length fin, i_blk_replication := i_blk_replication fin\<rparr>\<rparr>) s;
     pKey \<leftarrow> get_parent_key (get_store_path (i_key fin));
     s \<leftarrow> link_parent pKey (i_mtime fin) fis s;
     links \<leftarrow> queue_insert_tail CheckpointQ (Ckp fis) (fi_links s);
     Some (s\<lparr>fi_links := links\<rparr>) }"

definition update_fi_rm :: "fi_inode \<Rightarrow> nn_state \<Rightarrow> nn_state option" where
  "update_fi_rm fin s = do {
     pKey \<leftarrow> get_parent_key (get_store_path (i_key fin));
     let fi = nn_fi s;
     r \<leftarrow> get_store_obj pKey fi;
     fparent \<leftarrow> r;
     fi \<leftarrow> fi_upd fparent (set_mtime (i_mtime fin)) fi;
     r \<leftarrow> get_store_obj (i_key fin) fi;
     fcurrent \<leftarrow> r;
     d \<leftarrow> pool_at fcurrent (fi_pool fi);
     let del_blks = i_blks (fs_fin d);
     (_, ht) \<leftarrow> dfs_hashtable_remove_link fcurrent (fi_htable fi);
     links \<leftarrow> queue_remove (Me fcurrent) (fi_links fi);
     links \<leftarrow> queue_remove (Ckp fcurrent) links;
     pool \<leftarrow> mem_put fcurrent (fi_pool fi);
     fi \<leftarrow> fi_upd fparent (\<lambda>d. d\<lparr>fs_children_num := fs_children_num d - 1\<rparr>)
             (fi\<lparr>fi_htable := ht, fi_links := links, fi_pool := pool\<rparr>);
     bd \<leftarrow> del_blks_loop block_object_del del_blks (nn_bd s);
     Some (s\<lparr>nn_fi := sub_FsObjectNum 1 fi, nn_bd := bd\<rparr>) }"

section \<open>The execution of a log record\<close>

text \<open>Conversion of a 32-bit field to a \<open>short\<close>.\<close>

definition short_of :: "u32 \<Rightarrow> int" where
  "short_of w = sint (ucast w :: 16 word)"

text \<open>The inode that an update works on; \<open>strcpy\<close> overflows on strings that do not fit.\<close>

definition fin_mkdir :: "u64 \<Rightarrow> LogMkdir \<Rightarrow> fi_inode option" where
  "fin_mkdir llInstanceID m = do {
     key \<leftarrow> c_strcpy KEY_LEN (mkr_key m);
     owner \<leftarrow> c_strcpy OWNER_LEN (mkr_owner m);
     group \<leftarrow> c_strcpy GROUP_LEN (mkr_group m);
     Some (fi_inode0\<lparr>i_uid := llInstanceID, i_key := key, i_permission := short_of (mkr_permission m),
       i_owner := owner, i_group := group, i_mtime := mkr_mtime m, i_is_directory := True\<rparr>) }"

definition fin_create :: "u64 \<Rightarrow> LogCreate \<Rightarrow> fi_inode option" where
  "fin_create llInstanceID m = do {
     key \<leftarrow> c_strcpy KEY_LEN (cre_key m);
     owner \<leftarrow> c_strcpy OWNER_LEN (cre_owner m);
     group \<leftarrow> c_strcpy GROUP_LEN (cre_group m);
     Some (fi_inode0\<lparr>i_uid := llInstanceID, i_key := key, i_permission := short_of (cre_permission m),
       i_owner := owner, i_group := group, i_mtime := cre_mtime m, i_blk_size := cre_blk_sz m,
       i_blk_replication := short_of (cre_blk_rep m), i_is_directory := False\<rparr>) }"

text \<open>
  The record is parsed, whether or not that succeeds, and its operation is executed. \<open>now\<close> is the
  clock of this member and \<open>data\<close> the thread that proposed the record, if it was proposed here.
\<close>

definition update_fi_cache_mgmt ::
  "wire \<Rightarrow> int \<Rightarrow> u64 \<Rightarrow> bytes \<Rightarrow> nat option \<Rightarrow> nn_state \<Rightarrow> (int \<times> nn_state) option" where
  "update_fi_cache_mgmt w now llInstanceID sPaxosValue data s = do {
      (_, lopr) \<leftarrow> LogOperator_ParseFromString w sPaxosValue;
      let op = uint (optype lopr);
      if op = NN_MKDIR then do {
        fin \<leftarrow> fin_mkdir llInstanceID (mutable_mkr lopr);
        fi \<leftarrow> update_fi_mkdir fin (nn_fi s);
        Some (DFS_OK, s\<lparr>nn_fi := fi\<rparr>) }
      else if op = NN_RMR then do {
        key \<leftarrow> c_strcpy KEY_LEN (rmr_key (mutable_rmr lopr));
        s \<leftarrow> update_fi_rmr (fi_inode0\<lparr>i_key := key, i_mtime := rmr_mtime (mutable_rmr lopr)\<rparr>) s;
        Some (DFS_OK, s) }
      else if op = NN_GET_FILE_INFO then Some (DFS_OK, s)
      else if op = NN_CREATE then do {
        fin \<leftarrow> fin_create llInstanceID (mutable_cre lopr);
        fi \<leftarrow> update_fi_create now data fin (cre_blk_id (mutable_cre lopr)) (nn_fi s);
        Some (DFS_OK, s\<lparr>nn_fi := fi\<rparr>) }
      else if op = NN_GET_ADDITIONAL_BLK then do {
        key \<leftarrow> c_strcpy KEY_LEN (gab_key (mutable_gab lopr));
        fi \<leftarrow> update_fi_get_additional_blk now (fi_inode0\<lparr>i_uid := llInstanceID, i_key := key,
                i_blk_size := gab_blk_sz (mutable_gab lopr),
                i_blk_replication := short_of (gab_blk_rep (mutable_gab lopr))\<rparr>)
                (gab_blk_id (mutable_gab lopr)) (nn_fi s);
        Some (DFS_OK, s\<lparr>nn_fi := fi\<rparr>) }
      else if op = NN_CLOSE then do {
        key \<leftarrow> c_strcpy KEY_LEN (cle_key (mutable_cle lopr));
        fi \<leftarrow> update_fi_close (fi_inode0\<lparr>i_key := key, i_mtime := cle_mtime (mutable_cle lopr),
                i_length := cle_len (mutable_cle lopr),
                i_blk_replication := short_of (cle_blk_rep (mutable_cle lopr))\<rparr>) (nn_fi s);
        Some (DFS_OK, s\<lparr>nn_fi := fi\<rparr>) }
      else if op = NN_RM then do {
        key \<leftarrow> c_strcpy KEY_LEN (rm_key (mutable_rm lopr));
        s \<leftarrow> update_fi_rm (fi_inode0\<lparr>i_key := key, i_mtime := rm_mtime (mutable_rm lopr)\<rparr>) s;
        Some (DFS_OK, s) }
      else if op = NN_OPEN then Some (DFS_OK, s)
      else Some (DFS_ERROR, s) }"

end
