(* ===== verification/Nn_File_Rel.thy ===== *)
theory Nn_File_Rel
  imports Nn_File_Index
begin

text \<open>
  What the file index represents: a finite map from keys to records, for every directory the list
  of its children, and the list of the objects to be saved by the next checkpoint. The relation is
  split in three: \<open>fi_core\<close>, the memory is well-formed and the queues are those lists; \<open>fi_num\<close>,
  the counters of the directories; \<open>fi_state\<close>, closed objects are on the queues and files being created
  are not. An update passes through states in which records are unlinked but not yet freed (\<open>D\<close>)
  and in which the counter of a directory under removal is stale (\<open>N\<close>).
\<close>

section \<open>The relation\<close>

record fi_abs =
  a_map :: "bytes \<rightharpoonup> nat"
  a_dirs :: "nat set"
  a_kids :: "nat \<Rightarrow> nat list"
  a_ckp :: "nat list"

abbreviation a_live :: "fi_abs \<Rightarrow> nat set" where
  "a_live A \<equiv> ran (a_map A)"

definition a_linked :: "fi_abs \<Rightarrow> nat set" where
  "a_linked A = (\<Union>p \<in> a_dirs A. set (a_kids A p))"

definition fi_fam :: "fi_abs \<Rightarrow> nat set \<Rightarrow> fi_node \<rightharpoonup> fi_node list" where
  "fi_fam A D n = (case n of
       CheckpointQ \<Rightarrow> Some (map Ckp (a_ckp A))
     | Children p \<Rightarrow> if p \<in> a_dirs A then Some (map Me (a_kids A p)) else None
     | Me p \<Rightarrow> if p \<in> a_live A - D - a_linked A then Some [] else None
     | Ckp p \<Rightarrow> if p \<in> a_live A - D - set (a_ckp A) then Some [] else None
     | StackQ \<Rightarrow> None)"

abbreviation fi_obj :: "fi_index \<Rightarrow> nat \<Rightarrow> fi_store" where
  "fi_obj s p \<equiv> mb_data (fi_pool s) p"

abbreviation okey :: "fi_index \<Rightarrow> nat \<Rightarrow> bytes" where
  "okey s p \<equiv> i_key (fs_fin (fi_obj s p))"

definition parent_key_of :: "bytes \<Rightarrow> bytes option" where
  "parent_key_of key = (if is_root (get_store_path key) then None else get_parent_key (get_store_path key))"

definition fi_table :: "nat \<Rightarrow> bytes set \<Rightarrow> fi_index \<Rightarrow> fi_abs \<Rightarrow> bool" where
  "fi_table cap K s A \<longleftrightarrow>
     ht_rep length (fi_htable s) (a_map A) \<and> (\<forall>k \<in> K. no_clash length (fi_htable s) k K) \<and> dom (a_map A) \<subseteq> K \<and>
     pool_state cap (fi_pool s) (a_live A) \<and> cap < 2 ^ 64 \<and>
     (\<forall>k p. a_map A k = Some p \<longrightarrow> okey s p = k)"

definition fi_tree :: "nat set \<Rightarrow> fi_index \<Rightarrow> fi_abs \<Rightarrow> bool" where
  "fi_tree D s A \<longleftrightarrow>
     a_dirs A \<subseteq> a_live A \<and> (\<forall>p \<in> a_live A. i_is_directory (fs_fin (fi_obj s p)) \<longleftrightarrow> p \<in> a_dirs A) \<and>
     qfam (fi_links s) (fi_fam A D) \<and>
     (\<forall>p \<in> a_dirs A. \<forall>c \<in> set (a_kids A p). c \<in> a_live A - D \<and> parent_key_of (okey s c) = Some (okey s p)) \<and>
     (\<forall>p. p \<notin> a_dirs A \<longrightarrow> a_kids A p = []) \<and> set (a_ckp A) \<subseteq> a_live A - D \<and> D \<subseteq> a_live A"

definition fi_core :: "nat \<Rightarrow> bytes set \<Rightarrow> nat set \<Rightarrow> fi_index \<Rightarrow> fi_abs \<Rightarrow> bool" where
  "fi_core cap K D s A \<longleftrightarrow> fi_table cap K s A \<and> fi_tree D s A"

definition fi_num :: "nat set \<Rightarrow> fi_index \<Rightarrow> fi_abs \<Rightarrow> bool" where
  "fi_num N s A \<longleftrightarrow> (\<forall>p \<in> a_dirs A - N. fs_children_num (fi_obj s p) = of_nat (length (a_kids A p)))"

definition fi_state :: "nat set \<Rightarrow> fi_index \<Rightarrow> fi_abs \<Rightarrow> bool" where
  "fi_state D s A \<longleftrightarrow>
     (\<forall>p \<in> a_live A - D. p \<in> set (a_ckp A) \<longleftrightarrow> fs_state (fi_obj s p) \<noteq> KEY_STATE_CREATING) \<and>
     (\<forall>p \<in> a_live A - D. parent_key_of (okey s p) \<noteq> None \<longrightarrow> (p \<in> a_linked A \<longleftrightarrow> p \<in> set (a_ckp A))) \<and>
     a_dirs A - D \<subseteq> set (a_ckp A)"

text \<open>Nothing is under removal, and the object counter counts.\<close>

definition fi_rel :: "nat \<Rightarrow> bytes set \<Rightarrow> fi_index \<Rightarrow> fi_abs \<Rightarrow> bool" where
  "fi_rel cap K s A \<longleftrightarrow> fi_core cap K {} s A \<and> fi_num {} s A \<and> fi_state {} s A \<and>
     fs_object_num s = of_nat (card (a_live A))"

lemma fi_fam_simps [simp]:
  "fi_fam A D CheckpointQ = Some (map Ckp (a_ckp A))"
  "fi_fam A D (Children p) = (if p \<in> a_dirs A then Some (map Me (a_kids A p)) else None)"
  "fi_fam A D (Me p) = (if p \<in> a_live A - D - a_linked A then Some [] else None)"
  "fi_fam A D (Ckp p) = (if p \<in> a_live A - D - set (a_ckp A) then Some [] else None)"
  "fi_fam A D StackQ = None"
  by (simp_all add: fi_fam_def)

lemma in_fi_fam:
  "in_queue (fi_fam A D) (Me p) \<longleftrightarrow> p \<in> a_linked A"
  "in_queue (fi_fam A D) (Ckp p) \<longleftrightarrow> p \<in> set (a_ckp A)"
  "\<not> in_queue (fi_fam A D) (Children p)"
  "\<not> in_queue (fi_fam A D) CheckpointQ"
proof -
  have iff: "in_queue (fi_fam A D) n \<longleftrightarrow> (\<exists>c. n = Ckp c \<and> c \<in> set (a_ckp A)) \<or> (\<exists>c. n = Me c \<and> c \<in> a_linked A)" (is "_ \<longleftrightarrow> ?rhs") for n
  proof
    assume "in_queue (fi_fam A D) n"
    then obtain h xs where "fi_fam A D h = Some xs" "n \<in> set xs" by (auto simp: in_queue_def)
    then show ?rhs by (cases h) (fastforce simp: a_linked_def split: if_splits)+
  next
    assume ?rhs
    then consider c where "n = Ckp c" "c \<in> set (a_ckp A)" | p c where "n = Me c" "p \<in> a_dirs A" "c \<in> set (a_kids A p)"
      by (auto simp: a_linked_def)
    then show "in_queue (fi_fam A D) n"
      by cases (auto intro: in_queueI[of _ CheckpointQ] in_queueI[of _ "Children p" for p])
  qed
  show "in_queue (fi_fam A D) (Me p) \<longleftrightarrow> p \<in> a_linked A" "in_queue (fi_fam A D) (Ckp p) \<longleftrightarrow> p \<in> set (a_ckp A)"
    "\<not> in_queue (fi_fam A D) (Children p)" "\<not> in_queue (fi_fam A D) CheckpointQ"
    by (auto simp: iff)
qed

lemma fi_tableD:
  assumes "fi_table cap K s A"
  shows fi_ht: "ht_rep length (fi_htable s) (a_map A)"
    and fi_pool_ok: "pool_state cap (fi_pool s) (a_live A)"
    and fi_dom: "dom (a_map A) \<subseteq> K"
    and fi_clash: "\<And>k. k \<in> K \<Longrightarrow> no_clash length (fi_htable s) k K"
    and fi_cap: "cap < 2 ^ 64"
    and fi_key: "\<And>k p. a_map A k = Some p \<Longrightarrow> okey s p = k"
  using assms by (auto simp: fi_table_def)

lemma fi_treeD:
  assumes "fi_tree D s A"
  shows fi_dirs_live: "a_dirs A \<subseteq> a_live A"
    and fi_is_dir: "\<And>p. p \<in> a_live A \<Longrightarrow> i_is_directory (fs_fin (fi_obj s p)) \<longleftrightarrow> p \<in> a_dirs A"
    and fi_qfam: "qfam (fi_links s) (fi_fam A D)"
    and fi_kid: "\<And>p c. p \<in> a_dirs A \<Longrightarrow> c \<in> set (a_kids A p) \<Longrightarrow> c \<in> a_live A \<and> c \<notin> D \<and> parent_key_of (okey s c) = Some (okey s p)"
    and fi_no_kids: "\<And>p. p \<notin> a_dirs A \<Longrightarrow> a_kids A p = []"
    and fi_ckp: "set (a_ckp A) \<subseteq> a_live A - D"
    and fi_det: "D \<subseteq> a_live A"
  using assms by (auto simp: fi_tree_def)

lemma fi_treeI:
  assumes "a_dirs A \<subseteq> a_live A" "\<And>p. p \<in> a_live A \<Longrightarrow> i_is_directory (fs_fin (fi_obj s p)) \<longleftrightarrow> p \<in> a_dirs A"
    "qfam (fi_links s) (fi_fam A D)"
    "\<And>p c. p \<in> a_dirs A \<Longrightarrow> c \<in> set (a_kids A p) \<Longrightarrow> c \<in> a_live A - D \<and> parent_key_of (okey s c) = Some (okey s p)"
    "\<And>p. p \<notin> a_dirs A \<Longrightarrow> a_kids A p = []" "set (a_ckp A) \<subseteq> a_live A - D" "D \<subseteq> a_live A"
  shows "fi_tree D s A"
  unfolding fi_tree_def using assms by blast

lemma fi_coreD: "fi_core cap K D s A \<Longrightarrow> fi_table cap K s A" "fi_core cap K D s A \<Longrightarrow> fi_tree D s A"
  by (auto simp: fi_core_def)

lemma no_clash_mono: "no_clash klen ht k K \<Longrightarrow> K' \<subseteq> K \<Longrightarrow> no_clash klen ht k K'"
  by (auto simp: no_clash_def)

lemma get_store_table:
  assumes "fi_table cap K s A" "k \<in> K"
  shows "get_store_obj k s = Some (a_map A k)"
  unfolding get_store_obj_def
  by (rule lookup_exact[OF fi_ht[OF assms(1)]]) (rule no_clash_mono[OF fi_clash[OF assms] fi_dom[OF assms(1)]])

lemma fi_at: "fi_table cap K s A \<Longrightarrow> p \<in> a_live A \<Longrightarrow> pool_at p (fi_pool s) = Some (fi_obj s p)"
  by (rule pool_at_used[OF fi_pool_ok])

lemma fi_upd_live:
  "fi_table cap K s A \<Longrightarrow> p \<in> a_live A \<Longrightarrow>
     fi_upd p f s = Some (s\<lparr>fi_pool := (fi_pool s)\<lparr>mb_data := (mb_data (fi_pool s))(p := f (fi_obj s p))\<rparr>\<rparr>)"
  by (simp add: fi_upd_def pool_upd_used[OF fi_pool_ok])

lemma kids_distinct: "fi_tree D s A \<Longrightarrow> p \<in> a_dirs A \<Longrightarrow> distinct (a_kids A p)"
  using qfam_distinct[OF fi_qfam, of D s A "Children p"] by (auto simp: distinct_map)

lemma ckp_distinct: "fi_tree D s A \<Longrightarrow> distinct (a_ckp A)"
  using qfam_distinct[OF fi_qfam, of D s A CheckpointQ] by (auto simp: distinct_map)

lemma kids_unique:
  assumes "fi_tree D s A" "p \<in> a_dirs A" "q \<in> a_dirs A" "c \<in> set (a_kids A p)" "c \<in> set (a_kids A q)"
  shows "p = q"
  using qfam_unique[OF fi_qfam[OF assms(1)], of "Children p" _ "Children q" _ "Me c"] assms(2-) by auto

lemma kids_bound:
  assumes "fi_table cap K s A" "fi_tree D s A" "p \<in> a_dirs A"
  shows "length (a_kids A p) < 2 ^ 64"
proof -
  have "set (a_kids A p) \<subseteq> a_live A" using fi_kid[OF assms(2,3)] by auto
  moreover have "a_live A \<subseteq> {..<cap}" using fi_pool_ok[OF assms(1)] by (simp add: pool_state_def)
  ultimately have "card (set (a_kids A p)) \<le> card {..<cap}" by (intro card_mono) auto
  then show ?thesis using fi_cap[OF assms(1)] kids_distinct[OF assms(2,3)] by (simp add: distinct_card)
qed

lemma map_inj: "fi_table cap K s A \<Longrightarrow> a_map A k = Some p \<Longrightarrow> a_map A k' = Some p \<Longrightarrow> k = k'"
  by (rule ht_rep_inj[OF fi_ht])

lemma a_live_iff: "fi_table cap K s A \<Longrightarrow> p \<in> a_live A \<longleftrightarrow> a_map A (okey s p) = Some p"
  using fi_key[of cap K s A] by (auto simp: ran_def)

section \<open>Data of a record\<close>

text \<open>A change of a record that keeps its key and its kind.\<close>

lemma fi_upd_core:
  assumes core: "fi_core cap K D s A" and p: "p \<in> a_live A"
    and f: "i_key (fs_fin (f (fi_obj s p))) = okey s p"
      "i_is_directory (fs_fin (f (fi_obj s p))) = i_is_directory (fs_fin (fi_obj s p))"
    and s': "s' = s\<lparr>fi_pool := (fi_pool s)\<lparr>mb_data := (mb_data (fi_pool s))(p := f (fi_obj s p))\<rparr>\<rparr>"
  shows "fi_upd p f s = Some s' \<and> fi_core cap K D s' A"
proof -
  note tab = fi_coreD(1)[OF core] and tree = fi_coreD(2)[OF core]
  have same: "okey s' q = okey s q" "i_is_directory (fs_fin (fi_obj s' q)) = i_is_directory (fs_fin (fi_obj s q))" for q
    using f by (auto simp: s')
  have "fi_table cap K s' A"
    using tab unfolding fi_table_def same by (simp add: s' pool_state_data)
  moreover have "fi_tree D s' A"
    using tree unfolding fi_tree_def same by (simp add: s')
  ultimately show ?thesis using fi_upd_live[OF tab p] by (simp add: fi_core_def s')
qed

end
