(* ===== verification/Nn_File_Steps.thy ===== *)
theory Nn_File_Steps
  imports Nn_File_Rel
begin

text \<open>
  The memory steps the updates of the file index are made of, each with its effect on the lists:
  a new record, a child or a checkpoint entry linked, a record unlinked from both queues, an
  unlinked record freed.
\<close>

section \<open>A new record\<close>

definition a_new :: "bytes \<Rightarrow> nat \<Rightarrow> bool \<Rightarrow> fi_abs \<Rightarrow> fi_abs" where
  "a_new k p d A = A\<lparr>a_map := (a_map A)(k \<mapsto> p), a_dirs := (if d then insert p (a_dirs A) else a_dirs A),
     a_kids := (a_kids A)(p := [])\<rparr>"

definition new_links :: "nat \<Rightarrow> bool \<Rightarrow> fi_node qheap \<Rightarrow> fi_node qheap" where
  "new_links p d l =
     (let l = queue_init (Me p) (queue_init (Ckp p) (clear_links (Ckp p) (clear_links (Me p) (clear_links (Children p) l))))
      in if d then queue_init (Children p) l else l)"

lemma a_new_simps [simp]:
  "a_map (a_new k p d A) = (a_map A)(k \<mapsto> p)" "a_ckp (a_new k p d A) = a_ckp A"
  "a_kids (a_new k p d A) = (a_kids A)(p := [])"
  "a_dirs (a_new k p d A) = (if d then insert p (a_dirs A) else a_dirs A)"
  by (simp_all add: a_new_def)

lemma a_linked_new: "p \<notin> a_dirs A \<Longrightarrow> a_linked (a_new k p d A) = a_linked A"
  by (auto simp: a_linked_def split: if_splits)

lemma linked_live: "fi_tree D s A \<Longrightarrow> a_linked A \<subseteq> a_live A - D"
  using fi_kid[of D s A] by (auto simp: a_linked_def)

lemma new_links_fam:
  assumes tree: "fi_tree D s A" and k: "a_map A k = None" and p: "p \<notin> a_live A"
  shows "qfam (new_links p d (fi_links s)) (fi_fam (a_new k p d A) D)"
proof -
  have out: "p \<notin> a_dirs A" "p \<notin> a_linked A" "p \<notin> set (a_ckp A)" "p \<notin> D"
    using p fi_dirs_live[OF tree] linked_live[OF tree] fi_ckp[OF tree] fi_det[OF tree] by auto
  let ?l = "clear_links (Ckp p) (clear_links (Me p) (clear_links (Children p) (fi_links s)))"
  let ?F = "fi_fam A D"
  have "qfam ?l ?F" using out p by (intro qfam_clear fi_qfam[OF tree]) (auto simp: in_fi_fam)
  then have 1: "qfam (queue_init (Ckp p) ?l) (?F(Ckp p \<mapsto> []))"
    by (rule qfam_init) (use out p in \<open>auto simp: in_fi_fam\<close>)
  then have 2: "qfam (queue_init (Me p) (queue_init (Ckp p) ?l)) (?F(Ckp p \<mapsto> [], Me p \<mapsto> []))"
    by (rule qfam_init) (use out p in \<open>auto simp: in_fi_fam dest!: in_queue_new\<close>)
  then have 3: "qfam (queue_init (Children p) (queue_init (Me p) (queue_init (Ckp p) ?l)))
      (?F(Ckp p \<mapsto> [], Me p \<mapsto> [], Children p \<mapsto> []))"
    by (rule qfam_init) (use out p in \<open>auto simp: in_fi_fam dest!: in_queue_new\<close>)
  have ran': "ran ((a_map A)(k \<mapsto> p)) = insert p (a_live A)" using k by simp
  have "fi_fam (a_new k p d A) D = (if d then ?F(Ckp p \<mapsto> [], Me p \<mapsto> [], Children p \<mapsto> []) else ?F(Ckp p \<mapsto> [], Me p \<mapsto> []))"
    using out p by (auto simp: fun_eq_iff fi_fam_def ran' a_linked_new split: fi_node.splits)
  then show ?thesis using 2 3 by (simp add: new_links_def Let_def)
qed

lemma fi_new_core:
  assumes core: "fi_core cap K D s A" and k: "k \<in> K" "a_map A k = None" and room: "card (a_live A) < cap"
  obtains p m ht where
    "fi_get0 s = Some (Some p, s\<lparr>fi_pool := m, fi_links :=
       clear_links (Ckp p) (clear_links (Me p) (clear_links (Children p) (fi_links s)))\<rparr>)"
    "p \<notin> a_live A" "mb_data m = (mb_data (fi_pool s))(p := fi_store0)"
    "\<And>f. pool_upd p f m = Some (m\<lparr>mb_data := (mb_data m)(p := f fi_store0)\<rparr>)"
    "dfs_hashtable_join p (link_make p k (length k) (fi_htable s)) = Some ht"
    "\<And>obj d s'. i_key (fs_fin obj) = k \<Longrightarrow> i_is_directory (fs_fin obj) = d \<Longrightarrow>
       s' = s\<lparr>fi_pool := m\<lparr>mb_data := (mb_data m)(p := obj)\<rparr>, fi_links := new_links p d (fi_links s), fi_htable := ht\<rparr> \<Longrightarrow>
       fi_core cap K D s' (a_new k p d A)"
proof -
  note tab = fi_coreD(1)[OF core] and tree = fi_coreD(2)[OF core]
  from mem_get0_ok[OF fi_pool_ok[OF tab] room, of fi_store0] obtain p m where
    p: "mem_get0 fi_store0 (fi_pool s) = Some (Some p, m)" "p \<notin> a_live A"
      "mb_data m = (mb_data (fi_pool s))(p := fi_store0)" "pool_state cap m (insert p (a_live A))" by blast
  from join_new_rep[OF fi_ht[OF tab] p(2) k(2)] obtain ht where
    ht: "dfs_hashtable_join p (link_make p k (length k) (fi_htable s)) = Some ht"
      "ht_rep length ht ((a_map A)(k \<mapsto> p))" "ht_same (fi_htable s) ht" by blast
  have upd: "pool_upd p f m = Some (m\<lparr>mb_data := (mb_data m)(p := f fi_store0)\<rparr>)" for f
    using pool_upd_used[OF p(4), of p f] by (simp add: p(3))
  have ran': "ran ((a_map A)(k \<mapsto> p)) = insert p (a_live A)" using k(2) by simp
  have core': "fi_core cap K D s' (a_new k p d A)"
    if obj: "i_key (fs_fin obj) = k" "i_is_directory (fs_fin obj) = d"
      and s': "s' = s\<lparr>fi_pool := m\<lparr>mb_data := (mb_data m)(p := obj)\<rparr>, fi_links := new_links p d (fi_links s), fi_htable := ht\<rparr>"
    for obj d s'
  proof -
    have dat: "fi_obj s' q = (if q = p then obj else fi_obj s q)" for q by (simp add: s' p(3))
    have out: "p \<notin> a_dirs A" "p \<notin> D" "p \<notin> a_linked A"
      using p(2) fi_dirs_live[OF tree] fi_det[OF tree] linked_live[OF tree] by auto
    have "okey s' q = k'" if "((a_map A)(k \<mapsto> p)) k' = Some q" for k' q
      using that fi_key[OF tab, of k' q] p(2) obj(1) by (auto simp: dat ran_def split: if_splits)
    then have "fi_table cap K s' (a_new k p d A)"
      using tab ht(2,3) p(4) k(1)
      by (simp add: fi_table_def ran' s' pool_state_data ht_same_no_clash[OF ht(3)])
    moreover have "fi_tree D s' (a_new k p d A)"
    proof -
      have "i_is_directory (fs_fin (fi_obj s' q)) \<longleftrightarrow> q \<in> a_dirs (a_new k p d A)" if "q \<in> insert p (a_live A)" for q
        using that fi_is_dir[OF tree, of q] obj(2) out by (auto simp: dat)
      moreover have "c \<in> insert p (a_live A) - D \<and> parent_key_of (okey s' c) = Some (okey s' q)"
        if "q \<in> a_dirs (a_new k p d A)" "c \<in> set (a_kids (a_new k p d A) q)" for q c
      proof -
        have "q \<noteq> p" "q \<in> a_dirs A" "c \<in> set (a_kids A q)" using that by (auto split: if_splits)
        moreover from this have "c \<noteq> p" using out(3) by (auto simp: a_linked_def)
        ultimately show ?thesis using fi_kid[OF tree, of q c] by (simp add: dat)
      qed
      moreover have "qfam (fi_links s') (fi_fam (a_new k p d A) D)"
        using new_links_fam[OF tree k(2) p(2)] by (simp add: s')
      ultimately show ?thesis
        using fi_dirs_live[OF tree] fi_ckp[OF tree] fi_det[OF tree] fi_no_kids[OF tree] unfolding fi_tree_def a_new_simps ran' by auto
    qed
    ultimately show ?thesis by (simp add: fi_core_def)
  qed
  have "fi_get0 s = Some (Some p, s\<lparr>fi_pool := m, fi_links :=
       clear_links (Ckp p) (clear_links (Me p) (clear_links (Children p) (fi_links s)))\<rparr>)"
    using p(1) by (simp add: fi_get0_def)
  then show ?thesis using p(2,3) upd ht(1) core' by (rule that)
qed

section \<open>Linking\<close>

lemma fi_fam_kids:
  assumes "p \<in> a_dirs A" "c \<in> a_live A - D - a_linked A"
  shows "fi_fam (A\<lparr>a_kids := (a_kids A)(p := a_kids A p @ [c])\<rparr>) D =
    (fi_fam A D)(Me c := None, Children p \<mapsto> map Me (a_kids A p) @ [Me c])"
proof -
  have "a_linked (A\<lparr>a_kids := (a_kids A)(p := a_kids A p @ [c])\<rparr>) = insert c (a_linked A)"
    using assms(1) by (auto simp: a_linked_def split: if_splits)
  then show ?thesis using assms by (auto simp: fun_eq_iff fi_fam_def split: fi_node.splits)
qed

lemma link_child_core:
  assumes core: "fi_core cap K D s A" and p: "p \<in> a_dirs A" and c: "c \<in> a_live A - D - a_linked A"
    and pk: "parent_key_of (okey s c) = Some (okey s p)"
  shows "\<exists>links. queue_insert_tail (Children p) (Me c) (fi_links s) = Some links \<and>
    fi_core cap K D (s\<lparr>fi_links := links\<rparr>) (A\<lparr>a_kids := (a_kids A)(p := a_kids A p @ [c])\<rparr>)"
proof -
  note tab = fi_coreD(1)[OF core] and tree = fi_coreD(2)[OF core]
  let ?A = "A\<lparr>a_kids := (a_kids A)(p := a_kids A p @ [c])\<rparr>"
  have h: "fi_fam A D (Children p) = Some (map Me (a_kids A p))" using p by simp
  have "\<not> in_queue (fi_fam A D) (Me c)" using c by (simp add: in_fi_fam)
  with qfam_insert_tail[OF fi_qfam[OF tree] h, of "Me c"] c obtain links where
    links: "queue_insert_tail (Children p) (Me c) (fi_links s) = Some links"
      "qfam links ((fi_fam A D)(Me c := None, Children p \<mapsto> map Me (a_kids A p) @ [Me c]))" by auto
  then have "qfam links (fi_fam ?A D)" by (simp add: fi_fam_kids[OF p c])
  moreover have "d \<in> a_live A - D \<and> parent_key_of (okey s d) = Some (okey s q)"
    if "q \<in> a_dirs A" "d \<in> set (((a_kids A)(p := a_kids A p @ [c])) q)" for q d
    using that fi_kid[OF tree, of q d] c pk by (auto split: if_splits)
  ultimately have "fi_tree D (s\<lparr>fi_links := links\<rparr>) ?A"
    using tree p by (auto simp: fi_tree_def)
  moreover have "fi_table cap K (s\<lparr>fi_links := links\<rparr>) ?A" using tab by (simp add: fi_table_def)
  ultimately show ?thesis using links(1) by (auto simp: fi_core_def)
qed

lemma link_ckp_core:
  assumes core: "fi_core cap K D s A" and c: "c \<in> a_live A - D - set (a_ckp A)"
  shows "\<exists>links. queue_insert_tail CheckpointQ (Ckp c) (fi_links s) = Some links \<and>
    fi_core cap K D (s\<lparr>fi_links := links\<rparr>) (A\<lparr>a_ckp := a_ckp A @ [c]\<rparr>)"
proof -
  note tab = fi_coreD(1)[OF core] and tree = fi_coreD(2)[OF core]
  let ?A = "A\<lparr>a_ckp := a_ckp A @ [c]\<rparr>"
  have "\<not> in_queue (fi_fam A D) (Ckp c)" using c by (simp add: in_fi_fam)
  with qfam_insert_tail[OF fi_qfam[OF tree], of CheckpointQ "map Ckp (a_ckp A)" "Ckp c"] c obtain links where
    links: "queue_insert_tail CheckpointQ (Ckp c) (fi_links s) = Some links"
      "qfam links ((fi_fam A D)(Ckp c := None, CheckpointQ \<mapsto> map Ckp (a_ckp A) @ [Ckp c]))" by auto
  have lk: "a_linked ?A = a_linked A" by (simp add: a_linked_def)
  then have "(fi_fam A D)(Ckp c := None, CheckpointQ \<mapsto> map Ckp (a_ckp A) @ [Ckp c]) = fi_fam ?A D"
    by (auto simp: fun_eq_iff fi_fam_def split: fi_node.splits)
  with links(2) have "fi_tree D (s\<lparr>fi_links := links\<rparr>) ?A"
    using tree c by (simp add: fi_tree_def)
  moreover have "fi_table cap K (s\<lparr>fi_links := links\<rparr>) ?A" using tab by (simp add: fi_table_def)
  ultimately show ?thesis using links(1) by (auto simp: fi_core_def)
qed

section \<open>Removing\<close>

lemma map_remove1_inj: "inj f \<Longrightarrow> map f (remove1 x xs) = remove1 (f x) (map f xs)"
  by (induction xs) (auto simp: inj_eq)

definition a_detach :: "nat \<Rightarrow> nat \<Rightarrow> fi_abs \<Rightarrow> fi_abs" where
  "a_detach q c A = A\<lparr>a_kids := (a_kids A)(q := remove1 c (a_kids A q)), a_ckp := remove1 c (a_ckp A)\<rparr>"

lemma detach_core:
  assumes core: "fi_core cap K D s A" and q: "q \<in> a_dirs A" "c \<in> set (a_kids A q)" and c: "c \<in> set (a_ckp A)"
  shows "\<exists>l1 l2. queue_remove (Me c) (fi_links s) = Some l1 \<and> queue_remove (Ckp c) l1 = Some l2 \<and>
    fi_core cap K (insert c D) (s\<lparr>fi_links := l2\<rparr>) (a_detach q c A)"
proof -
  note tab = fi_coreD(1)[OF core] and tree = fi_coreD(2)[OF core]
  from qfam_remove[OF fi_qfam[OF tree], of "Children q" "map Me (a_kids A q)" "Me c"] q obtain l1 where
    l1: "queue_remove (Me c) (fi_links s) = Some l1"
      "qfam l1 ((fi_fam A D)(Children q \<mapsto> remove1 (Me c) (map Me (a_kids A q))))" by auto
  from qfam_remove[OF l1(2), of CheckpointQ "map Ckp (a_ckp A)" "Ckp c"] c obtain l2 where
    l2: "queue_remove (Ckp c) l1 = Some l2" "qfam l2 ((fi_fam A D)(Children q \<mapsto> remove1 (Me c) (map Me (a_kids A q)),
      CheckpointQ \<mapsto> remove1 (Ckp c) (map Ckp (a_ckp A))))" by auto
  have kd: "distinct (a_kids A q)" "distinct (a_ckp A)" using kids_distinct[OF tree q(1)] ckp_distinct[OF tree] .
  have only: "c \<notin> set (a_kids A r)" if "r \<in> a_dirs A" "r \<noteq> q" for r
    using kids_unique[OF tree q(1) that(1) q(2)] that(2) by auto
  have lk: "a_linked (a_detach q c A) = a_linked A - {c}"
    using kd(1) only by (auto simp: a_linked_def a_detach_def split: if_splits)
  have "fi_fam (a_detach q c A) (insert c D) = (fi_fam A D)(Children q \<mapsto> remove1 (Me c) (map Me (a_kids A q)),
      CheckpointQ \<mapsto> remove1 (Ckp c) (map Ckp (a_ckp A)))"
    using q c kd lk
    by (auto simp: fun_eq_iff fi_fam_def a_detach_def map_remove1_inj inj_def a_linked_def split: fi_node.splits)
  with l2(2) have fam: "qfam l2 (fi_fam (a_detach q c A) (insert c D))" by simp
  have kid: "d \<in> a_live A - insert c D \<and> parent_key_of (okey s d) = Some (okey s r)"
    if "r \<in> a_dirs A" "d \<in> set (((a_kids A)(q := remove1 c (a_kids A q))) r)" for r d
    using that fi_kid[OF tree, of r d] only[of r] kd by (auto split: if_splits)
  have nk: "((a_kids A)(q := remove1 c (a_kids A q))) r = []" if "r \<notin> a_dirs A" for r
    using that q(1) fi_no_kids[OF tree, of r] by auto
  have "set (remove1 c (a_ckp A)) \<subseteq> a_live A - insert c D" "insert c D \<subseteq> a_live A"
    using fi_ckp[OF tree] kd(2) fi_kid[OF tree q] fi_det[OF tree] by auto
  then have "fi_tree (insert c D) (s\<lparr>fi_links := l2\<rparr>) (a_detach q c A)"
    using fi_dirs_live[OF tree] fi_is_dir[OF tree] fam kid nk
    by (intro fi_treeI) (simp_all add: a_detach_def)
  moreover have "fi_table cap K (s\<lparr>fi_links := l2\<rparr>) (a_detach q c A)" using tab by (simp add: fi_table_def a_detach_def)
  ultimately show ?thesis using l1(1) l2(1) by (auto simp: fi_core_def)
qed

definition a_free :: "bytes \<Rightarrow> nat \<Rightarrow> fi_abs \<Rightarrow> fi_abs" where
  "a_free k c A = A\<lparr>a_map := (a_map A)(k := None), a_dirs := a_dirs A - {c}\<rparr>"

lemma free_core:
  assumes core: "fi_core cap K D s A" and c: "c \<in> D" "a_map A k = Some c" and e: "a_kids A c = []"
  shows "\<exists>ht pool. dfs_hashtable_remove_link c (fi_htable s) = Some (DFS_HASHTABLE_OK, ht) \<and>
    mem_put c (fi_pool s) = Some pool \<and> mb_data pool = mb_data (fi_pool s) \<and>
    fi_core cap K (D - {c}) (s\<lparr>fi_htable := ht, fi_pool := pool\<rparr>) (a_free k c A)"
proof -
  note tab = fi_coreD(1)[OF core] and tree = fi_coreD(2)[OF core]
  have live: "c \<in> a_live A" using c(2) by (auto simp: ran_def)
  note ran' = ran_delete[of "a_map A", OF c(2) map_inj[OF tab _ c(2)]]
  from remove_rep[OF fi_ht[OF tab] c(2)] obtain ht where
    ht: "dfs_hashtable_remove_link c (fi_htable s) = Some (DFS_HASHTABLE_OK, ht)"
      "ht_rep length ht ((a_map A)(k := None))" "ht_same (fi_htable s) ht" by blast
  from mem_put_ok[OF fi_pool_ok[OF tab] live] obtain pool where
    pool: "mem_put c (fi_pool s) = Some pool" "mb_data pool = mb_data (fi_pool s)" "pool_state cap pool (a_live A - {c})" by blast
  let ?s = "s\<lparr>fi_htable := ht, fi_pool := pool\<rparr>" and ?A = "a_free k c A"
  have lk: "a_linked ?A = a_linked A" using e by (auto simp: a_linked_def a_free_def)
  have "fi_fam ?A (D - {c}) = (fi_fam A D)(Children c := None)"
    using c(1) lk by (auto simp: fun_eq_iff fi_fam_def a_free_def ran' a_linked_def split: fi_node.splits)
  then have "qfam (fi_links s) (fi_fam ?A (D - {c}))" using qfam_forget[OF fi_qfam[OF tree]] by simp
  moreover have "d \<in> a_live A - {c} - (D - {c}) \<and> parent_key_of (okey s d) = Some (okey s r)"
    if "r \<in> a_dirs A" "d \<in> set (a_kids A r)" for r d
    using fi_kid[OF tree that] c(1) by blast
  moreover have "set (a_ckp A) \<subseteq> a_live A - {c} - (D - {c})" "D - {c} \<subseteq> a_live A - {c}" "a_dirs A - {c} \<subseteq> a_live A - {c}"
    using fi_ckp[OF tree] c(1) fi_det[OF tree] fi_dirs_live[OF tree] by auto
  ultimately have "fi_tree (D - {c}) ?s ?A"
    using fi_is_dir[OF tree] fi_no_kids[OF tree] e pool(2)
    by (intro fi_treeI) (auto simp: a_free_def ran')
  moreover have "fi_table cap K ?s ?A"
    using tab ht(2,3) pool(2,3) by (auto simp: fi_table_def a_free_def ran' ht_same_no_clash[OF ht(3)])
  ultimately show ?thesis using ht(1) pool(1,2) by (auto simp: fi_core_def)
qed

end
