(* ===== verification/Nn_File_Clear.thy ===== *)
theory Nn_File_Clear
  imports Nn_File_Steps
begin

text \<open>
  The removal of a directory's contents. The file index relies on the block index through one
  operation, the deletion of a block: the interface \<open>block_deleter\<close>. With it the recursion
  \<open>clear_children\<close> is shown to return, to remove exactly the descendants of the directory, to count
  them, and to delete exactly their blocks.
\<close>

section \<open>What the file index needs of the block index\<close>

locale block_deleter =
  fixes del :: "u64 \<Rightarrow> 'b \<Rightarrow> (int \<times> 'b) option"
    and inv :: "'b \<Rightarrow> bool"
    and known :: "'b \<Rightarrow> u64 \<Rightarrow> bool"
  assumes del_returns: "inv s \<Longrightarrow> \<exists>s'. del b s = Some (DFS_OK, s') \<and> inv s' \<and> (\<forall>x. known s' x \<longleftrightarrow> known s x \<and> x \<noteq> b)"
begin

lemma del_loop_ok:
  "inv s \<Longrightarrow> \<exists>s'. del_blks_loop del bs s = Some s' \<and> inv s' \<and> (\<forall>x. known s' x \<longleftrightarrow> known s x \<and> (x = 0 \<or> x \<notin> set bs))"
proof (induction bs arbitrary: s)
  case (Cons b bs)
  show ?case
  proof (cases "b = 0")
    case True
    with Cons.IH[OF Cons.prems] show ?thesis by (auto simp: word_gt_0)
  next
    case False
    from del_returns[OF Cons.prems, of b] obtain s1 where
      s1: "del b s = Some (DFS_OK, s1)" "inv s1" "\<forall>x. known s1 x \<longleftrightarrow> known s x \<and> x \<noteq> b" by blast
    from Cons.IH[OF s1(2)] obtain s2 where
      "del_blks_loop del bs s1 = Some s2" "inv s2" "\<forall>x. known s2 x \<longleftrightarrow> known s1 x \<and> (x = 0 \<or> x \<notin> set bs)" by blast
    with s1 False show ?thesis by (auto simp: word_gt_0)
  qed
qed simp

end

definition bd_ok :: "bytes set \<Rightarrow> bd_index \<Rightarrow> bool" where
  "bd_ok ids s \<longleftrightarrow> cluster ids \<and> (\<exists>cap dcap A. bd_inv ids cap dcap s A)"

definition blk_known :: "bd_index \<Rightarrow> u64 \<Rightarrow> bool" where
  "blk_known s b \<longleftrightarrow> get_blk_store_obj b s \<noteq> Some None"

interpretation bdel: block_deleter block_object_del "bd_ok ids" blk_known for ids
proof
  fix s b
  assume "bd_ok ids s"
  then obtain cap dcap A where A: "cluster ids" "bd_inv ids cap dcap s A" by (auto simp: bd_ok_def)
  from bd_delete_inv[OF A, of b] obtain s' A' where
    d: "block_object_del b s = Some (DFS_OK, s')" "bd_inv ids cap dcap s' A'" "ab_blk A' = (ab_blk A)(b := None)" by blast
  have "get_blk_store_obj x s = Some (ab_blk A x)" "get_blk_store_obj x s' = Some (ab_blk A' x)" for x
    using A(2) d(2) by (auto simp: bd_inv_def intro!: get_blk_table bd_blk)
  then have "blk_known s' x \<longleftrightarrow> blk_known s x \<and> x \<noteq> b" for x by (simp add: blk_known_def d(3))
  then show "\<exists>s'. block_object_del b s = Some (DFS_OK, s') \<and> bd_ok ids s' \<and> (\<forall>x. blk_known s' x \<longleftrightarrow> blk_known s x \<and> x \<noteq> b)"
    using d A(1) by (auto simp: bd_ok_def)
qed

section \<open>Removed sets\<close>

definition a_prune :: "nat set \<Rightarrow> fi_abs \<Rightarrow> fi_abs" where
  "a_prune X A = A\<lparr>a_map := (\<lambda>k. case a_map A k of Some p \<Rightarrow> if p \<in> X then None else Some p | None \<Rightarrow> None),
     a_dirs := a_dirs A - X, a_kids := (\<lambda>q. filter (\<lambda>c. c \<notin> X) (a_kids A q)),
     a_ckp := filter (\<lambda>c. c \<notin> X) (a_ckp A)\<rparr>"

lemma a_prune_simps [simp]:
  "a_map (a_prune X A) k = (case a_map A k of Some p \<Rightarrow> if p \<in> X then None else Some p | None \<Rightarrow> None)"
  "a_dirs (a_prune X A) = a_dirs A - X" "a_kids (a_prune X A) q = filter (\<lambda>c. c \<notin> X) (a_kids A q)"
  "a_ckp (a_prune X A) = filter (\<lambda>c. c \<notin> X) (a_ckp A)"
  by (simp_all add: a_prune_def)

lemma a_prune_empty [simp]: "a_prune {} A = A"
  by (cases A) (simp add: a_prune_def fun_eq_iff split: option.split)

lemma a_prune_prune: "a_prune X (a_prune Y A) = a_prune (X \<union> Y) A"
  by (rule fi_abs.equality) (auto simp: a_prune_def fun_eq_iff conj_commute split: option.split)

lemma a_live_prune: "a_live (a_prune X A) = a_live A - X"
  by (auto simp: ran_def split: option.splits if_splits)

lemma filter_remove1_insert:
  "distinct xs \<Longrightarrow> filter (\<lambda>d. d \<notin> X) (remove1 c xs) = filter (\<lambda>d. d \<notin> insert c X) xs"
  by (induction xs) (auto intro!: filter_cong)

lemma prune_step:
  assumes core: "fi_core cap K D s A" and q: "q \<in> a_dirs A" "c \<in> set (a_kids A q)" and k: "a_map A k = Some c"
  shows "a_free k c (a_prune X (a_detach q c A)) = a_prune (insert c X) A"
proof -
  note tab = fi_coreD(1)[OF core] and tree = fi_coreD(2)[OF core]
  have only: "c \<notin> set (a_kids A r)" if "r \<noteq> q" for r
    using kids_unique[OF tree q(1) _ q(2), of r] fi_no_kids[OF tree, of r] that by fastforce
  have kids: "filter (\<lambda>d. d \<notin> X) (((a_kids A)(q := remove1 c (a_kids A q))) r) = filter (\<lambda>d. d \<notin> insert c X) (a_kids A r)" for r
  proof (cases "r = q")
    case True
    then show ?thesis using filter_remove1_insert[OF kids_distinct[OF tree q(1)]] by simp
  next
    case False
    then show ?thesis using only[OF False] by (auto intro: filter_cong)
  qed
  have ckp: "filter (\<lambda>d. d \<notin> X) (remove1 c (a_ckp A)) = filter (\<lambda>d. d \<notin> insert c X) (a_ckp A)"
    by (rule filter_remove1_insert[OF ckp_distinct[OF tree]])
  have map: "((\<lambda>k. case a_map A k of Some p \<Rightarrow> if p \<in> X then None else Some p | None \<Rightarrow> None)(k := None)) k' =
      (case a_map A k' of Some p \<Rightarrow> if p \<in> insert c X then None else Some p | None \<Rightarrow> None)" for k'
  proof (cases "k' = k")
    case False
    then have "a_map A k' \<noteq> Some c" using map_inj[OF tab k, of k'] by blast
    with False show ?thesis by (auto split: option.splits)
  qed (simp add: k)
  have "a_dirs A - X - {c} = a_dirs A - insert c X" by auto
  then show ?thesis
    using kids ckp map by (intro fi_abs.equality) (simp_all add: a_free_def a_prune_def a_detach_def fun_eq_iff)
qed

section \<open>Descendants\<close>

definition a_edges :: "fi_abs \<Rightarrow> (nat \<times> nat) set" where
  "a_edges A = {(p, c). p \<in> a_dirs A \<and> c \<in> set (a_kids A p)}"

definition a_desc :: "fi_abs \<Rightarrow> nat \<Rightarrow> nat set" where
  "a_desc A p = {x. (p, x) \<in> (a_edges A)\<^sup>+}"

text \<open>A child's path is longer than the path of its directory.\<close>

definition rank :: "fi_index \<Rightarrow> nat \<Rightarrow> nat" where
  "rank s p = length (get_store_path (okey s p))"

lemma takeWhile_cstring: "cstring p \<Longrightarrow> takeWhile (\<lambda>b. b \<noteq> 0) p = p"
  by (auto simp: takeWhile_eq_all_conv cstring_def)

lemma get_store_path_encode: "cstring p \<Longrightarrow> get_store_path (base64_encode p) = p"
  by (simp add: get_store_path_def takeWhile_cstring)

lemma cstring_get_store_path [simp]: "cstring (get_store_path k)"
  using set_takeWhileD[of 0 "\<lambda>b. b \<noteq> 0"] by (auto simp: cstring_def get_store_path_def)

lemma is_root_iff: "cstring path \<Longrightarrow> is_root path \<longleftrightarrow> path = [] \<or> path = [slash]"
  by (auto simp: is_root_def strncmp_prefix_right slash_def prefix_Cons)

lemma parent_key_shorter:
  assumes "parent_key_of k = Some pk"
  shows "length (get_store_path pk) < length (get_store_path k)"
proof -
  let ?path = "get_store_path k"
  let ?back1 = "takeWhile (\<lambda>c. c \<noteq> slash) (rev ?path)"
  let ?i = "length ?path - length ?back1 - 1"
  have nr: "?path \<noteq> []" "?path \<noteq> [slash]" and gp: "get_parent_key ?path = Some pk"
    using assms by (auto simp: parent_key_of_def is_root_iff split: if_splits)
  then have enc: "length ?back1 \<noteq> length ?path" "pk = base64_encode (if ?i = 0 then [slash] else take ?i ?path)"
    by (auto simp: get_parent_key_def key_encode_def c_strcpy_def Let_def split: if_splits)
  have "cstring (if ?i = 0 then [slash] else take ?i ?path)" by (simp add: slash_def)
  then have sp: "get_store_path pk = (if ?i = 0 then [slash] else take ?i ?path)"
    by (simp only: enc(2) get_store_path_encode)
  show ?thesis
  proof (cases "?i = 0")
    case True
    have "length ?path \<noteq> 1"
    proof
      assume "length ?path = 1"
      then obtain c where c: "?path = [c]" by (auto simp: length_Suc_conv)
      with enc(1) have "c = slash" by (auto split: if_splits)
      with c nr(2) show False by simp
    qed
    then show ?thesis using nr(1) True sp by (cases ?path) (auto simp: neq_Nil_conv)
  next
    case False
    then show ?thesis using sp nr(1) by simp
  qed
qed

lemma edge_rank: "fi_tree D s A \<Longrightarrow> (p, c) \<in> a_edges A \<Longrightarrow> rank s p < rank s c"
  using fi_kid[of D s A p c] by (auto simp: a_edges_def rank_def dest: parent_key_shorter)

lemma desc_rank:
  assumes "fi_tree D s A" "x \<in> a_desc A p"
  shows "rank s p < rank s x"
proof -
  have "(p, x) \<in> (a_edges A)\<^sup>+" using assms(2) by (simp add: a_desc_def)
  then show ?thesis
    by (induction rule: trancl_induct) (auto dest: edge_rank[OF assms(1)])
qed

text \<open>A child of a directory is no descendant of another child.\<close>

lemma kid_not_desc:
  assumes tree: "fi_tree D s A" and p: "p \<in> a_dirs A" "c \<in> set (a_kids A p)" "c' \<in> set (a_kids A p)"
  shows "c' \<notin> a_desc A c"
proof
  assume "c' \<in> a_desc A c"
  then have "(c, c') \<in> (a_edges A)\<^sup>+" by (simp add: a_desc_def)
  then obtain y where y: "(c, y) \<in> (a_edges A)\<^sup>*" "(y, c') \<in> a_edges A" by (meson tranclD2)
  then have "y = p" using kids_unique[OF tree _ p(1) _ p(3)] by (auto simp: a_edges_def)
  moreover have "rank s p < rank s c" using edge_rank[OF tree] p by (auto simp: a_edges_def)
  moreover have "y = c \<or> rank s c < rank s y"
    using y(1) desc_rank[OF tree, of y c] by (auto simp: a_desc_def rtrancl_eq_or_trancl)
  ultimately show False by auto
qed

section \<open>The recursion\<close>

definition blks_of :: "fi_index \<Rightarrow> fi_abs \<Rightarrow> nat set \<Rightarrow> u64 set" where
  "blks_of s A X = (\<Union>x \<in> X - a_dirs A. set (i_blks (fs_fin (fi_obj s x)))) - {0}"

text \<open>Before: the directory \<open>p\<close>, whose counter may be stale, is to be cleared.\<close>

definition clr_pre :: "nat \<Rightarrow> bytes set \<Rightarrow> bytes set \<Rightarrow> nat set \<Rightarrow> nat set \<Rightarrow> nat \<Rightarrow> nn_state \<Rightarrow> fi_abs \<Rightarrow> bool" where
  "clr_pre cap K ids D N p s A \<longleftrightarrow>
     fi_core cap K D (nn_fi s) A \<and> fi_num N (nn_fi s) A \<and> fi_state D (nn_fi s) A \<and> bd_ok ids (nn_bd s) \<and>
     p \<in> a_dirs A \<and> p \<in> N \<and> (\<forall>n \<in> N. rank (nn_fi s) n \<le> rank (nn_fi s) p)"

text \<open>After: the set \<open>X\<close> is removed.\<close>

definition clr_post ::
  "nat \<Rightarrow> bytes set \<Rightarrow> bytes set \<Rightarrow> nat set \<Rightarrow> nat set \<Rightarrow> nn_state \<Rightarrow> fi_abs \<Rightarrow> nat set \<Rightarrow> nn_state \<Rightarrow> bool" where
  "clr_post cap K ids D N s A X s' \<longleftrightarrow>
     fi_core cap K D (nn_fi s') (a_prune X A) \<and> fi_num N (nn_fi s') (a_prune X A) \<and> fi_state D (nn_fi s') (a_prune X A) \<and>
     bd_ok ids (nn_bd s') \<and> mb_data (fi_pool (nn_fi s')) = mb_data (fi_pool (nn_fi s)) \<and>
     fs_object_num (nn_fi s') = fs_object_num (nn_fi s) \<and>
     X \<subseteq> a_live A - D \<and> (\<forall>x \<in> X. set (a_kids A x) \<subseteq> X) \<and>
     (\<forall>b. blk_known (nn_bd s') b \<longleftrightarrow> blk_known (nn_bd s) b \<and> b \<notin> blks_of (nn_fi s) A X)"

lemma detach_linked:
  assumes tree: "fi_tree D s A" and q: "q \<in> a_dirs A" "c \<in> set (a_kids A q)"
  shows "a_linked (a_detach q c A) = a_linked A - {c}"
  using kids_distinct[OF tree q(1)] kids_unique[OF tree q(1) _ q(2)] by (fastforce simp: a_linked_def a_detach_def split: if_splits)

lemma detach_num_state:
  assumes core: "fi_core cap K D s A" and q: "q \<in> a_dirs A" "c \<in> set (a_kids A q)" "q \<in> N"
    and num: "fi_num N s A" and st: "fi_state D s A"
  shows "fi_num N (s\<lparr>fi_links := l\<rparr>) (a_detach q c A)" "fi_state (insert c D) (s\<lparr>fi_links := l\<rparr>) (a_detach q c A)"
proof -
  note tree = fi_coreD(2)[OF core]
  show "fi_num N (s\<lparr>fi_links := l\<rparr>) (a_detach q c A)" using num q(3) by (auto simp: fi_num_def a_detach_def)
  have ck: "set (remove1 c (a_ckp A)) = set (a_ckp A) - {c}" using ckp_distinct[OF tree] by simp
  show "fi_state (insert c D) (s\<lparr>fi_links := l\<rparr>) (a_detach q c A)"
    using st unfolding fi_state_def detach_linked[OF tree q(1,2)] by (auto simp: a_detach_def ck)
qed

lemma free_num_state:
  assumes num: "fi_num (insert c N) s A" and st: "fi_state D s A" and k: "a_map A k = Some c"
    and inj: "\<And>k'. a_map A k' = Some c \<Longrightarrow> k' = k" and c: "c \<in> D" "a_kids A c = []"
    and s': "mb_data (fi_pool s') = mb_data (fi_pool s)"
  shows "fi_num N s' (a_free k c A)" "fi_state (D - {c}) s' (a_free k c A)"
proof -
  have ran': "ran ((a_map A)(k := None)) = a_live A - {c}" by (rule ran_delete[of "a_map A", OF k inj])
  have lk: "a_linked (a_free k c A) = a_linked A" using c(2) by (auto simp: a_linked_def a_free_def)
  show "fi_num N s' (a_free k c A)" using num by (auto simp: fi_num_def a_free_def s')
  have "a_live A - {c} - (D - {c}) = a_live A - D" "a_dirs A - {c} - (D - {c}) = a_dirs A - D" using c(1) by auto
  then show "fi_state (D - {c}) s' (a_free k c A)"
    using st unfolding fi_state_def lk by (simp add: a_free_def ran' s')
qed

lemma clr_pre_kid:
  assumes pre: "clr_pre cap K ids D N p s A" and c: "c \<in> set (a_kids A p)"
  shows "c \<in> a_live A" "c \<notin> D" "c \<in> set (a_ckp A)" "rank (nn_fi s) p < rank (nn_fi s) c" "c \<notin> N" "c \<noteq> p"
    "a_map A (okey (nn_fi s) c) = Some c"
proof -
  from pre have core: "fi_core cap K D (nn_fi s) A" and st: "fi_state D (nn_fi s) A" and p: "p \<in> a_dirs A"
    and N: "\<forall>n \<in> N. rank (nn_fi s) n \<le> rank (nn_fi s) p" by (auto simp: clr_pre_def)
  note tab = fi_coreD(1)[OF core] and tree = fi_coreD(2)[OF core]
  show live: "c \<in> a_live A" "c \<notin> D" using fi_kid[OF tree p c] by auto
  have "c \<in> a_linked A" using p c by (auto simp: a_linked_def)
  then show "c \<in> set (a_ckp A)" using st live fi_kid[OF tree p c] by (auto simp: fi_state_def)
  show rk: "rank (nn_fi s) p < rank (nn_fi s) c" using edge_rank[OF tree] p c by (auto simp: a_edges_def)
  then show "c \<notin> N" "c \<noteq> p" using N by auto
  show "a_map A (okey (nn_fi s) c) = Some c" using live(1) a_live_iff[OF tab] by blast
qed

lemma detach_desc: "a_desc (a_detach q c A) x \<subseteq> a_desc A x"
proof -
  have "a_edges (a_detach q c A) \<subseteq> a_edges A"
    by (auto simp: a_edges_def a_detach_def split: if_splits dest: set_remove1_subset[THEN subsetD])
  then show ?thesis by (auto simp: a_desc_def dest: trancl_mono)
qed

lemma prune_desc: "a_desc (a_prune X A) x \<subseteq> a_desc A x"
proof -
  have "a_edges (a_prune X A) \<subseteq> a_edges A" by (auto simp: a_edges_def)
  then show ?thesis by (auto simp: a_desc_def dest: trancl_mono)
qed

text \<open>The call for the children of \<open>p\<close>, and what it has to deliver.\<close>

definition clr_call :: "nat \<Rightarrow> bytes set \<Rightarrow> bytes set \<Rightarrow> nat set \<Rightarrow> nat set \<Rightarrow> nat \<Rightarrow> nn_state \<Rightarrow> fi_abs \<Rightarrow> bool" where
  "clr_call cap K ids D N p s A \<longleftrightarrow>
     (\<forall>fn dn. \<exists>X s'. clear_loop (hd (map Me (a_kids A p) @ [Children p])) (of_nat (length (a_kids A p))) fn dn s =
         Some (fn + dn + int (card X), s') \<and> clr_post cap K ids D N s A X s' \<and>
       set (a_kids A p) \<subseteq> X \<and> X \<subseteq> a_desc A p)"

lemma post_finite: "clr_pre cap K ids D N p s A \<Longrightarrow> finite (a_live A)"
  by (rule finite_subset[of _ "{..<cap}"]) (auto simp: clr_pre_def fi_core_def fi_table_def pool_state_def)

text \<open>The contents of one child: its own children, or its blocks.\<close>

lemma clear_contents:
  assumes pre: "clr_pre cap K ids D N p s A" and kids: "a_kids A p = c # cs"
    and l2: "fi_core cap K (insert c D) ((nn_fi s)\<lparr>fi_links := l2\<rparr>) (a_detach p c A)"
    and IH: "\<And>s' A' D' N' p'. card (a_live A' - D') < card (a_live A - D) \<Longrightarrow> clr_pre cap K ids D' N' p' s' A' \<Longrightarrow>
      clr_call cap K ids D' N' p' s' A'"
  defines "s1 \<equiv> s\<lparr>nn_fi := (nn_fi s)\<lparr>fi_links := l2\<rparr>\<rparr>" and "d \<equiv> fi_obj (nn_fi s) c"
  shows "\<exists>X fn' dn' s2. (if i_is_directory (fs_fin d)
       then do {
         sub \<leftarrow> q_next (fi_links (nn_fi s1)) (Children c);
         (n, s) \<leftarrow> clear_loop sub (fs_children_num d) 0 0 s1;
         Some (fn, dn + n + 1, s) }
       else do {
         bd \<leftarrow> del_blks_loop block_object_del (i_blks (fs_fin d)) (nn_bd s1);
         Some (fn + 1, dn, s1\<lparr>nn_bd := bd\<rparr>) }) = Some (fn', dn', s2) \<and>
     fn' + dn' = fn + dn + 1 + int (card X) \<and>
     fi_core cap K (insert c D) (nn_fi s2) (a_prune X (a_detach p c A)) \<and>
     fi_num (insert c N) (nn_fi s2) (a_prune X (a_detach p c A)) \<and>
     fi_state (insert c D) (nn_fi s2) (a_prune X (a_detach p c A)) \<and> bd_ok ids (nn_bd s2) \<and>
     mb_data (fi_pool (nn_fi s2)) = mb_data (fi_pool (nn_fi s)) \<and> fs_object_num (nn_fi s2) = fs_object_num (nn_fi s) \<and>
     X \<subseteq> a_live A - insert c D \<and> (\<forall>x \<in> X. set (a_kids A x) \<subseteq> X) \<and> X \<subseteq> a_desc A c \<and>
     set (a_kids A c) \<subseteq> X \<and>
     (\<forall>b. blk_known (nn_bd s2) b \<longleftrightarrow> blk_known (nn_bd s) b \<and> b \<notin> blks_of (nn_fi s) A (insert c X))"
proof -
  from pre have core: "fi_core cap K D (nn_fi s) A" and num: "fi_num N (nn_fi s) A" and st: "fi_state D (nn_fi s) A"
    and bd: "bd_ok ids (nn_bd s)" and p: "p \<in> a_dirs A" "p \<in> N"
    and N: "\<forall>n \<in> N. rank (nn_fi s) n \<le> rank (nn_fi s) p" by (auto simp: clr_pre_def)
  note tab = fi_coreD(1)[OF core] and tree = fi_coreD(2)[OF core] and tree1 = fi_coreD(2)[OF l2]
  have cp: "c \<in> set (a_kids A p)" by (simp add: kids)
  note c = clr_pre_kid[OF pre cp]
  have num1: "fi_num (insert c N) (nn_fi s1) (a_detach p c A)" and st1: "fi_state (insert c D) (nn_fi s1) (a_detach p c A)"
    using detach_num_state[OF core p(1) cp p(2) num st, of l2] by (auto simp: s1_def fi_num_def)
  have kc: "a_kids (a_detach p c A) x = a_kids A x" if "x \<noteq> p" for x using that by (simp add: a_detach_def)
  have sub: "a_kids (a_detach p c A) x = a_kids A x \<or> x = p" for x by (simp add: a_detach_def)
  show ?thesis
  proof (cases "c \<in> a_dirs A")
    case True
    have pre1: "clr_pre cap K ids (insert c D) (insert c N) c s1 (a_detach p c A)"
      using l2 num1 st1 bd True N c(4) unfolding clr_pre_def
      by (auto simp: s1_def a_detach_def rank_def)
    have "card (a_live A - insert c D) < card (a_live A - D)"
      using c(1,2) post_finite[OF pre] by (intro psubset_card_mono) auto
    then have "card (a_live (a_detach p c A) - insert c D) < card (a_live A - D)" by (simp add: a_detach_def)
    from IH[OF this pre1] obtain X s2 where
      X: "clear_loop (hd (map Me (a_kids A c) @ [Children c])) (of_nat (length (a_kids A c))) 0 0 s1 = Some (int (card X), s2)"
        "clr_post cap K ids (insert c D) (insert c N) s1 (a_detach p c A) X s2" "set (a_kids A c) \<subseteq> X"
        "X \<subseteq> a_desc (a_detach p c A) c"
      unfolding clr_call_def kc[OF c(6)] by (metis add_0)
    have nx: "q_next (fi_links (nn_fi s1)) (Children c) = Some (hd (map Me (a_kids A c) @ [Children c]))"
      using qfam_head[OF fi_qfam[OF tree1], of "Children c"] True kc[OF c(6)] by (simp add: s1_def a_detach_def)
    have cn: "fs_children_num d = of_nat (length (a_kids A c))"
      using num True c(5) by (simp add: fi_num_def d_def)
    have dir: "i_is_directory (fs_fin d)" using fi_is_dir[OF tree c(1)] True by (simp add: d_def)
    have desc: "X \<subseteq> a_desc A c" using X(4) detach_desc[of p c A c] by blast
    have "p \<notin> X" using desc desc_rank[OF tree, of p c] c(4) by fastforce
    then have cl: "\<forall>x \<in> X. set (a_kids A x) \<subseteq> X" using X(2) kc unfolding clr_post_def by metis
    have "blks_of (nn_fi s1) (a_detach p c A) X = blks_of (nn_fi s) A (insert c X)"
      using True by (auto simp: blks_of_def s1_def a_detach_def)
    then show ?thesis using X(1,2,3) nx cn dir desc cl
      by (intro exI[of _ X] exI[of _ fn] exI[of _ "dn + int (card X) + 1"] exI[of _ s2])
        (simp add: clr_post_def s1_def a_detach_def)
  next
    case False
    then have dir: "\<not> i_is_directory (fs_fin d)" using fi_is_dir[OF tree c(1)] by (simp add: d_def)
    from bdel.del_loop_ok[OF bd, of "i_blks (fs_fin d)"] obtain bd' where
      b: "del_blks_loop block_object_del (i_blks (fs_fin d)) (nn_bd s) = Some bd'" "bd_ok ids bd'"
        "\<forall>x. blk_known bd' x \<longleftrightarrow> blk_known (nn_bd s) x \<and> (x = 0 \<or> x \<notin> set (i_blks (fs_fin d)))" by blast
    have "blks_of (nn_fi s) A {c} = set (i_blks (fs_fin d)) - {0}"
      using False by (auto simp: blks_of_def d_def)
    then show ?thesis using dir b l2 num1 st1 fi_no_kids[OF tree False]
      by (intro exI[of _ "{}"] exI[of _ "fn + 1"] exI[of _ dn] exI[of _ "s1\<lparr>nn_bd := bd'\<rparr>"])
        (auto simp: s1_def)
  qed
qed

lemma u64_nonzero: "0 < n \<Longrightarrow> n < 2 ^ 64 \<Longrightarrow> (of_nat n :: u64) \<noteq> 0"
proof
  assume n: "0 < n" "n < 2 ^ 64" "(of_nat n :: u64) = 0"
  have "unat (of_nat n :: u64) = n" using n(2) by (simp add: unsigned_of_nat take_bit_nat_eq_self_iff)
  with n(1,3) show False by simp
qed

text \<open>One turn of the loop: the first child and everything below it.\<close>

lemma clear_turn:
  assumes pre: "clr_pre cap K ids D N p s A" and kids: "a_kids A p = c # cs"
    and IH: "\<And>s' A' D' N' p'. card (a_live A' - D') < card (a_live A - D) \<Longrightarrow> clr_pre cap K ids D' N' p' s' A' \<Longrightarrow>
      clr_call cap K ids D' N' p' s' A'"
  shows "\<exists>X fn' dn' s3. clear_loop (Me c) (of_nat (Suc (length cs))) fn dn s =
      clear_loop (hd (map Me cs @ [Children p])) (of_nat (length cs)) fn' dn' s3 \<and>
    fn' + dn' = fn + dn + int (card X) \<and> clr_post cap K ids D N s A X s3 \<and> c \<in> X \<and> X \<subseteq> a_desc A p \<and> X \<inter> set cs = {} \<and> p \<notin> X"
proof -
  from pre have core: "fi_core cap K D (nn_fi s) A" and p: "p \<in> a_dirs A" by (auto simp: clr_pre_def)
  note tab = fi_coreD(1)[OF core] and tree = fi_coreD(2)[OF core]
  have cp: "c \<in> set (a_kids A p)" by (simp add: kids)
  note c = clr_pre_kid[OF pre cp]
  from detach_core[OF core p cp c(3)] obtain l1 l2 where
    l: "queue_remove (Me c) (fi_links (nn_fi s)) = Some l1" "queue_remove (Ckp c) l1 = Some l2"
      "fi_core cap K (insert c D) ((nn_fi s)\<lparr>fi_links := l2\<rparr>) (a_detach p c A)" by blast
  let ?s1 = "s\<lparr>nn_fi := (nn_fi s)\<lparr>fi_links := l2\<rparr>\<rparr>"
  from clear_contents[OF pre kids l(3) IH, of fn dn] obtain X fn' dn' s2 where
    X: "(if i_is_directory (fs_fin (fi_obj (nn_fi s) c))
       then do {
         sub \<leftarrow> q_next (fi_links (nn_fi ?s1)) (Children c);
         (n, s) \<leftarrow> clear_loop sub (fs_children_num (fi_obj (nn_fi s) c)) 0 0 ?s1;
         Some (fn, dn + n + 1, s) }
       else do {
         bd \<leftarrow> del_blks_loop block_object_del (i_blks (fs_fin (fi_obj (nn_fi s) c))) (nn_bd ?s1);
         Some (fn + 1, dn, ?s1\<lparr>nn_bd := bd\<rparr>) }) = Some (fn', dn', s2)"
      "fn' + dn' = fn + dn + 1 + int (card X)"
      "fi_core cap K (insert c D) (nn_fi s2) (a_prune X (a_detach p c A))"
      "fi_num (insert c N) (nn_fi s2) (a_prune X (a_detach p c A))"
      "fi_state (insert c D) (nn_fi s2) (a_prune X (a_detach p c A))" "bd_ok ids (nn_bd s2)"
      "mb_data (fi_pool (nn_fi s2)) = mb_data (fi_pool (nn_fi s))" "fs_object_num (nn_fi s2) = fs_object_num (nn_fi s)"
      "X \<subseteq> a_live A - insert c D" "\<forall>x \<in> X. set (a_kids A x) \<subseteq> X" "X \<subseteq> a_desc A c" "set (a_kids A c) \<subseteq> X"
      "\<forall>b. blk_known (nn_bd s2) b \<longleftrightarrow> blk_known (nn_bd s) b \<and> b \<notin> blks_of (nn_fi s) A (insert c X)" by blast
  let ?k = "okey (nn_fi s) c" and ?A2 = "a_prune X (a_detach p c A)"
  have "c \<notin> X" using X(9) by auto
  then have k2: "a_map ?A2 ?k = Some c" using c(7) by (simp add: a_detach_def)
  have kc: "a_kids ?A2 c = []" using X(12) c(6) by (auto simp: a_detach_def filter_empty_conv)
  note inj2 = map_inj[OF fi_coreD(1)[OF X(3)] _ k2]
  from free_core[OF X(3) _ k2 kc] obtain ht pool where
    f: "dfs_hashtable_remove_link c (fi_htable (nn_fi s2)) = Some (DFS_HASHTABLE_OK, ht)"
      "mem_put c (fi_pool (nn_fi s2)) = Some pool" "mb_data pool = mb_data (fi_pool (nn_fi s2))"
      "fi_core cap K (insert c D - {c}) ((nn_fi s2)\<lparr>fi_htable := ht, fi_pool := pool\<rparr>) (a_free ?k c ?A2)" by blast
  let ?s3 = "s2\<lparr>nn_fi := (nn_fi s2)\<lparr>fi_htable := ht, fi_pool := pool\<rparr>\<rparr>" and ?X = "insert c X"
  have D: "insert c D - {c} = D" using c(2) by auto
  have A3: "a_free ?k c ?A2 = a_prune ?X A" by (rule prune_step[OF core p cp c(7)])
  have ns: "fi_num N (nn_fi ?s3) (a_prune ?X A)" "fi_state D (nn_fi ?s3) (a_prune ?X A)"
    using free_num_state[OF X(4,5) k2 inj2 _ kc, of "nn_fi ?s3"] f(3) by (simp_all add: D A3)
  have cl: "\<forall>x \<in> ?X. set (a_kids A x) \<subseteq> ?X" using X(10,12) by auto
  have post: "clr_post cap K ids D N s A ?X ?s3"
    using f(3,4) ns X(6-9,13) c(1,2) cl unfolding clr_post_def by (auto simp: D A3)
  have e1: "(p, c) \<in> a_edges A" using p cp by (simp add: a_edges_def)
  have "X \<subseteq> a_desc A p" using X(11) e1 by (auto simp: a_desc_def intro: trancl_into_trancl2)
  moreover have "c \<in> a_desc A p" using e1 by (auto simp: a_desc_def)
  moreover have "X \<inter> set cs = {}" using X(11) kid_not_desc[OF tree p cp] kids by auto
  moreover have "c \<notin> set cs" using kids_distinct[OF tree p] kids by simp
  moreover have "p \<notin> ?X" using desc_rank[OF tree, of p c] X(11) c(4,6) by fastforce
  moreover have "card ?X = Suc (card X)" using \<open>c \<notin> X\<close> X(9) post_finite[OF pre] by (simp add: finite_subset)
  moreover have "q_next (fi_links (nn_fi s)) (Me c) = Some (hd (map Me cs @ [Children p]))"
    using qfam_next[OF fi_qfam[OF tree], of "Children p" "[]" "Me c" "map Me cs"] p kids by simp
  then have "clear_loop (Me c) (of_nat (Suc (length cs))) fn dn s =
      clear_loop (hd (map Me cs @ [Children p])) (of_nat (length cs)) fn' dn' ?s3"
  proof -
    have "length (a_kids A p) < 2 ^ 64" by (rule kids_bound[OF tab tree p])
    then have "(of_nat (Suc (length cs)) :: u64) \<noteq> 0" using u64_nonzero[of "Suc (length cs)"] kids by simp
    moreover have "(of_nat (Suc (length cs)) :: u64) - 1 = of_nat (length cs)" by simp
    ultimately show ?thesis
      using \<open>q_next (fi_links (nn_fi s)) (Me c) = _\<close> l(1,2) X(1) f(1,2) fi_at[OF tab c(1)]
      by (subst clear_loop.simps) (simp del: of_nat_Suc)
  qed
  ultimately show ?thesis using post X(2)
    by (intro exI[of _ ?X] exI[of _ fn'] exI[of _ dn'] exI[of _ ?s3]) auto
qed

lemma clear_loop_ok: "clr_pre cap K ids D N p s A \<Longrightarrow> clr_call cap K ids D N p s A"
proof (induction "card (a_live A - D)" arbitrary: s A D N p rule: less_induct)
  case less
  note pre = less.prems
  show ?case
  proof (cases "a_kids A p")
    case Nil
    have "clr_post cap K ids D N s A {} s" using pre by (auto simp: clr_pre_def clr_post_def blks_of_def)
    then show ?thesis
      using Nil by (auto simp: clr_call_def clear_loop.simps intro!: exI[of _ "{}"])
  next
    case (Cons c cs)
    show ?thesis unfolding clr_call_def
    proof (intro allI)
      fix fn dn
      from clear_turn[OF pre Cons less.hyps, of fn dn] obtain X fn' dn' s3 where
        t: "clear_loop (Me c) (of_nat (Suc (length cs))) fn dn s = clear_loop (hd (map Me cs @ [Children p])) (of_nat (length cs)) fn' dn' s3"
          "fn' + dn' = fn + dn + int (card X)" "clr_post cap K ids D N s A X s3" "c \<in> X" "X \<subseteq> a_desc A p"
          "X \<inter> set cs = {}" "p \<notin> X" by blast
      let ?A = "a_prune X A"
      have kids: "a_kids ?A p = cs" using Cons t(4,6) by (auto intro!: filter_True)
      have fin: "finite (a_live A)" by (rule post_finite[OF pre])
      have XD: "X \<subseteq> a_live A - D" using t(3) by (simp add: clr_post_def)
      have "a_live ?A - D \<subset> a_live A - D" using XD t(4) by (auto simp: a_live_prune)
      then have lt: "card (a_live ?A - D) < card (a_live A - D)" using fin by (intro psubset_card_mono) auto
      have "clr_pre cap K ids D N p s3 ?A"
        using pre t(3,7) unfolding clr_pre_def clr_post_def by (auto simp: rank_def)
      from less.hyps[OF lt this] obtain Y s' where
        Y: "clear_loop (hd (map Me cs @ [Children p])) (of_nat (length cs)) fn' dn' s3 = Some (fn' + dn' + int (card Y), s')"
          "clr_post cap K ids D N s3 ?A Y s'" "set cs \<subseteq> Y" "Y \<subseteq> a_desc ?A p"
        unfolding clr_call_def kids by blast
      have YX: "Y \<subseteq> a_live A - X - D" using Y(2) by (auto simp: clr_post_def a_live_prune)
      have "card (Y \<union> X) = card Y + card X"
        using YX XD fin by (intro card_Un_disjoint) (auto intro: finite_subset)
      moreover have "\<forall>x \<in> Y \<union> X. set (a_kids A x) \<subseteq> Y \<union> X"
        using Y(2) t(3) unfolding clr_post_def by fastforce
      moreover have "blks_of (nn_fi s) A (Y \<union> X) = blks_of (nn_fi s3) ?A Y \<union> blks_of (nn_fi s) A X"
        using t(3) YX by (auto simp: blks_of_def clr_post_def)
      ultimately have "clr_post cap K ids D N s A (Y \<union> X) s'" "fn' + dn' + int (card Y) = fn + dn + int (card (Y \<union> X))"
        using Y(2) t(2,3) YX XD unfolding clr_post_def by (auto simp: a_prune_prune)
      moreover have "Y \<union> X \<subseteq> a_desc A p" using Y(4) t(5) prune_desc[of X A p] by auto
      ultimately show "\<exists>X s'. clear_loop (hd (map Me (a_kids A p) @ [Children p])) (of_nat (length (a_kids A p))) fn dn s =
          Some (fn + dn + int (card X), s') \<and> clr_post cap K ids D N s A X s' \<and> set (a_kids A p) \<subseteq> X \<and> X \<subseteq> a_desc A p"
        using t(1,4) Y(1,3) Cons by (intro exI[of _ "Y \<union> X"] exI[of _ s']) auto
    qed
  qed
qed

end
