(* ===== verification/Nn_File_Ops.thy ===== *)
theory Nn_File_Ops
  imports Nn_File_Clear
begin

text \<open>
  The updates of the file index, one lemma for each: it returns, keeps the representation relation and
  changes exactly the records that the operation is about.
\<close>

lemma fi_relD:
  assumes "fi_rel cap K s A"
  shows rel_core: "fi_core cap K {} s A" and rel_num: "fi_num {} s A" and rel_state: "fi_state {} s A"
    and rel_count: "fs_object_num s = of_nat (card (a_live A))" and rel_tab: "fi_table cap K s A" and rel_tree: "fi_tree {} s A"
  using assms by (auto simp: fi_rel_def fi_core_def)

lemma in_live: "a_map A k = Some p \<Longrightarrow> p \<in> a_live A"
  by (auto simp: ran_def)

lemma live_finite: "fi_table cap K s A \<Longrightarrow> finite (a_live A)"
  by (rule finite_subset[of _ "{..<cap}"]) (auto simp: fi_table_def pool_state_def)

section \<open>Linking to the parent\<close>

lemma link_parent_ok:
  assumes core: "fi_core cap K {} s A" and q: "a_map A pk = Some q" "q \<in> a_dirs A"
    and c: "c \<in> a_live A - a_linked A" "c \<noteq> q" and pk: "parent_key_of (okey s c) = Some pk"
  shows "\<exists>s'. link_parent pk t c s = Some s' \<and> fi_core cap K {} s' (A\<lparr>a_kids := (a_kids A)(q := a_kids A q @ [c])\<rparr>) \<and>
    mb_data (fi_pool s') = (mb_data (fi_pool s))(q := (set_mtime t (fi_obj s q))\<lparr>fs_children_num := fs_children_num (fi_obj s q) + 1\<rparr>) \<and>
    fs_object_num s' = fs_object_num s"
proof -
  note tab = fi_coreD(1)[OF core]
  have "pk \<in> K" using q(1) fi_dom[OF tab] by auto
  then have get: "get_store_obj pk s = Some (Some q)" using get_store_table[OF tab] q(1) by simp
  have ql: "q \<in> a_live A" using q(1) by (rule in_live)
  have qk: "okey s q = pk" by (rule fi_key[OF tab q(1)])
  let ?s1 = "s\<lparr>fi_pool := (fi_pool s)\<lparr>mb_data := (mb_data (fi_pool s))(q := set_mtime t (fi_obj s q))\<rparr>\<rparr>"
  have 1: "fi_upd q (set_mtime t) s = Some ?s1" "fi_core cap K {} ?s1 A"
    using fi_upd_core[OF core ql, of "set_mtime t" ?s1] by auto
  have "parent_key_of (okey ?s1 c) = Some (okey ?s1 q)" using pk qk c(2) by simp
  from link_child_core[OF 1(2) q(2) _ this] c(1) obtain l where
    2: "queue_insert_tail (Children q) (Me c) (fi_links ?s1) = Some l"
      "fi_core cap K {} (?s1\<lparr>fi_links := l\<rparr>) (A\<lparr>a_kids := (a_kids A)(q := a_kids A q @ [c])\<rparr>)" (is "fi_core _ _ _ ?s2 ?A")
    by auto
  let ?f = "\<lambda>d. d\<lparr>fs_children_num := fs_children_num d + 1\<rparr> :: fi_store"
  let ?s3 = "?s2\<lparr>fi_pool := (fi_pool ?s2)\<lparr>mb_data := (mb_data (fi_pool ?s2))(q := ?f (fi_obj ?s2 q))\<rparr>\<rparr>"
  have "q \<in> a_live ?A" using ql by simp
  from fi_upd_core[OF 2(2) this, of ?f ?s3] have 3: "fi_upd q ?f ?s2 = Some ?s3" "fi_core cap K {} ?s3 ?A" by auto
  have "link_parent pk t c s = Some ?s3" using get 1(1) 2(1) 3(1) by (simp add: link_parent_def)
  with 3(2) show ?thesis by (intro exI[of _ ?s3]) simp
qed

text \<open>The counters and the states after a record was linked.\<close>

lemma link_num:
  assumes num: "fi_num {} s A" and q: "q \<in> a_dirs A"
    and s': "mb_data (fi_pool s') = (mb_data (fi_pool s))(q := (set_mtime t (fi_obj s q))\<lparr>fs_children_num := fs_children_num (fi_obj s q) + 1\<rparr>)"
  shows "fi_num {} s' (A\<lparr>a_kids := (a_kids A)(q := a_kids A q @ [c])\<rparr>)"
  using num q by (auto simp: fi_num_def s')

lemma new_num: "fi_num {} s A \<Longrightarrow> p \<notin> a_live A \<Longrightarrow> a_dirs A \<subseteq> a_live A \<Longrightarrow> fs_children_num obj = 0 \<Longrightarrow>
    mb_data (fi_pool s') = (mb_data (fi_pool s))(p := obj) \<Longrightarrow> fi_num {} s' (a_new k p d A)"
  by (auto simp: fi_num_def)

section \<open>Creating a directory\<close>

text \<open>The place of a new object: the root, or a directory that exists.\<close>

fun a_place :: "fi_abs \<Rightarrow> bytes \<Rightarrow> nat option \<Rightarrow> bool" where
  "a_place A k None \<longleftrightarrow> is_root (get_store_path k)"
| "a_place A k (Some q) \<longleftrightarrow> q \<in> a_dirs A \<and> (\<exists>pk. parent_key_of k = Some pk \<and> a_map A pk = Some q)"

fun a_link :: "nat option \<Rightarrow> nat \<Rightarrow> fi_abs \<Rightarrow> fi_abs" where
  "a_link None c A = A"
| "a_link (Some q) c A = A\<lparr>a_kids := (a_kids A)(q := a_kids A q @ [c])\<rparr>"

fun link_data :: "nat option \<Rightarrow> u64 \<Rightarrow> (nat \<Rightarrow> fi_store) \<Rightarrow> nat \<Rightarrow> fi_store" where
  "link_data None t dat = dat"
| "link_data (Some q) t dat = dat(q := (set_mtime t (dat q))\<lparr>fs_children_num := fs_children_num (dat q) + 1\<rparr>)"

definition a_mkdir :: "bytes \<Rightarrow> nat \<Rightarrow> nat option \<Rightarrow> fi_abs \<Rightarrow> fi_abs" where
  "a_mkdir k p q A = (a_link q p (a_new k p True A))\<lparr>a_ckp := a_ckp A @ [p]\<rparr>"

lemma a_link_simps [simp]:
  "a_map (a_link q c A) = a_map A" "a_dirs (a_link q c A) = a_dirs A" "a_ckp (a_link q c A) = a_ckp A"
  by (cases q; simp)+

lemma a_linked_link:
  "a_place A k q \<Longrightarrow> a_linked (a_link q c A) = (case q of None \<Rightarrow> a_linked A | Some _ \<Rightarrow> insert c (a_linked A))"
  by (cases q) (auto simp: a_linked_def split: if_splits)

lemma a_linked_ckp [simp]: "a_linked (A\<lparr>a_ckp := x\<rparr>) = a_linked A"
  by (simp add: a_linked_def)

lemma link_data_keeps [simp]:
  "i_key (fs_fin (link_data q t dat p)) = i_key (fs_fin (dat p))" "fs_state (link_data q t dat p) = fs_state (dat p)"
  by (cases q; simp)+

lemma place_root: "a_place A k None \<Longrightarrow> parent_key_of k = None"
  by (simp add: parent_key_of_def)

lemma new_place: "a_place A k q \<Longrightarrow> a_map A k = None \<Longrightarrow> p \<notin> a_live A \<Longrightarrow> a_dirs A \<subseteq> a_live A \<Longrightarrow>
    a_place (a_new k p d A) k q \<and> q \<noteq> Some p"
  by (cases q) (auto simp: ran_def)

text \<open>Linking to the parent if there is one, then to the checkpoint queue.\<close>

lemma link_place_ok:
  assumes core: "fi_core cap K {} s A" and num: "fi_num {} s A" and pl: "a_place A (okey s c) q"
    and c: "c \<in> a_live A - a_linked A" "q \<noteq> Some c"
  shows "\<exists>s'. (if is_root (get_store_path (okey s c)) then Some s
      else do { pKey \<leftarrow> get_parent_key (get_store_path (okey s c)); link_parent pKey t c s }) = Some s' \<and>
    fi_core cap K {} s' (a_link q c A) \<and> fi_num {} s' (a_link q c A) \<and>
    mb_data (fi_pool s') = link_data q t (mb_data (fi_pool s)) \<and> fs_object_num s' = fs_object_num s"
proof (cases q)
  case None
  then show ?thesis using assms by simp
next
  case (Some r)
  with pl obtain pk where pk: "parent_key_of (okey s c) = Some pk" "a_map A pk = Some r" "r \<in> a_dirs A" by auto
  from link_parent_ok[OF core pk(2,3) c(1) _ pk(1), of t] c(2) Some obtain s' where
    s': "link_parent pk t c s = Some s'" "fi_core cap K {} s' (A\<lparr>a_kids := (a_kids A)(r := a_kids A r @ [c])\<rparr>)"
      "mb_data (fi_pool s') = (mb_data (fi_pool s))(r := (set_mtime t (fi_obj s r))\<lparr>fs_children_num := fs_children_num (fi_obj s r) + 1\<rparr>)"
      "fs_object_num s' = fs_object_num s" by auto
  moreover have "\<not> is_root (get_store_path (okey s c))" "get_parent_key (get_store_path (okey s c)) = Some pk"
    using pk(1) by (auto simp: parent_key_of_def split: if_splits)
  ultimately show ?thesis using link_num[OF num pk(3) s'(3)] Some by (intro exI[of _ s']) simp
qed

lemma mkdir_ok:
  assumes rel: "fi_rel cap K s A" and k: "i_key fin \<in> K" "a_map A (i_key fin) = None" and room: "card (a_live A) < cap"
    and dir: "i_is_directory fin" and pl: "a_place A (i_key fin) q"
  shows "\<exists>s' p. update_fi_mkdir fin s = Some s' \<and> p \<notin> a_live A \<and> fi_rel cap K s' (a_mkdir (i_key fin) p q A) \<and>
    mb_data (fi_pool s') = link_data q (i_mtime fin) ((mb_data (fi_pool s))(p := fi_store0\<lparr>fs_fin := fin\<rparr>))"
proof -
  note core = rel_core[OF rel] and tree = rel_tree[OF rel]
  let ?k = "i_key fin" and ?obj = "fi_store0\<lparr>fs_fin := fin\<rparr>"
  from fi_new_core[OF core k room] obtain p m ht where
    n: "fi_get0 s = Some (Some p, s\<lparr>fi_pool := m, fi_links :=
         clear_links (Ckp p) (clear_links (Me p) (clear_links (Children p) (fi_links s)))\<rparr>)"
      "p \<notin> a_live A" "mb_data m = (mb_data (fi_pool s))(p := fi_store0)"
      "\<And>f. pool_upd p f m = Some (m\<lparr>mb_data := (mb_data m)(p := f fi_store0)\<rparr>)"
      "dfs_hashtable_join p (link_make p ?k (length ?k) (fi_htable s)) = Some ht"
    and core1: "\<And>obj d s'. i_key (fs_fin obj) = ?k \<Longrightarrow> i_is_directory (fs_fin obj) = d \<Longrightarrow>
       s' = s\<lparr>fi_pool := m\<lparr>mb_data := (mb_data m)(p := obj)\<rparr>, fi_links := new_links p d (fi_links s), fi_htable := ht\<rparr> \<Longrightarrow>
       fi_core cap K {} s' (a_new ?k p d A)" by blast
  let ?s1 = "s\<lparr>fi_pool := m\<lparr>mb_data := (mb_data m)(p := ?obj)\<rparr>, fi_links := new_links p True (fi_links s), fi_htable := ht\<rparr>"
  let ?A1 = "a_new ?k p True A"
  have c1: "fi_core cap K {} ?s1 ?A1" by (rule core1[OF _ _ refl]) (simp_all add: dir)
  have dat1: "mb_data (fi_pool ?s1) = (mb_data (fi_pool s))(p := ?obj)" by (simp add: n(3))
  have num1: "fi_num {} ?s1 ?A1"
    by (rule new_num[OF rel_num[OF rel] n(2) fi_dirs_live[OF tree] _ dat1]) (simp add: fi_store0_def)
  have key1: "okey ?s1 p = ?k" by simp
  have out: "p \<notin> a_dirs A" "p \<notin> a_linked A" "p \<notin> set (a_ckp A)"
    using n(2) fi_dirs_live[OF tree] linked_live[OF tree] fi_ckp[OF tree] by auto
  have ran': "ran ((a_map A)(?k \<mapsto> p)) = insert p (a_live A)" using k(2) by simp
  note pl1 = new_place[OF pl k(2) n(2) fi_dirs_live[OF tree], of True]
  have "p \<in> a_live ?A1 - a_linked ?A1" using out by (simp add: ran' a_linked_new)
  moreover have "a_place ?A1 (okey ?s1 p) q" using pl1 unfolding key1 by blast
  ultimately obtain s2 where
    2: "(if is_root (get_store_path (okey ?s1 p)) then Some ?s1
        else do { pKey \<leftarrow> get_parent_key (get_store_path (okey ?s1 p)); link_parent pKey (i_mtime fin) p ?s1 }) = Some s2"
      "fi_core cap K {} s2 (a_link q p ?A1)" "fi_num {} s2 (a_link q p ?A1)"
      "mb_data (fi_pool s2) = link_data q (i_mtime fin) (mb_data (fi_pool ?s1))" "fs_object_num s2 = fs_object_num ?s1"
    using link_place_ok[OF c1 num1, of p q "i_mtime fin"] pl1 by blast
  note code2 = 2(1)[unfolded key1]
  have "p \<in> a_live (a_link q p ?A1) - {} - set (a_ckp (a_link q p ?A1))" using out by (simp add: ran')
  from link_ckp_core[OF 2(2) this] obtain l where
    3: "queue_insert_tail CheckpointQ (Ckp p) (fi_links s2) = Some l"
      "fi_core cap K {} (s2\<lparr>fi_links := l\<rparr>) (a_mkdir ?k p q A)" by (auto simp: a_mkdir_def)
  let ?s3 = "inc_FsObjectNum 1 (s2\<lparr>fi_links := l\<rparr>)"
  have "update_fi_mkdir fin s = Some ?s3"
  proof -
    have s1: "s\<lparr>fi_links := queue_init (Children p) (queue_init (Me p) (queue_init (Ckp p)
          (clear_links (Ckp p) (clear_links (Me p) (clear_links (Children p) (fi_links s)))))),
        fi_pool := m\<lparr>mb_data := (mb_data m)(p := ?obj)\<rparr>, fi_htable := ht\<rparr> = ?s1"
      by (simp add: new_links_def Let_def)
    show ?thesis
    proof (cases "is_root (get_store_path ?k)")
      case True
      then have "s2 = ?s1" using code2 by simp
      then show ?thesis using n(1,4,5) 3(1) True by (simp add: update_fi_mkdir_def fi_upd_def new_links_def Let_def)
    next
      case False
      then obtain pk where "get_parent_key (get_store_path ?k) = Some pk" "link_parent pk (i_mtime fin) p ?s1 = Some s2"
        using code2 by (auto simp: bind_eq_Some_conv)
      then show ?thesis using n(1,4,5) 3(1) False s1 by (simp add: update_fi_mkdir_def fi_upd_def Let_def)
    qed
  qed
  moreover have dat3: "mb_data (fi_pool ?s3) = link_data q (i_mtime fin) ((mb_data (fi_pool s))(p := ?obj))"
    using 2(4) dat1 by (simp add: inc_FsObjectNum_def)
  moreover have "fi_rel cap K ?s3 (a_mkdir ?k p q A)"
  proof -
    have "fi_core cap K {} ?s3 (a_mkdir ?k p q A)" using 3(2)
      by (simp add: fi_core_def fi_table_def fi_tree_def inc_FsObjectNum_def)
    moreover have "fi_num {} ?s3 (a_mkdir ?k p q A)" using 2(3) by (simp add: fi_num_def a_mkdir_def inc_FsObjectNum_def)
    moreover have "card (insert p (a_live A)) = Suc (card (a_live A))"
      using n(2) live_finite[OF rel_tab[OF rel]] by simp
    then have "fs_object_num ?s3 = of_nat (card (a_live (a_mkdir ?k p q A)))"
      using rel_count[OF rel] 2(5) by (simp add: inc_FsObjectNum_def a_mkdir_def ran')
    moreover have "fi_state {} ?s3 (a_mkdir ?k p q A)"
    proof -
      have "okey ?s3 x = (if x = p then ?k else okey s x)"
        "fs_state (fi_obj ?s3 x) = (if x = p then KEY_STATE_OK else fs_state (fi_obj s x))" for x
        by (simp_all only: dat3 link_data_keeps) (simp_all add: fi_store0_def dfs_code)
      moreover have "a_linked (a_mkdir ?k p q A) = (case q of None \<Rightarrow> a_linked A | Some _ \<Rightarrow> insert p (a_linked A))"
        using a_linked_link[OF conjunct1[OF pl1], of p] out by (simp add: a_mkdir_def a_linked_new split: option.split)
      moreover have "q = None \<Longrightarrow> parent_key_of ?k = None" using pl place_root by blast
      ultimately show ?thesis using rel_state[OF rel] out unfolding fi_state_def
        by (auto simp: a_mkdir_def ran' dfs_code split: option.splits)
    qed
    ultimately show ?thesis by (simp add: fi_rel_def)
  qed
  ultimately show ?thesis using n(2) by blast
qed

section \<open>Creating and writing a file\<close>

text \<open>A file being created as a member that did not propose it stores it.\<close>

definition new_file :: "fi_inode \<Rightarrow> u64 \<Rightarrow> fi_store" where
  "new_file fin blk_id = fi_store0\<lparr>fs_state := KEY_STATE_CREATING,
     fs_fin := fin\<lparr>i_blks := blk_id # replicate (BLK_LIMIT - 1) (-1)\<rparr>\<rparr>"

definition arm :: "int \<Rightarrow> nat option \<Rightarrow> fi_store \<Rightarrow> fi_store" where
  "arm now thread d = (if thread = None then d
     else d\<lparr>fs_thread := thread, fs_timer_ev := event_timer_add now FI_CREATE_TIME_OUT (fs_timer_ev d)\<rparr>)"

lemma arm_keeps [simp]:
  "fs_fin (arm now thread d) = fs_fin d" "fs_state (arm now thread d) = fs_state d"
  "fs_children_num (arm now thread d) = fs_children_num d"
  by (simp_all add: arm_def)

lemma arm_same: "fs_thread d = Some th \<Longrightarrow>
    arm now (Some th) d = d\<lparr>fs_timer_ev := event_timer_add now FI_CREATE_TIME_OUT (fs_timer_ev d)\<rparr>"
  by (cases d) (simp add: arm_def)

lemma create_ok:
  assumes rel: "fi_rel cap K s A" and k: "i_key fin \<in> K" "a_map A (i_key fin) = None" and room: "card (a_live A) < cap"
    and nodir: "\<not> i_is_directory fin"
  shows "\<exists>s' p. update_fi_create now thread fin blk_id s = Some s' \<and> p \<notin> a_live A \<and>
    fi_rel cap K s' (a_new (i_key fin) p False A) \<and>
    mb_data (fi_pool s') = (mb_data (fi_pool s))(p := arm now thread (new_file fin blk_id))"
proof -
  note core = rel_core[OF rel] and tree = rel_tree[OF rel]
  let ?k = "i_key fin" and ?obj = "arm now thread (new_file fin blk_id)"
  from fi_new_core[OF core k room] obtain p m ht where
    n: "fi_get0 s = Some (Some p, s\<lparr>fi_pool := m, fi_links :=
         clear_links (Ckp p) (clear_links (Me p) (clear_links (Children p) (fi_links s)))\<rparr>)"
      "p \<notin> a_live A" "mb_data m = (mb_data (fi_pool s))(p := fi_store0)"
      "\<And>f. pool_upd p f m = Some (m\<lparr>mb_data := (mb_data m)(p := f fi_store0)\<rparr>)"
      "dfs_hashtable_join p (link_make p ?k (length ?k) (fi_htable s)) = Some ht"
    and core1: "\<And>obj d s'. i_key (fs_fin obj) = ?k \<Longrightarrow> i_is_directory (fs_fin obj) = d \<Longrightarrow>
       s' = s\<lparr>fi_pool := m\<lparr>mb_data := (mb_data m)(p := obj)\<rparr>, fi_links := new_links p d (fi_links s), fi_htable := ht\<rparr> \<Longrightarrow>
       fi_core cap K {} s' (a_new ?k p d A)" by blast
  let ?s1 = "s\<lparr>fi_pool := m\<lparr>mb_data := (mb_data m)(p := ?obj)\<rparr>, fi_links := new_links p False (fi_links s), fi_htable := ht\<rparr>"
  let ?s2 = "inc_FsObjectNum 1 ?s1" and ?A = "a_new ?k p False A"
  have c1: "fi_core cap K {} ?s1 ?A" by (rule core1[OF _ _ refl]) (simp_all add: nodir new_file_def)
  have dat: "mb_data (fi_pool ?s2) = (mb_data (fi_pool s))(p := ?obj)" by (simp add: n(3) inc_FsObjectNum_def)
  have ran': "ran ((a_map A)(?k \<mapsto> p)) = insert p (a_live A)" using k(2) by simp
  have out: "p \<notin> a_dirs A" "p \<notin> a_linked A" "p \<notin> set (a_ckp A)"
    using n(2) fi_dirs_live[OF tree] linked_live[OF tree] fi_ckp[OF tree] by auto
  have "mb_next m p = MPool" using n(4)[of "\<lambda>d. d"] by (auto simp: pool_upd_def split: if_splits)
  then have upd: "pool_upd p f (m\<lparr>mb_data := dd\<rparr>) = Some (m\<lparr>mb_data := dd(p := f (dd p))\<rparr>)" for f dd
    by (simp add: pool_upd_def)
  have "update_fi_create now thread fin blk_id s = Some ?s2"
    using n(1,4,5) upd by (simp add: update_fi_create_def fi_upd_def new_links_def Let_def arm_def new_file_def inc_FsObjectNum_def)
  moreover have "fi_num {} ?s2 ?A"
    by (rule new_num[OF rel_num[OF rel] n(2) fi_dirs_live[OF tree] _ dat]) (simp add: new_file_def fi_store0_def)
  moreover have "fi_core cap K {} ?s2 ?A" using c1 by (simp add: fi_core_def fi_table_def fi_tree_def inc_FsObjectNum_def)
  moreover have "fs_object_num ?s2 = of_nat (card (a_live ?A))"
    using rel_count[OF rel] n(2) live_finite[OF rel_tab[OF rel]] by (simp add: inc_FsObjectNum_def ran')
  moreover have "okey ?s2 x = (if x = p then ?k else okey s x)"
    "fs_state (fi_obj ?s2 x) = (if x = p then KEY_STATE_CREATING else fs_state (fi_obj s x))" for x
    by (simp_all only: dat) (simp_all add: new_file_def)
  then have "fi_state {} ?s2 ?A"
    using rel_state[OF rel] out unfolding fi_state_def by (auto simp: ran' a_linked_new)
  ultimately show ?thesis using n(2) dat unfolding fi_rel_def by blast
qed

text \<open>An update of the data of a record that leaves key, kind, state and counter alone.\<close>

lemma fi_upd_rel:
  assumes rel: "fi_rel cap K s A" and p: "p \<in> a_live A"
    and f: "i_key (fs_fin (f (fi_obj s p))) = okey s p" "fs_state (f (fi_obj s p)) = fs_state (fi_obj s p)"
      "i_is_directory (fs_fin (f (fi_obj s p))) = i_is_directory (fs_fin (fi_obj s p))"
      "fs_children_num (f (fi_obj s p)) = fs_children_num (fi_obj s p)"
  shows "\<exists>s'. fi_upd p f s = Some s' \<and> fi_rel cap K s' A \<and> mb_data (fi_pool s') = (mb_data (fi_pool s))(p := f (fi_obj s p))"
proof -
  let ?s = "s\<lparr>fi_pool := (fi_pool s)\<lparr>mb_data := (mb_data (fi_pool s))(p := f (fi_obj s p))\<rparr>\<rparr>"
  have "fi_num {} ?s A" using rel_num[OF rel] f by (auto simp: fi_num_def)
  moreover have "okey ?s q = okey s q" "fs_state (fi_obj ?s q) = fs_state (fi_obj s q)" for q using f by auto
  then have "fi_state {} ?s A" using rel_state[OF rel] unfolding fi_state_def by metis
  ultimately show ?thesis
    using fi_upd_core[OF rel_core[OF rel] p, of f, OF f(1,3) refl] rel_count[OF rel] by (intro exI[of _ ?s]) (simp add: fi_rel_def)
qed

lemma additional_blk_ok:
  assumes rel: "fi_rel cap K s A" and k: "a_map A (i_key fin) = Some c"
  shows "\<exists>s'. update_fi_get_additional_blk now fin blk_id s = Some s' \<and> fi_rel cap K s' A \<and>
    mb_data (fi_pool s') = (mb_data (fi_pool s))(c := arm now (fs_thread (fi_obj s c)) ((fi_obj s c)\<lparr>fs_fin :=
      (fs_fin (fi_obj s c))\<lparr>i_blks := put_blk blk_id (i_blks (fs_fin (fi_obj s c)))\<rparr>\<rparr>))"
proof -
  have c: "c \<in> a_live A" using k by (rule in_live)
  have "i_key fin \<in> K" using k fi_dom[OF rel_tab[OF rel]] by auto
  then have get: "get_store_obj (i_key fin) s = Some (Some c)" using get_store_table[OF rel_tab[OF rel]] k by simp
  let ?f = "\<lambda>d. d\<lparr>fs_fin := (fs_fin d)\<lparr>i_blks := put_blk blk_id (i_blks (fs_fin d))\<rparr>\<rparr> :: fi_store"
  let ?g = "\<lambda>d. d\<lparr>fs_timer_ev := event_timer_add now FI_CREATE_TIME_OUT (fs_timer_ev d)\<rparr> :: fi_store"
  from fi_upd_rel[OF rel c, of ?f] obtain s1 where
    s1: "fi_upd c ?f s = Some s1" "fi_rel cap K s1 A" "mb_data (fi_pool s1) = (mb_data (fi_pool s))(c := ?f (fi_obj s c))" by auto
  from fi_upd_rel[OF s1(2) c, of ?g] obtain s2 where
    s2: "fi_upd c ?g s1 = Some s2" "fi_rel cap K s2 A" "mb_data (fi_pool s2) = (mb_data (fi_pool s1))(c := ?g (fi_obj s1 c))" by auto
  have at: "pool_at c (fi_pool s1) = Some (fi_obj s1 c)" by (rule fi_at[OF rel_tab[OF s1(2)] c])
  show ?thesis
  proof (cases "fs_thread (fi_obj s c)")
    case None
    then show ?thesis using get s1 at
      by (intro exI[of _ s1]) (simp add: update_fi_get_additional_blk_def arm_def)
  next
    case (Some th)
    then show ?thesis using get s1 at s2
      by (intro exI[of _ s2]) (simp add: update_fi_get_additional_blk_def arm_same)
  qed
qed

section \<open>Closing a file\<close>

definition closed :: "fi_inode \<Rightarrow> fi_store \<Rightarrow> fi_store" where
  "closed fin d = (if fs_thread d = None then d else d\<lparr>fs_timer_ev := event_timer_del (fs_timer_ev d), fs_thread := None\<rparr>)
     \<lparr>fs_state := KEY_STATE_OK, fs_fin := (fs_fin d)\<lparr>i_mtime := i_mtime fin,
        i_length := i_length fin, i_blk_replication := i_blk_replication fin\<rparr>\<rparr>"

lemma close_ok:
  assumes rel: "fi_rel cap K s A" and k: "a_map A (i_key fin) = Some c" and creating: "fs_state (fi_obj s c) = KEY_STATE_CREATING"
    and pl: "a_place A (i_key fin) (Some q)"
  shows "\<exists>s'. update_fi_close fin s = Some s' \<and> fi_rel cap K s' ((a_link (Some q) c A)\<lparr>a_ckp := a_ckp A @ [c]\<rparr>) \<and>
    mb_data (fi_pool s') = link_data (Some q) (i_mtime fin) ((mb_data (fi_pool s))(c := closed fin (fi_obj s c)))"
proof -
  note core = rel_core[OF rel] and tab = rel_tab[OF rel] and tree = rel_tree[OF rel]
  have c: "c \<in> a_live A" using k by (rule in_live)
  have key: "okey s c = i_key fin" by (rule fi_key[OF tab k])
  have "i_key fin \<in> K" using k fi_dom[OF tab] by auto
  then have get: "get_store_obj (i_key fin) s = Some (Some c)" using get_store_table[OF tab] k by simp
  from pl obtain pk where pk: "q \<in> a_dirs A" "parent_key_of (i_key fin) = Some pk" "a_map A pk = Some q" by auto
  have ckp: "c \<notin> set (a_ckp A)" using rel_state[OF rel] c creating by (auto simp: fi_state_def)
  then have out: "c \<notin> a_linked A" "c \<notin> a_dirs A"
    using rel_state[OF rel] c pk(2) key unfolding fi_state_def by fastforce+
  then have cq: "c \<noteq> q" using pk(1) by auto
  let ?f = "\<lambda>d. if fs_thread d = None then d else d\<lparr>fs_timer_ev := event_timer_del (fs_timer_ev d), fs_thread := None\<rparr> :: fi_store"
  let ?g = "\<lambda>d. d\<lparr>fs_state := KEY_STATE_OK, fs_fin := (fs_fin d)\<lparr>i_mtime := i_mtime fin,
            i_length := i_length fin, i_blk_replication := i_blk_replication fin\<rparr>\<rparr> :: fi_store"
  from fi_upd_core[OF core c, of ?f, OF _ _ refl] obtain s1 where
    s1: "fi_upd c ?f s = Some s1" "fi_core cap K {} s1 A" "s1 = s\<lparr>fi_pool := (fi_pool s)\<lparr>mb_data := (mb_data (fi_pool s))(c := ?f (fi_obj s c))\<rparr>\<rparr>"
    by simp
  from fi_upd_core[OF s1(2) c, of ?g, OF _ _ refl] obtain s2 where
    s2: "fi_upd c ?g s1 = Some s2" "fi_core cap K {} s2 A" "s2 = s1\<lparr>fi_pool := (fi_pool s1)\<lparr>mb_data := (mb_data (fi_pool s1))(c := ?g (fi_obj s1 c))\<rparr>\<rparr>"
    by simp
  have dat2: "mb_data (fi_pool s2) = (mb_data (fi_pool s))(c := closed fin (fi_obj s c))"
    by (simp add: s2(3) s1(3) closed_def)
  have num2: "fi_num {} s2 A" using rel_num[OF rel] out(2) by (auto simp: fi_num_def dat2)
  have key2: "okey s2 c = i_key fin" using key by (simp add: dat2 closed_def)
  have c': "c \<in> a_live A - a_linked A" using c out by simp
  have pk2: "parent_key_of (okey s2 c) = Some pk" using pk(2) key2 by simp
  from link_parent_ok[OF s2(2) pk(3,1) c' cq pk2, of "i_mtime fin"] obtain s3 where
    s3: "link_parent pk (i_mtime fin) c s2 = Some s3" "fi_core cap K {} s3 (a_link (Some q) c A)"
      "mb_data (fi_pool s3) = link_data (Some q) (i_mtime fin) (mb_data (fi_pool s2))" "fs_object_num s3 = fs_object_num s2" by auto
  have num3: "fi_num {} s3 (a_link (Some q) c A)" using link_num[OF num2 pk(1), of s3 "i_mtime fin" c] s3(3) by simp
  have "c \<in> a_live (a_link (Some q) c A) - {} - set (a_ckp (a_link (Some q) c A))" using c ckp by simp
  from link_ckp_core[OF s3(2) this] obtain l where
    l: "queue_insert_tail CheckpointQ (Ckp c) (fi_links s3) = Some l"
      "fi_core cap K {} (s3\<lparr>fi_links := l\<rparr>) ((a_link (Some q) c A)\<lparr>a_ckp := a_ckp A @ [c]\<rparr>)" by auto
  let ?s = "s3\<lparr>fi_links := l\<rparr>" and ?A = "(a_link (Some q) c A)\<lparr>a_ckp := a_ckp A @ [c]\<rparr>"
  have gp: "get_parent_key (get_store_path (i_key fin)) = Some pk"
    using pk(2) by (auto simp: parent_key_of_def split: if_splits)
  have "update_fi_close fin s = Some ?s" using get s1(1) s2(1) gp s3(1) l(1) by (simp add: update_fi_close_def)
  moreover have "fi_rel cap K ?s ?A"
  proof -
    have "okey ?s x = okey s x" "fs_state (fi_obj ?s x) = (if x = c then KEY_STATE_OK else fs_state (fi_obj s x))" for x
      using s3(3) dat2 cq by (simp_all add: closed_def)
    moreover have "a_linked ?A = insert c (a_linked A)" using a_linked_link[OF pl, of c] by simp
    ultimately have "fi_state {} ?s ?A" using rel_state[OF rel] c unfolding fi_state_def
      by (auto simp: dfs_code)
    moreover have "fi_num {} ?s ?A" using num3 by (simp add: fi_num_def)
    moreover have "fs_object_num ?s = of_nat (card (a_live ?A))" using rel_count[OF rel] s3(4) s2(3) s1(3) by simp
    ultimately show ?thesis using l(2) by (simp add: fi_rel_def)
  qed
  ultimately show ?thesis using s3(3) dat2 by (intro exI[of _ ?s]) simp
qed

end
