(* ===== verification/Nn_File_Remove.thy ===== *)
theory Nn_File_Remove
  imports Nn_File_Ops
begin

text \<open>The two removals of the file index, and what they do to the tree and to the block index.\<close>

section \<open>One record\<close>

lemma linked_parent:
  assumes tab: "fi_table cap K s A" and tree: "fi_tree D s A" and c: "c \<in> a_linked A" "parent_key_of (okey s c) = Some pk"
  shows "\<exists>q. a_map A pk = Some q \<and> q \<in> a_dirs A \<and> c \<in> set (a_kids A q)"
proof -
  from c(1) obtain q where q: "q \<in> a_dirs A" "c \<in> set (a_kids A q)" by (auto simp: a_linked_def)
  then have "okey s q = pk" using fi_kid[OF tree q] c(2) by simp
  moreover have "q \<in> a_live A" using fi_dirs_live[OF tree] q(1) by auto
  ultimately show ?thesis using q a_live_iff[OF tab] by blast
qed

lemma closed_parent:
  assumes rel: "fi_rel cap K s A" and k: "a_map A k = Some c" "parent_key_of k = Some pk" and ok: "c \<in> set (a_ckp A)"
  shows "\<exists>q. a_map A pk = Some q \<and> q \<in> a_dirs A \<and> c \<in> set (a_kids A q)"
proof (rule linked_parent[OF rel_tab[OF rel] rel_tree[OF rel]])
  have key: "okey s c = k" by (rule fi_key[OF rel_tab[OF rel] k(1)])
  show "parent_key_of (okey s c) = Some pk" using k(2) key by simp
  show "c \<in> a_linked A" using rel_state[OF rel] in_live[of A, OF k(1)] ok k(2) key by (auto simp: fi_state_def)
qed

lemma remove_ok:
  assumes core: "fi_core cap K {} s A" and num: "fi_num {c} s A" and st: "fi_state {} s A"
    and q: "q \<in> a_dirs A" "c \<in> set (a_kids A q)" and c: "a_map A k = Some c" "c \<in> set (a_ckp A)" "a_kids A c = []" "c \<noteq> q"
  shows "\<exists>ht l1 l2 pool s'. dfs_hashtable_remove_link c (fi_htable s) = Some (DFS_HASHTABLE_OK, ht) \<and>
    queue_remove (Me c) (fi_links s) = Some l1 \<and> queue_remove (Ckp c) l1 = Some l2 \<and> mem_put c (fi_pool s) = Some pool \<and>
    fi_upd q (\<lambda>d. d\<lparr>fs_children_num := fs_children_num d - 1\<rparr>) (s\<lparr>fi_htable := ht, fi_links := l2, fi_pool := pool\<rparr>) = Some s' \<and>
    fi_core cap K {} s' (a_prune {c} A) \<and> fi_num {} s' (a_prune {c} A) \<and> fi_state {} s' (a_prune {c} A) \<and>
    mb_data (fi_pool s') = (mb_data (fi_pool s))(q := (fi_obj s q)\<lparr>fs_children_num := fs_children_num (fi_obj s q) - 1\<rparr>) \<and>
    fs_object_num s' = fs_object_num s"
proof -
  note tab = fi_coreD(1)[OF core] and tree = fi_coreD(2)[OF core]
  from detach_core[OF core q c(2)] obtain l1 l2 where
    l: "queue_remove (Me c) (fi_links s) = Some l1" "queue_remove (Ckp c) l1 = Some l2"
      "fi_core cap K {c} (s\<lparr>fi_links := l2\<rparr>) (a_detach q c A)" by auto
  have num1: "fi_num {c, q} (s\<lparr>fi_links := l2\<rparr>) (a_detach q c A)" and st1: "fi_state {c} (s\<lparr>fi_links := l2\<rparr>) (a_detach q c A)"
    using detach_num_state[OF core q, of "{c, q}" l2] num st by (auto simp: fi_num_def)
  have k1: "a_map (a_detach q c A) k = Some c" and e1: "a_kids (a_detach q c A) c = []"
    using c by (simp_all add: a_detach_def)
  from free_core[OF l(3) _ k1 e1] obtain ht pool where
    f: "dfs_hashtable_remove_link c (fi_htable s) = Some (DFS_HASHTABLE_OK, ht)" "mem_put c (fi_pool s) = Some pool"
      "mb_data pool = mb_data (fi_pool s)"
      "fi_core cap K {} (s\<lparr>fi_links := l2, fi_htable := ht, fi_pool := pool\<rparr>) (a_free k c (a_detach q c A))" by auto
  let ?s2 = "s\<lparr>fi_htable := ht, fi_links := l2, fi_pool := pool\<rparr>" and ?A = "a_prune {c} A"
  have A2: "a_free k c (a_detach q c A) = ?A" using prune_step[OF core q c(1), of "{}"] by simp
  have s2: "s\<lparr>fi_links := l2, fi_htable := ht, fi_pool := pool\<rparr> = ?s2" by simp
  have core2: "fi_core cap K {} ?s2 ?A" using f(4) unfolding A2 s2 .
  have "c \<in> {c}" by simp
  from free_num_state[OF num1 st1 k1 map_inj[OF fi_coreD(1)[OF l(3)] _ k1] this e1, of ?s2] f(3)
  have num2: "fi_num {q} ?s2 ?A" and st2: "fi_state {} ?s2 ?A" by (simp_all add: A2)
  let ?f = "\<lambda>d. d\<lparr>fs_children_num := fs_children_num d - 1\<rparr> :: fi_store"
  let ?s3 = "?s2\<lparr>fi_pool := (fi_pool ?s2)\<lparr>mb_data := (mb_data (fi_pool ?s2))(q := ?f (fi_obj ?s2 q))\<rparr>\<rparr>"
  have ql: "q \<in> a_live ?A" using q(1) fi_dirs_live[OF tree] c(4) by (auto simp: a_live_prune)
  have 3: "fi_upd q ?f ?s2 = Some ?s3" "fi_core cap K {} ?s3 ?A"
    using fi_upd_core[OF core2 ql, of ?f, OF _ _ refl] by simp_all
  have "fs_children_num (fi_obj s q) = of_nat (length (a_kids A q))" using num q(1) c(4) by (simp add: fi_num_def)
  moreover have "length (a_kids A q) = Suc (length (filter (\<lambda>d. d \<noteq> c) (a_kids A q)))"
    using length_filter_neq[OF kids_distinct[OF tree q(1)] q(2)] by simp
  ultimately have "fi_num {} ?s3 ?A" using num2 f(3) by (auto simp: fi_num_def)
  moreover have "okey ?s3 x = okey ?s2 x" "fs_state (fi_obj ?s3 x) = fs_state (fi_obj ?s2 x)" for x by simp_all
  then have "fi_state {} ?s3 ?A" using st2 unfolding fi_state_def by metis
  ultimately show ?thesis using l(1,2) f(1-3) 3
    by (intro exI[of _ ht] exI[of _ l1] exI[of _ l2] exI[of _ pool] exI[of _ ?s3]) simp
qed

section \<open>Removing a file\<close>

abbreviation unlink_data :: "nat \<Rightarrow> u64 \<Rightarrow> (nat \<Rightarrow> fi_store) \<Rightarrow> nat \<Rightarrow> fi_store" where
  "unlink_data q t dat \<equiv> dat(q := (set_mtime t (dat q))\<lparr>fs_children_num := fs_children_num (dat q) - 1\<rparr>)"

lemma rm_ok:
  assumes rel: "fi_rel cap K (nn_fi s) A" and bd: "bd_ok ids (nn_bd s)"
    and k: "a_map A (i_key fin) = Some c" "parent_key_of (i_key fin) = Some pk" and ok: "c \<in> set (a_ckp A)" "c \<notin> a_dirs A"
  shows "\<exists>s' q. update_fi_rm fin s = Some s' \<and> a_map A pk = Some q \<and> c \<in> set (a_kids A q) \<and> fi_rel cap K (nn_fi s') (a_prune {c} A) \<and>
    mb_data (fi_pool (nn_fi s')) = unlink_data q (i_mtime fin) (mb_data (fi_pool (nn_fi s))) \<and> bd_ok ids (nn_bd s') \<and>
    (\<forall>b. blk_known (nn_bd s') b \<longleftrightarrow> blk_known (nn_bd s) b \<and> b \<notin> blks_of (nn_fi s) A {c})"
proof -
  let ?s = "nn_fi s" and ?k = "i_key fin"
  note tab = rel_tab[OF rel] and tree = rel_tree[OF rel]
  from closed_parent[OF rel k ok(1)] obtain q where q: "a_map A pk = Some q" "q \<in> a_dirs A" "c \<in> set (a_kids A q)" by blast
  have live: "q \<in> a_live A" "c \<in> a_live A" using q(1) k(1) by (auto intro: in_live)
  have cq: "c \<noteq> q" using q(2) ok(2) by auto
  from fi_upd_rel[OF rel live(1), of "set_mtime (i_mtime fin)"] obtain s1 where
    s1: "fi_upd q (set_mtime (i_mtime fin)) ?s = Some s1" "fi_rel cap K s1 A"
      "mb_data (fi_pool s1) = (mb_data (fi_pool ?s))(q := set_mtime (i_mtime fin) (fi_obj ?s q))" by auto
  have inK: "pk \<in> K" "?k \<in> K" using q(1) k(1) fi_dom[OF tab] by auto
  have get: "get_store_obj pk ?s = Some (Some q)" "get_store_obj ?k s1 = Some (Some c)"
    using get_store_table[OF tab inK(1)] get_store_table[OF rel_tab[OF s1(2)] inK(2)] q(1) k(1) by simp_all
  have num1: "fi_num {c} s1 A" using rel_num[OF s1(2)] by (simp add: fi_num_def)
  have nk: "a_kids A c = []" by (rule fi_no_kids[OF tree ok(2)])
  from remove_ok[OF rel_core[OF s1(2)] num1 rel_state[OF s1(2)] q(2,3) k(1) ok(1) nk cq] obtain ht l1 l2 pool s2 where
    r: "dfs_hashtable_remove_link c (fi_htable s1) = Some (DFS_HASHTABLE_OK, ht)" "queue_remove (Me c) (fi_links s1) = Some l1"
      "queue_remove (Ckp c) l1 = Some l2" "mem_put c (fi_pool s1) = Some pool"
      "fi_upd q (\<lambda>d. d\<lparr>fs_children_num := fs_children_num d - 1\<rparr>) (s1\<lparr>fi_htable := ht, fi_links := l2, fi_pool := pool\<rparr>) = Some s2"
      "fi_core cap K {} s2 (a_prune {c} A)" "fi_num {} s2 (a_prune {c} A)" "fi_state {} s2 (a_prune {c} A)"
      "mb_data (fi_pool s2) = (mb_data (fi_pool s1))(q := (fi_obj s1 q)\<lparr>fs_children_num := fs_children_num (fi_obj s1 q) - 1\<rparr>)"
      "fs_object_num s2 = fs_object_num s1" by blast
  let ?blks = "i_blks (fs_fin (fi_obj ?s c))"
  from bdel.del_loop_ok[OF bd, of ?blks] obtain bd' where
    b: "del_blks_loop block_object_del ?blks (nn_bd s) = Some bd'" "bd_ok ids bd'"
      "\<forall>x. blk_known bd' x \<longleftrightarrow> blk_known (nn_bd s) x \<and> (x = 0 \<or> x \<notin> set ?blks)" by blast
  let ?s' = "s\<lparr>nn_fi := sub_FsObjectNum 1 s2, nn_bd := bd'\<rparr>"
  have gp: "get_parent_key (get_store_path ?k) = Some pk" using k(2) by (auto simp: parent_key_of_def split: if_splits)
  have at: "pool_at c (fi_pool s1) = Some (fi_obj ?s c)" using fi_at[OF rel_tab[OF s1(2)] live(2)] s1(3) cq by simp
  have "update_fi_rm fin s = Some ?s'"
    using gp get s1(1) at r(1-5) b(1) by (simp add: update_fi_rm_def Let_def)
  moreover have "fi_rel cap K (nn_fi ?s') (a_prune {c} A)"
  proof -
    have "card (a_live A) = Suc (card (a_live A - {c}))" by (rule card_Suc_Diff1[OF live_finite[OF tab] live(2), symmetric])
    then have "fs_object_num (nn_fi ?s') = of_nat (card (a_live (a_prune {c} A)))"
      using rel_count[OF s1(2)] r(10) by (simp add: sub_FsObjectNum_def a_live_prune)
    then show ?thesis using r(6-8)
      by (simp add: fi_rel_def fi_core_def fi_table_def fi_tree_def fi_num_def fi_state_def sub_FsObjectNum_def)
  qed
  moreover have "blks_of ?s A {c} = set ?blks - {0}" using ok(2) by (auto simp: blks_of_def)
  ultimately show ?thesis using q b(2,3) s1(3) r(9)
    by (intro exI[of _ ?s'] exI[of _ q]) (auto simp: sub_FsObjectNum_def)
qed

section \<open>Removing a directory\<close>

lemma desc_least:
  assumes "set (a_kids A p) \<subseteq> X" "\<forall>x \<in> X. set (a_kids A x) \<subseteq> X"
  shows "a_desc A p \<subseteq> X"
proof
  fix x assume "x \<in> a_desc A p"
  then have "(p, x) \<in> (a_edges A)\<^sup>+" by (simp add: a_desc_def)
  then show "x \<in> X" by (induction rule: trancl_induct) (use assms in \<open>auto simp: a_edges_def\<close>)
qed

lemma clear_children_ok:
  assumes pre: "clr_pre cap K ids D N p s A"
  shows "\<exists>s'. clear_children p (of_nat (length (a_kids A p))) s = Some (int (card (a_desc A p)), s') \<and>
    clr_post cap K ids D N s A (a_desc A p) s'"
proof -
  from clear_loop_ok[OF pre] obtain X s' where
    X: "clear_loop (hd (map Me (a_kids A p) @ [Children p])) (of_nat (length (a_kids A p))) 0 0 s = Some (0 + 0 + int (card X), s')"
      "clr_post cap K ids D N s A X s'" "set (a_kids A p) \<subseteq> X" "X \<subseteq> a_desc A p" unfolding clr_call_def by blast
  have "X = a_desc A p" using X(4) desc_least[OF X(3)] X(2) by (auto simp: clr_post_def)
  moreover have "q_next (fi_links (nn_fi s)) (Children p) = Some (hd (map Me (a_kids A p) @ [Children p]))"
    using pre qfam_head[of "fi_links (nn_fi s)" "fi_fam A D" "Children p"] by (simp add: clr_pre_def fi_core_def fi_tree_def)
  ultimately show ?thesis using X(1,2) by (simp add: clear_children_def)
qed

lemma rmr_ok:
  assumes rel: "fi_rel cap K (nn_fi s) A" and bd: "bd_ok ids (nn_bd s)"
    and k: "a_map A (i_key fin) = Some c" "parent_key_of (i_key fin) = Some pk" and dir: "c \<in> a_dirs A"
  shows "\<exists>s' q. update_fi_rmr fin s = Some s' \<and> a_map A pk = Some q \<and> c \<in> set (a_kids A q) \<and>
    fi_rel cap K (nn_fi s') (a_prune (insert c (a_desc A c)) A) \<and>
    mb_data (fi_pool (nn_fi s')) = unlink_data q (i_mtime fin) (mb_data (fi_pool (nn_fi s))) \<and> bd_ok ids (nn_bd s') \<and>
    (\<forall>b. blk_known (nn_bd s') b \<longleftrightarrow> blk_known (nn_bd s) b \<and> b \<notin> blks_of (nn_fi s) A (a_desc A c))"
proof -
  let ?s = "nn_fi s" and ?k = "i_key fin" and ?X = "a_desc A c"
  note tab = rel_tab[OF rel] and tree = rel_tree[OF rel]
  have ckp: "c \<in> set (a_ckp A)" using rel_state[OF rel] dir by (auto simp: fi_state_def)
  from closed_parent[OF rel k ckp] obtain q where q: "a_map A pk = Some q" "q \<in> a_dirs A" "c \<in> set (a_kids A q)" by blast
  have live: "q \<in> a_live A" "c \<in> a_live A" using q(1) k(1) by (auto intro: in_live)
  have rk: "rank ?s q < rank ?s c" using edge_rank[OF tree] q(2,3) by (auto simp: a_edges_def)
  then have cq: "c \<noteq> q" by auto
  have notin: "q \<notin> ?X" "c \<notin> ?X" using desc_rank[OF tree, of _ c] rk by force+
  from fi_upd_rel[OF rel live(1), of "set_mtime (i_mtime fin)"] obtain s1 where
    s1: "fi_upd q (set_mtime (i_mtime fin)) ?s = Some s1" "fi_rel cap K s1 A"
      "mb_data (fi_pool s1) = (mb_data (fi_pool ?s))(q := set_mtime (i_mtime fin) (fi_obj ?s q))" by auto
  have inK: "pk \<in> K" "?k \<in> K" using q(1) k(1) fi_dom[OF tab] by auto
  have get: "get_store_obj pk ?s = Some (Some q)" "get_store_obj ?k s1 = Some (Some c)"
    using get_store_table[OF tab inK(1)] get_store_table[OF rel_tab[OF s1(2)] inK(2)] q(1) k(1) by simp_all
  have at: "pool_at c (fi_pool s1) = Some (fi_obj s1 c)" by (rule fi_at[OF rel_tab[OF s1(2)] live(2)])
  have cn: "fs_children_num (fi_obj s1 c) = of_nat (length (a_kids A c))" using rel_num[OF s1(2)] dir by (simp add: fi_num_def)
  have "clr_pre cap K ids {} {c} c (s\<lparr>nn_fi := s1\<rparr>) A"
    using s1(2) bd dir by (auto simp: clr_pre_def fi_rel_def fi_num_def)
  from clear_children_ok[OF this] obtain s2 where
    cl: "clear_children c (of_nat (length (a_kids A c))) (s\<lparr>nn_fi := s1\<rparr>) = Some (int (card ?X), s2)"
      "clr_post cap K ids {} {c} (s\<lparr>nn_fi := s1\<rparr>) A ?X s2" by blast
  let ?A2 = "a_prune ?X A" and ?s2 = "nn_fi s2"
  from cl(2) have p2: "fi_core cap K {} ?s2 ?A2" "fi_num {c} ?s2 ?A2" "fi_state {} ?s2 ?A2" "bd_ok ids (nn_bd s2)"
    "mb_data (fi_pool ?s2) = mb_data (fi_pool s1)" "fs_object_num ?s2 = fs_object_num s1" "?X \<subseteq> a_live A"
    "\<forall>b. blk_known (nn_bd s2) b \<longleftrightarrow> blk_known (nn_bd s) b \<and> b \<notin> blks_of s1 A ?X" by (auto simp: clr_post_def)
  have "set (a_kids A c) \<subseteq> ?X" using dir by (auto simp: a_desc_def a_edges_def)
  then have A2: "q \<in> a_dirs ?A2" "c \<in> set (a_kids ?A2 q)" "a_map ?A2 ?k = Some c" "c \<in> set (a_ckp ?A2)" "a_kids ?A2 c = []"
    using q notin k(1) ckp by (auto simp: filter_empty_conv)
  from remove_ok[OF p2(1,2,3) A2 cq] obtain ht l1 l2 pool s3 where
    r: "dfs_hashtable_remove_link c (fi_htable ?s2) = Some (DFS_HASHTABLE_OK, ht)" "queue_remove (Me c) (fi_links ?s2) = Some l1"
      "queue_remove (Ckp c) l1 = Some l2" "mem_put c (fi_pool ?s2) = Some pool"
      "fi_upd q (\<lambda>d. d\<lparr>fs_children_num := fs_children_num d - 1\<rparr>) (?s2\<lparr>fi_htable := ht, fi_links := l2, fi_pool := pool\<rparr>) = Some s3"
      "fi_core cap K {} s3 (a_prune {c} ?A2)" "fi_num {} s3 (a_prune {c} ?A2)" "fi_state {} s3 (a_prune {c} ?A2)"
      "mb_data (fi_pool s3) = (mb_data (fi_pool ?s2))(q := (fi_obj ?s2 q)\<lparr>fs_children_num := fs_children_num (fi_obj ?s2 q) - 1\<rparr>)"
      "fs_object_num s3 = fs_object_num ?s2" by blast
  let ?s' = "s2\<lparr>nn_fi := sub_FsObjectNum (int (card ?X) + 1) s3\<rparr>"
  have A3: "a_prune {c} ?A2 = a_prune (insert c ?X) A" by (simp add: a_prune_prune)
  have gp: "get_parent_key (get_store_path ?k) = Some pk" using k(2) by (auto simp: parent_key_of_def split: if_splits)
  have "update_fi_rmr fin s = Some ?s'"
    using gp get s1(1) at cl(1) cn r(1-5) by (simp add: update_fi_rmr_def Let_def)
  moreover have "fi_rel cap K (nn_fi ?s') (a_prune (insert c ?X) A)"
  proof -
    have "card (a_live A) = card (a_live A - insert c ?X) + card (insert c ?X)"
      using p2(7) live(2) live_finite[OF tab] card_Diff_subset[of "insert c ?X" "a_live A"]
        card_mono[of "a_live A" "insert c ?X"] finite_subset[of "insert c ?X" "a_live A"] by simp
    moreover have "card (insert c ?X) = Suc (card ?X)" using notin(2) p2(7) live_finite[OF tab] by (simp add: finite_subset)
    ultimately have "fs_object_num (nn_fi ?s') = of_nat (card (a_live (a_prune (insert c ?X) A)))"
      using rel_count[OF s1(2)] r(10) p2(6) by (simp add: sub_FsObjectNum_def a_live_prune)
    then show ?thesis using r(6-8) unfolding A3
      by (simp add: fi_rel_def fi_core_def fi_table_def fi_tree_def fi_num_def fi_state_def sub_FsObjectNum_def)
  qed
  moreover have "fi_obj s1 x = fi_obj ?s x" if "x \<in> ?X - a_dirs A" for x using that q(2) s1(3) by auto
  then have "blks_of s1 A ?X = blks_of ?s A ?X" by (simp add: blks_of_def)
  ultimately show ?thesis using q p2(4,5,8) s1(3) r(9)
    by (intro exI[of _ ?s'] exI[of _ q]) (simp add: sub_FsObjectNum_def)
qed

end
