(* ===== verification/Nn_File_System.thy ===== *)
theory Nn_File_System
  imports Nn_File_Remove
begin

text \<open>
  The abstract file system that the file index implements: a map from keys to entries, an entry being
  the inode, whether the file is still being created, and the keys of the children in the order in
  which they were added. The updates of \<open>nn_file_index.c\<close> refine the operations on this map.
\<close>

section \<open>Specification\<close>

record fs_entry =
  e_inode :: fi_inode
  e_creating :: bool
  e_entries :: "bytes list"

type_synonym file_system = "bytes \<rightharpoonup> fs_entry"

datatype fs_op = Mkdir fi_inode | Rmr fi_inode | Create fi_inode u64 | AddBlk fi_inode u64 | Close fi_inode | Rm fi_inode

definition fs_edit :: "bytes \<Rightarrow> (fs_entry \<Rightarrow> fs_entry) \<Rightarrow> file_system \<Rightarrow> file_system" where
  "fs_edit k f F = F(k := map_option f (F k))"

text \<open>Adding and taking away an entry of the parent directory, whose time of modification is set.\<close>

definition fs_link :: "u64 \<Rightarrow> bytes \<Rightarrow> file_system \<Rightarrow> file_system" where
  "fs_link t k F = (case parent_key_of k of None \<Rightarrow> F
     | Some pk \<Rightarrow> fs_edit pk (\<lambda>e. e\<lparr>e_inode := (e_inode e)\<lparr>i_mtime := t\<rparr>, e_entries := e_entries e @ [k]\<rparr>) F)"

definition fs_unlink :: "u64 \<Rightarrow> bytes \<Rightarrow> file_system \<Rightarrow> file_system" where
  "fs_unlink t k F = (case parent_key_of k of None \<Rightarrow> F
     | Some pk \<Rightarrow> fs_edit pk (\<lambda>e. e\<lparr>e_inode := (e_inode e)\<lparr>i_mtime := t\<rparr>,
         e_entries := filter (\<lambda>x. x \<noteq> k) (e_entries e)\<rparr>) F)"

definition fs_edges :: "file_system \<Rightarrow> (bytes \<times> bytes) set" where
  "fs_edges F = {(a, b). \<exists>e. F a = Some e \<and> b \<in> set (e_entries e)}"

definition fs_below :: "file_system \<Rightarrow> bytes \<Rightarrow> bytes set" where
  "fs_below F k = {x. (k, x) \<in> (fs_edges F)\<^sup>+}"

fun fs_spec :: "fs_op \<Rightarrow> file_system \<Rightarrow> file_system" where
  "fs_spec (Mkdir fin) F = fs_link (i_mtime fin) (i_key fin)
     (F(i_key fin \<mapsto> \<lparr>e_inode = fin, e_creating = False, e_entries = []\<rparr>))"
| "fs_spec (Rmr fin) F = fs_unlink (i_mtime fin) (i_key fin) (F |` (- insert (i_key fin) (fs_below F (i_key fin))))"
| "fs_spec (Create fin b) F = F(i_key fin \<mapsto>
     \<lparr>e_inode = fin\<lparr>i_blks := b # replicate (BLK_LIMIT - 1) (-1)\<rparr>, e_creating = True, e_entries = []\<rparr>)"
| "fs_spec (AddBlk fin b) F = fs_edit (i_key fin)
     (\<lambda>e. e\<lparr>e_inode := (e_inode e)\<lparr>i_blks := put_blk b (i_blks (e_inode e))\<rparr>\<rparr>) F"
| "fs_spec (Close fin) F = fs_link (i_mtime fin) (i_key fin) (fs_edit (i_key fin)
     (\<lambda>e. e\<lparr>e_creating := False, e_inode := (e_inode e)\<lparr>i_mtime := i_mtime fin, i_length := i_length fin,
        i_blk_replication := i_blk_replication fin\<rparr>\<rparr>) F)"
| "fs_spec (Rm fin) F = fs_unlink (i_mtime fin) (i_key fin) (F |` (- {i_key fin}))"

text \<open>The blocks that an operation deletes.\<close>

definition fs_blks :: "file_system \<Rightarrow> bytes set \<Rightarrow> u64 set" where
  "fs_blks F X = {b. b \<noteq> 0 \<and> (\<exists>k \<in> X. \<exists>e. F k = Some e \<and> \<not> i_is_directory (e_inode e) \<and> b \<in> set (i_blks (e_inode e)))}"

fun fs_gone :: "fs_op \<Rightarrow> file_system \<Rightarrow> u64 set" where
  "fs_gone (Rmr fin) F = fs_blks F (fs_below F (i_key fin))"
| "fs_gone (Rm fin) F = fs_blks F {i_key fin}"
| "fs_gone _ F = {}"

text \<open>
  When an operation is applicable: new keys are among the keys \<open>K\<close> that the table can tell apart and
  there is room, parents are directories that exist, files are closed once and removed when they are
  closed, and the root stays.
\<close>

definition fs_dir :: "file_system \<Rightarrow> bytes \<Rightarrow> bool" where
  "fs_dir F k \<longleftrightarrow> (\<exists>e. F k = Some e \<and> i_is_directory (e_inode e))"

definition fs_in_dir :: "file_system \<Rightarrow> bytes \<Rightarrow> bool" where
  "fs_in_dir F k \<longleftrightarrow> (\<exists>pk. parent_key_of k = Some pk \<and> fs_dir F pk)"

fun fs_pre :: "nat \<Rightarrow> bytes set \<Rightarrow> file_system \<Rightarrow> fs_op \<Rightarrow> bool" where
  "fs_pre cap K F (Mkdir fin) \<longleftrightarrow> i_key fin \<in> K \<and> F (i_key fin) = None \<and> card (dom F) < cap \<and> i_is_directory fin \<and>
     (is_root (get_store_path (i_key fin)) \<or> fs_in_dir F (i_key fin))"
| "fs_pre cap K F (Rmr fin) \<longleftrightarrow> fs_dir F (i_key fin) \<and> parent_key_of (i_key fin) \<noteq> None"
| "fs_pre cap K F (Create fin b) \<longleftrightarrow> i_key fin \<in> K \<and> F (i_key fin) = None \<and> card (dom F) < cap \<and> \<not> i_is_directory fin"
| "fs_pre cap K F (AddBlk fin b) \<longleftrightarrow> F (i_key fin) \<noteq> None"
| "fs_pre cap K F (Close fin) \<longleftrightarrow> (\<exists>e. F (i_key fin) = Some e \<and> e_creating e) \<and> fs_in_dir F (i_key fin)"
| "fs_pre cap K F (Rm fin) \<longleftrightarrow> (\<exists>e. F (i_key fin) = Some e \<and> \<not> e_creating e \<and> \<not> i_is_directory (e_inode e)) \<and>
     parent_key_of (i_key fin) \<noteq> None"

section \<open>Abstraction\<close>

definition fs_of :: "(nat \<Rightarrow> fi_store) \<Rightarrow> (bytes \<rightharpoonup> nat) \<Rightarrow> (nat \<Rightarrow> nat list) \<Rightarrow> file_system" where
  "fs_of dat m kids k = map_option (\<lambda>p. \<lparr>e_inode = fs_fin (dat p), e_creating = (fs_state (dat p) = KEY_STATE_CREATING),
     e_entries = map (\<lambda>c. i_key (fs_fin (dat c))) (kids p)\<rparr>) (m k)"

abbreviation fs_abs :: "fi_index \<Rightarrow> fi_abs \<Rightarrow> file_system" where
  "fs_abs s A \<equiv> fs_of (mb_data (fi_pool s)) (a_map A) (a_kids A)"

text \<open>The memory of a name node holds the file system \<open>F\<close>.\<close>

definition fs_repr :: "nat \<Rightarrow> bytes set \<Rightarrow> bytes set \<Rightarrow> nn_state \<Rightarrow> file_system \<Rightarrow> bool" where
  "fs_repr cap K ids s F \<longleftrightarrow> bd_ok ids (nn_bd s) \<and> (\<exists>A. fi_rel cap K (nn_fi s) A \<and> fs_abs (nn_fi s) A = F)"

text \<open>The update of the file index that executes an operation.\<close>

fun fs_exec :: "int \<Rightarrow> nat option \<Rightarrow> fs_op \<Rightarrow> nn_state \<Rightarrow> nn_state option" where
  "fs_exec now thread (Mkdir fin) s = map_option (\<lambda>fi. s\<lparr>nn_fi := fi\<rparr>) (update_fi_mkdir fin (nn_fi s))"
| "fs_exec now thread (Rmr fin) s = update_fi_rmr fin s"
| "fs_exec now thread (Create fin b) s = map_option (\<lambda>fi. s\<lparr>nn_fi := fi\<rparr>) (update_fi_create now thread fin b (nn_fi s))"
| "fs_exec now thread (AddBlk fin b) s = map_option (\<lambda>fi. s\<lparr>nn_fi := fi\<rparr>) (update_fi_get_additional_blk now fin b (nn_fi s))"
| "fs_exec now thread (Close fin) s = map_option (\<lambda>fi. s\<lparr>nn_fi := fi\<rparr>) (update_fi_close fin (nn_fi s))"
| "fs_exec now thread (Rm fin) s = update_fi_rm fin s"

lemma fs_of_Some: "fs_of dat m kids k = Some e \<longleftrightarrow> (\<exists>p. m k = Some p \<and> e = \<lparr>e_inode = fs_fin (dat p),
    e_creating = (fs_state (dat p) = KEY_STATE_CREATING), e_entries = map (\<lambda>c. i_key (fs_fin (dat c))) (kids p)\<rparr>)"
  by (auto simp: fs_of_def)

lemma fs_of_None [simp]: "fs_of dat m kids k = None \<longleftrightarrow> m k = None"
  by (simp add: fs_of_def)

lemma dom_fs_of [simp]: "dom (fs_of dat m kids) = dom m"
  by (auto simp: fs_of_def dom_def)

text \<open>A change of one record that keeps the key.\<close>

lemma fs_of_upd:
  assumes "m k = Some c" "\<And>k'. m k' = Some c \<Longrightarrow> k' = k" "i_key (fs_fin d) = i_key (fs_fin (dat c))"
  shows "fs_of (dat(c := d)) m (kids(c := ks)) = (fs_of dat m kids)(k \<mapsto> \<lparr>e_inode = fs_fin d,
    e_creating = (fs_state d = KEY_STATE_CREATING), e_entries = map (\<lambda>x. i_key (fs_fin (dat x))) ks\<rparr>)"
proof -
  let ?e = "\<lparr>e_inode = fs_fin d, e_creating = (fs_state d = KEY_STATE_CREATING), e_entries = map (\<lambda>x. i_key (fs_fin (dat x))) ks\<rparr>"
  have key: "map (\<lambda>x. i_key (fs_fin ((dat(c := d)) x))) xs = map (\<lambda>x. i_key (fs_fin (dat x))) xs" for xs
    using assms(3) by simp
  have "fs_of (dat(c := d)) m (kids(c := ks)) x = ((fs_of dat m kids)(k \<mapsto> ?e)) x" for x
  proof (cases "x = k \<or> m x = None")
    case False
    then obtain q where q: "m x = Some q" "x \<noteq> k" by blast
    then have "q \<noteq> c" using assms(2)[of x] by blast
    with q show ?thesis unfolding fs_of_def key by simp
  next
    case True
    then show ?thesis using assms(1) unfolding fs_of_def key by auto
  qed
  then show ?thesis ..
qed

lemma fs_of_edit:
  assumes "m k = Some c" "\<And>k'. m k' = Some c \<Longrightarrow> k' = k" "i_key (fs_fin d) = i_key (fs_fin (dat c))"
    and "\<And>es. f \<lparr>e_inode = fs_fin (dat c), e_creating = (fs_state (dat c) = KEY_STATE_CREATING), e_entries = es\<rparr> =
      \<lparr>e_inode = fs_fin d, e_creating = (fs_state d = KEY_STATE_CREATING), e_entries = es\<rparr>"
  shows "fs_of (dat(c := d)) m kids = fs_edit k f (fs_of dat m kids)"
proof -
  have "fs_of (dat(c := d)) m (kids(c := kids c)) = (fs_of dat m kids)(k \<mapsto> \<lparr>e_inode = fs_fin d,
      e_creating = (fs_state d = KEY_STATE_CREATING), e_entries = map (\<lambda>x. i_key (fs_fin (dat x))) (kids c)\<rparr>)"
    by (rule fs_of_upd[of m k c d dat kids "kids c", OF assms(1-3)])
  then show ?thesis using assms(1,4) by (simp add: fs_edit_def fs_of_def[of dat m kids k])
qed

lemma fs_of_link:
  assumes "m pk = Some q" "\<And>k'. m k' = Some q \<Longrightarrow> k' = pk" "i_key (fs_fin (dat c)) = k" "parent_key_of k = Some pk"
  shows "fs_of (link_data (Some q) t dat) m (kids(q := kids q @ [c])) = fs_link t k (fs_of dat m kids)"
  using fs_of_upd[of m pk q "(set_mtime t (dat q))\<lparr>fs_children_num := fs_children_num (dat q) + 1\<rparr>" dat kids "kids q @ [c]", OF assms(1,2)]
    assms(1,3,4) by (simp add: fs_link_def fs_edit_def fs_of_def)

text \<open>A new record.\<close>

lemma fs_of_new:
  assumes "p \<notin> ran m" "\<And>k q. m k = Some q \<Longrightarrow> p \<notin> set (kids q)"
  shows "fs_of (dat(p := d)) (m(k \<mapsto> p)) (kids(p := [])) = (fs_of dat m kids)(k \<mapsto> \<lparr>e_inode = fs_fin d,
    e_creating = (fs_state d = KEY_STATE_CREATING), e_entries = []\<rparr>)"
proof
  fix x show "fs_of (dat(p := d)) (m(k \<mapsto> p)) (kids(p := [])) x = ((fs_of dat m kids)(k \<mapsto> \<lparr>e_inode = fs_fin d,
    e_creating = (fs_state d = KEY_STATE_CREATING), e_entries = []\<rparr>)) x"
  proof (cases "x = k \<or> m x = None")
    case False
    then obtain q where q: "m x = Some q" "x \<noteq> k" by blast
    then have "q \<noteq> p" "map (\<lambda>c. i_key (fs_fin ((dat(p := d)) c))) (kids q) = map (\<lambda>c. i_key (fs_fin (dat c))) (kids q)"
      using assms by (auto simp: ran_def)
    with q show ?thesis by (simp add: fs_of_def)
  qed (auto simp: fs_of_def)
qed

section \<open>Refinement\<close>

lemma rel_inj: "fi_rel cap K s A \<Longrightarrow> a_map A k = Some p \<Longrightarrow> a_map A k' = Some p \<Longrightarrow> k' = k"
  using map_inj[OF rel_tab] by metis

lemma rel_kids: "fi_rel cap K s A \<Longrightarrow> a_map A k = Some q \<Longrightarrow> set (a_kids A q) \<subseteq> a_live A"
  using fi_kid[OF rel_tree] fi_no_kids[OF rel_tree] by (cases "q \<in> a_dirs A") auto

lemma fs_dir_abs: "fi_rel cap K s A \<Longrightarrow> fs_dir (fs_abs s A) k \<longleftrightarrow> (\<exists>p \<in> a_dirs A. a_map A k = Some p)"
  using fi_is_dir[OF rel_tree] in_live[of A k] by (fastforce simp: fs_dir_def fs_of_Some)

lemma card_dom_abs: "fi_rel cap K s A \<Longrightarrow> card (dom (fs_abs s A)) = card (a_live A)"
  using ht_rep_card_ran[OF fi_ht[OF rel_tab]] by simp

lemma fs_in_dir_place:
  assumes "fi_rel cap K s A" "fs_in_dir (fs_abs s A) k"
  obtains q where "a_place A k (Some q)"
  using assms fs_dir_abs[OF assms(1)] by (auto simp: fs_in_dir_def)

lemma fs_of_place:
  assumes rel: "fi_rel cap K s A" and pl: "a_place A k q" and m: "m k = Some c" "\<And>k'. k' \<noteq> k \<Longrightarrow> m k' = a_map A k'"
    "\<And>p. q = Some p \<Longrightarrow> p \<noteq> c" and key: "i_key (fs_fin (dat c)) = k"
  shows "fs_of (link_data q t dat) m (case q of None \<Rightarrow> kids | Some p \<Rightarrow> kids(p := kids p @ [c])) = fs_link t k (fs_of dat m kids)"
proof (cases q)
  case None
  then show ?thesis using pl place_root[of A k] by (simp add: fs_link_def)
next
  case (Some p)
  with pl obtain pk where pk: "parent_key_of k = Some pk" "a_map A pk = Some p" by auto
  have "pk \<noteq> k" using parent_key_shorter[OF pk(1)] by auto
  then have "m pk = Some p" using m(2) pk(2) by simp
  moreover have "k' = pk" if k': "m k' = Some p" for k'
  proof -
    have "k' \<noteq> k" using k' m(1) m(3)[OF Some] by auto
    then have "a_map A k' = Some p" using m(2) k' by simp
    then show ?thesis by (rule rel_inj[OF rel pk(2)])
  qed
  ultimately have "fs_of (link_data (Some p) t dat) m (kids(p := kids p @ [c])) = fs_link t k (fs_of dat m kids)"
    using key pk(1) by (rule fs_of_link)
  then show ?thesis by (simp only: Some option.simps)
qed

lemma mkdir_refines:
  assumes rel: "fi_rel cap K s A" and pre: "fs_pre cap K (fs_abs s A) (Mkdir fin)"
  shows "\<exists>s' A'. update_fi_mkdir fin s = Some s' \<and> fi_rel cap K s' A' \<and> fs_abs s' A' = fs_spec (Mkdir fin) (fs_abs s A)"
proof -
  let ?k = "i_key fin"
  have "\<exists>q. a_place A ?k q"
    using pre fs_in_dir_place[OF rel, of ?k] by (metis a_place.simps(1) fs_pre.simps(1))
  then obtain q where pl: "a_place A ?k q" ..
  from mkdir_ok[OF rel _ _ _ _ pl] pre card_dom_abs[OF rel] obtain s' p where
    m: "update_fi_mkdir fin s = Some s'" "p \<notin> a_live A" "fi_rel cap K s' (a_mkdir ?k p q A)"
      "mb_data (fi_pool s') = link_data q (i_mtime fin) ((mb_data (fi_pool s))(p := fi_store0\<lparr>fs_fin := fin\<rparr>))" by auto
  have kids: "a_kids (a_mkdir ?k p q A) =
      (case q of None \<Rightarrow> (a_kids A)(p := []) | Some r \<Rightarrow> ((a_kids A)(p := []))(r := ((a_kids A)(p := [])) r @ [p]))"
    by (cases q) (simp_all add: a_mkdir_def a_new_def)
  have qp: "r \<noteq> p" if "q = Some r" for r using pl m(2) that in_live[of A] by auto
  have out: "p \<notin> set (a_kids A x)" if "a_map A k = Some x" for k x using rel_kids[OF rel that] m(2) by blast
  have new: "fs_of ((mb_data (fi_pool s))(p := fi_store0\<lparr>fs_fin := fin\<rparr>)) ((a_map A)(?k \<mapsto> p)) ((a_kids A)(p := [])) =
      (fs_abs s A)(?k \<mapsto> \<lparr>e_inode = fin, e_creating = False, e_entries = []\<rparr>)"
    using fs_of_new[of p "a_map A" "a_kids A", OF m(2) out] by (simp add: fi_store0_def dfs_code)
  have map: "a_map (a_mkdir ?k p q A) = (a_map A)(?k \<mapsto> p)" by (simp add: a_mkdir_def)
  have "fs_abs s' (a_mkdir ?k p q A) = fs_link (i_mtime fin) ?k (fs_of ((mb_data (fi_pool s))(p := fi_store0\<lparr>fs_fin := fin\<rparr>))
      ((a_map A)(?k \<mapsto> p)) ((a_kids A)(p := [])))"
    unfolding m(4) kids map by (rule fs_of_place[OF rel pl]) (use qp in simp_all)
  then have "fs_abs s' (a_mkdir ?k p q A) = fs_spec (Mkdir fin) (fs_abs s A)" by (simp only: new fs_spec.simps)
  then show ?thesis using m(1,3) by blast
qed

lemma create_refines:
  assumes rel: "fi_rel cap K s A" and pre: "fs_pre cap K (fs_abs s A) (Create fin b)"
  shows "\<exists>s' A'. update_fi_create now thread fin b s = Some s' \<and> fi_rel cap K s' A' \<and>
    fs_abs s' A' = fs_spec (Create fin b) (fs_abs s A)"
proof -
  from create_ok[OF rel, of fin now thread b] pre card_dom_abs[OF rel] obtain s' p where
    m: "update_fi_create now thread fin b s = Some s'" "p \<notin> a_live A" "fi_rel cap K s' (a_new (i_key fin) p False A)"
      "mb_data (fi_pool s') = (mb_data (fi_pool s))(p := arm now thread (new_file fin b))" by auto
  have out: "p \<notin> set (a_kids A x)" if "a_map A k = Some x" for k x using rel_kids[OF rel that] m(2) by blast
  have "fs_abs s' (a_new (i_key fin) p False A) = fs_spec (Create fin b) (fs_abs s A)"
    using fs_of_new[of p "a_map A" "a_kids A", OF m(2) out] by (simp add: m(4) a_new_def new_file_def)
  then show ?thesis using m(1,3) by blast
qed

lemma addblk_refines:
  assumes rel: "fi_rel cap K s A" and pre: "fs_pre cap K (fs_abs s A) (AddBlk fin b)"
  shows "\<exists>s'. update_fi_get_additional_blk now fin b s = Some s' \<and> fi_rel cap K s' A \<and>
    fs_abs s' A = fs_spec (AddBlk fin b) (fs_abs s A)"
proof -
  from pre obtain c where c: "a_map A (i_key fin) = Some c" by auto
  from additional_blk_ok[OF rel c, of now b] obtain s' where
    m: "update_fi_get_additional_blk now fin b s = Some s'" "fi_rel cap K s' A"
      "mb_data (fi_pool s') = (mb_data (fi_pool s))(c := arm now (fs_thread (fi_obj s c)) ((fi_obj s c)\<lparr>fs_fin :=
        (fs_fin (fi_obj s c))\<lparr>i_blks := put_blk b (i_blks (fs_fin (fi_obj s c)))\<rparr>\<rparr>))" (is "_ = _(c := ?d)") by blast
  have "fs_of ((mb_data (fi_pool s))(c := ?d)) (a_map A) (a_kids A) = fs_spec (AddBlk fin b) (fs_abs s A)"
    unfolding fs_spec.simps by (rule fs_of_edit[of "a_map A", OF c rel_inj[OF rel c]]) simp_all
  then show ?thesis using m by auto
qed

lemma close_refines:
  assumes rel: "fi_rel cap K s A" and pre: "fs_pre cap K (fs_abs s A) (Close fin)"
  shows "\<exists>s' A'. update_fi_close fin s = Some s' \<and> fi_rel cap K s' A' \<and> fs_abs s' A' = fs_spec (Close fin) (fs_abs s A)"
proof -
  let ?k = "i_key fin"
  from pre obtain c where c: "a_map A ?k = Some c" "fs_state (fi_obj s c) = KEY_STATE_CREATING" by (auto simp: fs_of_Some)
  from pre obtain q where pl: "a_place A ?k (Some q)" using fs_in_dir_place[OF rel, of ?k] by auto
  let ?d = "closed fin (fi_obj s c)" and ?dat = "mb_data (fi_pool s)"
  from close_ok[OF rel c pl] obtain s' where
    m: "update_fi_close fin s = Some s'" "fi_rel cap K s' ((a_link (Some q) c A)\<lparr>a_ckp := a_ckp A @ [c]\<rparr>)"
      "mb_data (fi_pool s') = link_data (Some q) (i_mtime fin) (?dat(c := ?d))" by blast
  have qc: "q \<noteq> c"
    using pl rel_state[OF rel] in_live[OF c(1)] c(2) by (auto simp: fi_state_def)
  have e: "fs_of (?dat(c := ?d)) (a_map A) (a_kids A) =
      fs_edit ?k (\<lambda>e. e\<lparr>e_creating := False, e_inode := (e_inode e)\<lparr>i_mtime := i_mtime fin, i_length := i_length fin,
        i_blk_replication := i_blk_replication fin\<rparr>\<rparr>) (fs_abs s A)"
    by (rule fs_of_edit[of "a_map A", OF c(1) rel_inj[OF rel c(1)]]) (simp_all add: closed_def dfs_code)
  have A': "a_map ((a_link (Some q) c A)\<lparr>a_ckp := a_ckp A @ [c]\<rparr>) = a_map A"
    "a_kids ((a_link (Some q) c A)\<lparr>a_ckp := a_ckp A @ [c]\<rparr>) = (a_kids A)(q := a_kids A q @ [c])" by simp_all
  have key: "i_key (fs_fin ((?dat(c := ?d)) c)) = ?k" using fi_key[OF rel_tab[OF rel] c(1)] by (simp add: closed_def)
  have "fs_of (link_data (Some q) (i_mtime fin) (?dat(c := ?d))) (a_map A)
      (case Some q of None \<Rightarrow> a_kids A | Some p \<Rightarrow> (a_kids A)(p := a_kids A p @ [c])) =
      fs_link (i_mtime fin) ?k (fs_of (?dat(c := ?d)) (a_map A) (a_kids A))"
    by (rule fs_of_place[of cap K s A ?k "Some q" "a_map A" c "?dat(c := ?d)", OF rel pl c(1) _ _ key]) (use qc in simp_all)
  then have "fs_abs s' ((a_link (Some q) c A)\<lparr>a_ckp := a_ckp A @ [c]\<rparr>) = fs_spec (Close fin) (fs_abs s A)"
    by (simp only: m(3) e fs_spec.simps option.simps A')
  then show ?thesis using m(1,2) by blast
qed

subsection \<open>Removals\<close>

lemma okey_image:
  assumes tab: "fi_table cap K s A" and X: "X \<subseteq> a_live A" and x: "a_map A x = Some p"
  shows "x \<in> okey s ` X \<longleftrightarrow> p \<in> X"
proof
  assume "x \<in> okey s ` X"
  then obtain p' where p': "p' \<in> X" "x = okey s p'" by blast
  then have "a_map A x = Some p'" using X a_live_iff[OF tab, of p'] by auto
  with x p' show "p \<in> X" by simp
next
  assume "p \<in> X"
  then show "x \<in> okey s ` X" using fi_key[OF tab x] by blast
qed

lemma prune_entries:
  assumes rel: "fi_rel cap K s A" and k: "a_map A k = Some c" "a_map A pk = Some q" and X: "set (a_kids A q) \<inter> X = {c}"
  shows "map (okey s) (filter (\<lambda>x. x \<notin> X) (a_kids A q)) = filter (\<lambda>x. x \<noteq> k) (map (okey s) (a_kids A q))"
proof -
  note tab = rel_tab[OF rel]
  have "x \<notin> X \<longleftrightarrow> okey s x \<noteq> k" if x: "x \<in> set (a_kids A q)" for x
  proof -
    have "x \<in> a_live A" using rel_kids[OF rel k(2)] x by auto
    then have "a_map A (okey s x) = Some x" using a_live_iff[OF tab] by blast
    then have "okey s x = k \<longleftrightarrow> x = c" using k(1) fi_key[OF tab k(1)] by (metis option.inject)
    moreover have "x \<in> X \<longleftrightarrow> x = c" using X x by blast
    ultimately show ?thesis by simp
  qed
  then show ?thesis by (simp add: filter_map o_def cong: filter_cong)
qed

lemma fs_of_prune:
  assumes rel: "fi_rel cap K s A" and k: "a_map A k = Some c" "parent_key_of k = Some pk" "a_map A pk = Some q"
    and X: "set (a_kids A q) \<inter> X = {c}" "q \<notin> X" "X \<subseteq> a_live A" "\<And>p. p \<in> a_live A - X \<Longrightarrow> p \<noteq> q \<Longrightarrow> set (a_kids A p) \<inter> X = {}"
  shows "fs_of (unlink_data q t (mb_data (fi_pool s))) (a_map (a_prune X A)) (a_kids (a_prune X A)) =
    fs_unlink t k (fs_abs s A |` (- okey s ` X))"
proof -
  let ?dat = "mb_data (fi_pool s)"
  have keys: "map (\<lambda>c. i_key (fs_fin (unlink_data q t ?dat c))) xs = map (okey s) xs" for xs by simp
  note inY = okey_image[OF rel_tab[OF rel] X(3)] and ents = prune_entries[OF rel k(1,3) X(1)]
  have "fs_of (unlink_data q t ?dat) (a_map (a_prune X A)) (a_kids (a_prune X A)) x = fs_unlink t k (fs_abs s A |` (- okey s ` X)) x" for x
  proof (cases "a_map A x")
    case None
    then show ?thesis using k by (auto simp: fs_of_def fs_unlink_def fs_edit_def restrict_map_def)
  next
    case (Some p)
    consider "p \<in> X" | "p = q" | "p \<notin> X" "p \<noteq> q" by blast
    then show ?thesis
    proof cases
      case 1
      then have "x \<noteq> pk" using Some k(3) X(2) by auto
      then show ?thesis using Some 1 inY[OF Some] k(2) by (simp add: fs_of_def fs_unlink_def fs_edit_def)
    next
      case 2
      then have "x = pk" using Some k(3) rel_inj[OF rel] by blast
      then show ?thesis using k(2,3) X(2) inY[OF k(3)] ents unfolding fs_of_def keys by (simp add: fs_unlink_def fs_edit_def)
    next
      case 3
      then have "x \<noteq> pk" using Some k(3) by auto
      moreover have "filter (\<lambda>x. x \<notin> X) (a_kids A p) = a_kids A p"
        using X(4)[of p] in_live[OF Some] 3 by (intro filter_True) auto
      ultimately show ?thesis using Some 3 inY[OF Some] k(2) unfolding fs_of_def keys by (simp add: fs_unlink_def fs_edit_def)
    qed
  qed
  then show ?thesis ..
qed

text \<open>What is below a directory.\<close>

lemma fs_edges_abs:
  assumes rel: "fi_rel cap K s A" and p: "p \<in> a_live A"
  shows "(okey s p, x) \<in> fs_edges (fs_abs s A) \<longleftrightarrow> (\<exists>c. (p, c) \<in> a_edges A \<and> x = okey s c)"
proof -
  have "a_map A (okey s p) = Some p" using a_live_iff[OF rel_tab[OF rel]] p by blast
  then have "(okey s p, x) \<in> fs_edges (fs_abs s A) \<longleftrightarrow> x \<in> okey s ` set (a_kids A p)"
    by (auto simp: fs_edges_def fs_of_def)
  moreover have "(p, c) \<in> a_edges A \<longleftrightarrow> c \<in> set (a_kids A p)" for c
    using fi_no_kids[OF rel_tree[OF rel], of p] by (cases "p \<in> a_dirs A") (auto simp: a_edges_def)
  ultimately show ?thesis by (auto simp only: image_iff)
qed

lemma desc_live:
  assumes "fi_rel cap K s A" "x \<in> a_desc A p"
  shows "x \<in> a_live A"
proof -
  have "(p, x) \<in> (a_edges A)\<^sup>+" using assms(2) by (simp add: a_desc_def)
  then obtain y where "(y, x) \<in> a_edges A" by cases
  then show ?thesis using fi_kid[OF rel_tree[OF assms(1)]] by (auto simp: a_edges_def)
qed

lemma fs_below_abs:
  assumes rel: "fi_rel cap K s A" and k: "a_map A k = Some c"
  shows "fs_below (fs_abs s A) k = okey s ` a_desc A c"
proof -
  have ck: "okey s c = k" and cl: "c \<in> a_live A" using fi_key[OF rel_tab[OF rel] k] in_live[OF k] by auto
  have "\<exists>y. y \<in> a_desc A c \<and> x = okey s y" if "(k, x) \<in> (fs_edges (fs_abs s A))\<^sup>+" for x
    using that
  proof (induction rule: trancl_induct)
    case (base y)
    then show ?case using fs_edges_abs[OF rel cl] ck by (auto simp: a_desc_def)
  next
    case (step y z)
    then obtain v where v: "v \<in> a_desc A c" "y = okey s v" by blast
    then show ?case using step(2) fs_edges_abs[OF rel desc_live[OF rel v(1)]]
      by (auto simp: a_desc_def intro: trancl_into_trancl)
  qed
  moreover have "(k, okey s y) \<in> (fs_edges (fs_abs s A))\<^sup>+" if "(c, y) \<in> (a_edges A)\<^sup>+" for y
    using that
  proof (induction rule: trancl_induct)
    case (base y)
    then show ?case using fs_edges_abs[OF rel cl] ck by blast
  next
    case (step y z)
    have "y \<in> a_live A" using desc_live[OF rel, of y c] step(1) by (simp add: a_desc_def)
    then have "(okey s y, okey s z) \<in> fs_edges (fs_abs s A)" using fs_edges_abs[OF rel] step(2) by blast
    with step(3) show ?case by (rule trancl_into_trancl)
  qed
  ultimately show ?thesis by (auto simp: fs_below_def a_desc_def)
qed

lemma fs_blks_abs:
  assumes rel: "fi_rel cap K s A" and X: "X \<subseteq> a_live A"
  shows "fs_blks (fs_abs s A) (okey s ` X) = blks_of s A X"
proof -
  have "a_map A (okey s x) = Some x" if "x \<in> X" for x using that X a_live_iff[OF rel_tab[OF rel], of x] by blast
  moreover have "i_is_directory (fs_fin (fi_obj s x)) \<longleftrightarrow> x \<in> a_dirs A" if "x \<in> X" for x
    using that X fi_is_dir[OF rel_tree[OF rel]] by blast
  ultimately show ?thesis by (auto simp: fs_blks_def blks_of_def fs_of_def)
qed

lemma kid_dir: "fi_tree D s A \<Longrightarrow> x \<in> set (a_kids A p) \<Longrightarrow> p \<in> a_dirs A"
  using fi_no_kids[of D s A p] by (cases "p \<in> a_dirs A") auto

lemma one_parent: "fi_tree D s A \<Longrightarrow> x \<in> set (a_kids A p) \<Longrightarrow> x \<in> set (a_kids A q) \<Longrightarrow> p = q"
  using kids_unique kid_dir by blast

lemma rm_refines:
  assumes rel: "fi_rel cap K (nn_fi s) A" and bd: "bd_ok ids (nn_bd s)" and pre: "fs_pre cap K (fs_abs (nn_fi s) A) (Rm fin)"
  shows "\<exists>s' A'. update_fi_rm fin s = Some s' \<and> fi_rel cap K (nn_fi s') A' \<and> bd_ok ids (nn_bd s') \<and>
    fs_abs (nn_fi s') A' = fs_spec (Rm fin) (fs_abs (nn_fi s) A) \<and>
    (\<forall>b. blk_known (nn_bd s') b \<longleftrightarrow> blk_known (nn_bd s) b \<and> b \<notin> fs_gone (Rm fin) (fs_abs (nn_fi s) A))"
proof -
  let ?s = "nn_fi s" and ?k = "i_key fin"
  note tab = rel_tab[OF rel] and tree = rel_tree[OF rel]
  from pre obtain c pk where c: "a_map A ?k = Some c" "parent_key_of ?k = Some pk"
      "fs_state (fi_obj ?s c) \<noteq> KEY_STATE_CREATING" "\<not> i_is_directory (fs_fin (fi_obj ?s c))" by (auto simp: fs_of_Some)
  have live: "c \<in> a_live A" and key: "okey ?s c = ?k" using in_live[OF c(1)] fi_key[OF tab c(1)] by auto
  have ok: "c \<in> set (a_ckp A)" "c \<notin> a_dirs A"
    using rel_state[OF rel] c(3,4) live fi_is_dir[OF tree] by (auto simp: fi_state_def)
  from rm_ok[OF rel bd c(1,2) ok] obtain s' q where
    m: "update_fi_rm fin s = Some s'" "a_map A pk = Some q" "c \<in> set (a_kids A q)" "fi_rel cap K (nn_fi s') (a_prune {c} A)"
      "mb_data (fi_pool (nn_fi s')) = unlink_data q (i_mtime fin) (mb_data (fi_pool (nn_fi s)))" "bd_ok ids (nn_bd s')"
      "\<forall>b. blk_known (nn_bd s') b \<longleftrightarrow> blk_known (nn_bd s) b \<and> b \<notin> blks_of ?s A {c}" by blast
  have qc: "q \<notin> {c}" using kid_dir[OF tree m(3)] ok(2) by auto
  have "fs_abs (nn_fi s') (a_prune {c} A) = fs_unlink (i_mtime fin) ?k (fs_abs ?s A |` (- okey ?s ` {c}))"
    unfolding m(5)
  proof (rule fs_of_prune[OF rel c(1,2) m(2) _ qc])
    show "set (a_kids A q) \<inter> {c} = {c}" "{c} \<subseteq> a_live A" using m(3) live by simp_all
    show "set (a_kids A p) \<inter> {c} = {}" if "p \<noteq> q" for p using one_parent[OF tree _ m(3)] that by blast
  qed
  then have "fs_abs (nn_fi s') (a_prune {c} A) = fs_spec (Rm fin) (fs_abs ?s A)" by (simp add: key)
  moreover have "fs_gone (Rm fin) (fs_abs ?s A) = blks_of ?s A {c}" using fs_blks_abs[OF rel, of "{c}"] live by (simp add: key)
  ultimately show ?thesis using m(1,4,6,7) by auto
qed

lemma rmr_refines:
  assumes rel: "fi_rel cap K (nn_fi s) A" and bd: "bd_ok ids (nn_bd s)" and pre: "fs_pre cap K (fs_abs (nn_fi s) A) (Rmr fin)"
  shows "\<exists>s' A'. update_fi_rmr fin s = Some s' \<and> fi_rel cap K (nn_fi s') A' \<and> bd_ok ids (nn_bd s') \<and>
    fs_abs (nn_fi s') A' = fs_spec (Rmr fin) (fs_abs (nn_fi s) A) \<and>
    (\<forall>b. blk_known (nn_bd s') b \<longleftrightarrow> blk_known (nn_bd s) b \<and> b \<notin> fs_gone (Rmr fin) (fs_abs (nn_fi s) A))"
proof -
  let ?s = "nn_fi s" and ?k = "i_key fin"
  note tab = rel_tab[OF rel] and tree = rel_tree[OF rel]
  from pre obtain c pk where c: "a_map A ?k = Some c" "parent_key_of ?k = Some pk" "c \<in> a_dirs A"
    using fs_dir_abs[OF rel] by auto
  let ?X = "a_desc A c"
  have live: "c \<in> a_live A" "?X \<subseteq> a_live A" and key: "okey ?s c = ?k"
    using in_live[OF c(1)] fi_key[OF tab c(1)] desc_live[OF rel] by auto
  from rmr_ok[OF rel bd c] obtain s' q where
    m: "update_fi_rmr fin s = Some s'" "a_map A pk = Some q" "c \<in> set (a_kids A q)" "fi_rel cap K (nn_fi s') (a_prune (insert c ?X) A)"
      "mb_data (fi_pool (nn_fi s')) = unlink_data q (i_mtime fin) (mb_data (fi_pool (nn_fi s)))" "bd_ok ids (nn_bd s')"
      "\<forall>b. blk_known (nn_bd s') b \<longleftrightarrow> blk_known (nn_bd s) b \<and> b \<notin> blks_of ?s A ?X" by blast
  have up: "p = c \<or> p \<in> ?X" if "x \<in> ?X" "x \<in> set (a_kids A p)" for p x
  proof -
    from that(1) obtain y where y: "(y, x) \<in> a_edges A" "y = c \<or> y \<in> ?X" by (auto simp: a_desc_def elim: tranclE)
    then have "p = y" using one_parent[OF tree that(2)] by (simp add: a_edges_def)
    with y(2) show ?thesis by simp
  qed
  have rk: "rank ?s q < rank ?s c" using edge_rank[OF tree] kid_dir[OF tree m(3)] m(3) by (simp add: a_edges_def)
  then have qX: "q \<notin> insert c ?X" using desc_rank[OF tree, of q c] by auto
  have "fs_abs (nn_fi s') (a_prune (insert c ?X) A) = fs_unlink (i_mtime fin) ?k (fs_abs ?s A |` (- okey ?s ` insert c ?X))"
    unfolding m(5)
  proof (rule fs_of_prune[OF rel c(1,2) m(2) _ qX])
    show "set (a_kids A q) \<inter> insert c ?X = {c}" using m(3) up[of _ q] qX by blast
    show "insert c ?X \<subseteq> a_live A" using live by simp
    show "set (a_kids A p) \<inter> insert c ?X = {}" if "p \<in> a_live A - insert c ?X" "p \<noteq> q" for p
      using that one_parent[OF tree _ m(3)] up[of _ p] by blast
  qed
  then have "fs_abs (nn_fi s') (a_prune (insert c ?X) A) = fs_spec (Rmr fin) (fs_abs ?s A)"
    by (simp add: key fs_below_abs[OF rel c(1)])
  moreover have "fs_gone (Rmr fin) (fs_abs ?s A) = blks_of ?s A ?X"
    using fs_blks_abs[OF rel live(2)] by (simp add: fs_below_abs[OF rel c(1)])
  ultimately show ?thesis using m(1,4,6,7) by auto
qed

text \<open>One step of the refinement.\<close>

lemma fs_exec_refines:
  assumes rep: "fs_repr cap K ids s F" and pre: "fs_pre cap K F op"
  shows "\<exists>s'. fs_exec now thread op s = Some s' \<and> fs_repr cap K ids s' (fs_spec op F) \<and>
    (\<forall>b. blk_known (nn_bd s') b \<longleftrightarrow> blk_known (nn_bd s) b \<and> b \<notin> fs_gone op F)"
proof -
  from rep obtain A where A: "bd_ok ids (nn_bd s)" "fi_rel cap K (nn_fi s) A" "F = fs_abs (nn_fi s) A"
    by (auto simp: fs_repr_def)
  show ?thesis
  proof (cases op)
    case (Mkdir fin)
    from mkdir_refines[OF A(2)] pre A(3) Mkdir obtain s' A' where
      "update_fi_mkdir fin (nn_fi s) = Some s'" "fi_rel cap K s' A'" "fs_abs s' A' = fs_spec op F" by blast
    then show ?thesis using A(1) Mkdir by (auto simp: fs_repr_def)
  next
    case (Create fin b)
    from create_refines[OF A(2)] pre A(3) Create obtain s' A' where
      "update_fi_create now thread fin b (nn_fi s) = Some s'" "fi_rel cap K s' A'" "fs_abs s' A' = fs_spec op F" by blast
    then show ?thesis using A(1) Create by (auto simp: fs_repr_def)
  next
    case (AddBlk fin b)
    from addblk_refines[OF A(2)] pre A(3) AddBlk obtain s' where
      "update_fi_get_additional_blk now fin b (nn_fi s) = Some s'" "fi_rel cap K s' A" "fs_abs s' A = fs_spec op F" by blast
    then show ?thesis using A(1) AddBlk by (auto simp: fs_repr_def)
  next
    case (Close fin)
    from close_refines[OF A(2)] pre A(3) Close obtain s' A' where
      "update_fi_close fin (nn_fi s) = Some s'" "fi_rel cap K s' A'" "fs_abs s' A' = fs_spec op F" by blast
    then show ?thesis using A(1) Close by (auto simp: fs_repr_def)
  next
    case (Rm fin)
    from rm_refines[OF A(2,1)] pre A(3) Rm obtain s' A' where
      "update_fi_rm fin s = Some s'" "fi_rel cap K (nn_fi s') A'" "bd_ok ids (nn_bd s')" "fs_abs (nn_fi s') A' = fs_spec op F"
      "\<forall>b. blk_known (nn_bd s') b \<longleftrightarrow> blk_known (nn_bd s) b \<and> b \<notin> fs_gone op F" by blast
    then show ?thesis using Rm by (auto simp: fs_repr_def)
  next
    case (Rmr fin)
    from rmr_refines[OF A(2,1)] pre A(3) Rmr obtain s' A' where
      "update_fi_rmr fin s = Some s'" "fi_rel cap K (nn_fi s') A'" "bd_ok ids (nn_bd s')" "fs_abs (nn_fi s') A' = fs_spec op F"
      "\<forall>b. blk_known (nn_bd s') b \<longleftrightarrow> blk_known (nn_bd s) b \<and> b \<notin> fs_gone op F" by blast
    then show ?thesis using Rmr by (auto simp: fs_repr_def)
  qed
qed

end
