(* ===== verification/Nn_Paxos.thy ===== *)
theory Nn_Paxos
  imports Nn_File_System
begin

text \<open>
  The paxos front end of the name node (\<open>src/src/namenode/nn_paxos.c\<close>) and the edit log behind it
  (\<open>src/src/paxos/FSEditlog.cpp\<close>, \<open>EditlogSM.cpp\<close>): the handlers that check a request, propose the
  records of its operation to the paxos group and answer. The paxos library is a parameter: whether
  this member is the master of a group, which node is, and what a proposal does; it is handed the
  state machine, which it may run on the record.
\<close>

section \<open>The environment of a handler\<close>

record paxos =
  px_IsIMMaster :: "nat \<Rightarrow> bool"
  px_GetMaster :: "nat \<Rightarrow> int"
  px_Propose :: "nat \<Rightarrow> bytes \<Rightarrow> (u64 \<Rightarrow> nn_state \<Rightarrow> nn_state option) \<Rightarrow> nn_state \<Rightarrow> (int \<times> nn_state) option"

text \<open>
  The configuration, the clock, the local thread, and what the stack held where \<open>log_mkdir\<close> and
  \<open>log_create\<close> keep their array of inode pointers, which they do not initialise.
\<close>

record nn_env =
  e_paxos :: paxos
  e_wire :: wire
  e_group_count :: nat
  e_admin :: bytes
  e_namespace_id :: u64
  e_index_num :: nat
  e_checkpoint_num :: u32
  e_time :: u64
  e_thread :: nat
  e_stack :: "nat \<Rightarrow> nat option"

text \<open>The state of the name node, the counter of logged operations and the checkpoints started.\<close>

record px_state =
  px_nn :: nn_state
  g_edit_op_num :: u32
  px_checkpoints :: nat

section \<open>The edit log\<close>

text \<open>The group of a key; the characters are signed.\<close>

definition GetGroupIdx :: "nat \<Rightarrow> bytes \<Rightarrow> nat option" where
  "GetGroupIdx m_iGroupCount sKey =
     (let iHashNum = fold (\<lambda>c h. h * 7 + scast c) sKey (0 :: u32)
      in if m_iGroupCount = 0 then None else Some (unat iHashNum mod m_iGroupCount))"

definition IsIMMaster :: "nn_env \<Rightarrow> bytes \<Rightarrow> bool option" where
  "IsIMMaster env sKey = do {
     iGroupIdx \<leftarrow> GetGroupIdx (e_group_count env) sKey;
     Some (px_IsIMMaster (e_paxos env) iGroupIdx) }"

definition GetMaster :: "nn_env \<Rightarrow> bytes \<Rightarrow> int option" where
  "GetMaster env sKey = do {
     iGroupIdx \<leftarrow> GetGroupIdx (e_group_count env) sKey;
     Some (px_GetMaster (e_paxos env) iGroupIdx) }"

text \<open>The state machine: \<open>data\<close> is what the context of the proposal carries, if there is one.\<close>

definition Execute :: "wire \<Rightarrow> int \<Rightarrow> nat option \<Rightarrow> bytes \<Rightarrow> u64 \<Rightarrow> nn_state \<Rightarrow> nn_state option" where
  "Execute w now data sPaxosValue llInstanceID s = do {
     (_, s) \<leftarrow> update_fi_cache_mgmt w now llInstanceID sPaxosValue data s;
     Some s }"

definition Propose :: "nn_env \<Rightarrow> bytes \<Rightarrow> bytes \<Rightarrow> nat option \<Rightarrow> nn_state \<Rightarrow> (int \<times> nn_state) option" where
  "Propose env sKey sPaxosValue data s = do {
     iGroupIdx \<leftarrow> GetGroupIdx (e_group_count env) sKey;
     px_Propose (e_paxos env) iGroupIdx sPaxosValue (Execute (e_wire env) (uint (e_time env)) data sPaxosValue) s }"

text \<open>The result of a proposal is not looked at.\<close>

definition propose_log :: "nn_env \<Rightarrow> bytes \<Rightarrow> LogOperator \<Rightarrow> nat option \<Rightarrow> px_state \<Rightarrow> px_state option" where
  "propose_log env sKey lopr data st = do {
     (_, s) \<leftarrow> Propose env sKey (LogOperator_SerializeToString (e_wire env) lopr) data (px_nn st);
     Some (st\<lparr>px_nn := s\<rparr>) }"

definition inc_edit_op_num :: "nn_env \<Rightarrow> px_state \<Rightarrow> px_state" where
  "inc_edit_op_num env st =
     (let n = g_edit_op_num st + 1
      in if n = e_checkpoint_num env then st\<lparr>g_edit_op_num := 0, px_checkpoints := px_checkpoints st + 1\<rparr>
         else st\<lparr>g_edit_op_num := n\<rparr>)"

section \<open>Checks\<close>

definition redirect :: "nn_env \<Rightarrow> task \<Rightarrow> px_state \<Rightarrow> (task \<times> px_state) option" where
  "redirect env task st = do {
     node \<leftarrow> GetMaster env (t_key task);
     Some (task\<lparr>t_ret := MASTER_REDIRECT, t_master_nodeid := node\<rparr>, st) }"

text \<open>
  The array of inode pointers after \<open>get_path_inodes\<close> filled its first slots: the other slots hold
  what the stack held.
\<close>

definition finodes_of :: "nn_env \<Rightarrow> nat list \<Rightarrow> nat \<Rightarrow> nat option" where
  "finodes_of env ps i = (if i < length ps then Some (ps ! i) else e_stack env i)"

fun check_traverse :: "task \<Rightarrow> (nat \<Rightarrow> nat option) \<Rightarrow> nat \<Rightarrow> nat \<Rightarrow> fi_index \<Rightarrow> int option" where
  "check_traverse task finodes i 0 s = Some DFS_OK"
| "check_traverse task finodes i (Suc n) s =
     (case finodes i of
        None \<Rightarrow> Some DFS_OK
      | Some p \<Rightarrow> do {
          d \<leftarrow> pool_at p (fi_pool s);
          (rc, err) \<leftarrow> check_permission task (fs_fin d) EXECUTE;
          if rc \<noteq> DFS_OK then Some DFS_ERROR else check_traverse task finodes (Suc i) n s })"

text \<open>
  The checks that \<open>log_mkdir\<close> and \<open>log_create\<close> share for a user that is not the administrator.
\<close>

definition check_user :: "nn_env \<Rightarrow> task \<Rightarrow> (nat \<Rightarrow> nat option) \<Rightarrow> nat \<Rightarrow> int \<Rightarrow> fi_index \<Rightarrow> bool option" where
  "check_user env task finodes names_sz parent_index s =
     (if is_super (t_user task) (e_admin env) then Some True
      else if parent_index < 0 then Some False
      else do {
        rc \<leftarrow> check_traverse task finodes 0 names_sz s;
        if rc \<noteq> DFS_OK then Some False
        else do {
          p \<leftarrow> finodes (nat parent_index);
          d \<leftarrow> pool_at p (fi_pool s);
          rc \<leftarrow> check_ancestor_access task WRITE (fs_fin d);
          Some (rc = DFS_OK) } })"

section \<open>Handlers\<close>

text \<open>The loop of \<open>log_mkdir\<close> over the components of the path; \<open>i\<close> is the index of the next.\<close>

fun mkdir_loop :: "nn_env \<Rightarrow> bytes \<Rightarrow> (nat \<Rightarrow> nat option) \<Rightarrow> nat \<Rightarrow> int \<Rightarrow> LogOperator \<Rightarrow> nat \<Rightarrow> bytes list \<Rightarrow> px_state \<Rightarrow> px_state option" where
  "mkdir_loop env key finodes names_sz parent_index lopr i [] st = Some st"
| "mkdir_loop env key finodes names_sz parent_index lopr i (k # ks) st = do {
     there \<leftarrow> (if names_sz = 1 \<or> parent_index < 0 then Some False
               else (case finodes i of
                       None \<Rightarrow> Some False
                     | Some p \<Rightarrow> do {
                         d \<leftarrow> pool_at p (fi_pool (nn_fi (px_nn st)));
                         Some (string_strncmp (i_key (fs_fin d)) k (length k) = 0) }));
     st \<leftarrow> (if there then Some st
            else (let sKey = (if names_sz = 1 then key else k)
                  in propose_log env sKey (lopr\<lparr>mkr := Some ((mutable_mkr lopr)\<lparr>mkr_key := sKey\<rparr>)\<rparr>) None st));
     mkdir_loop env key finodes names_sz parent_index lopr (Suc i) ks st }"

definition log_mkdir :: "nn_env \<Rightarrow> task \<Rightarrow> px_state \<Rightarrow> (task \<times> px_state) option" where
  "log_mkdir env task st = do {
     let s = nn_fi (px_nn st);
     master \<leftarrow> IsIMMaster env (t_key task);
     if \<not> master then redirect env task st
     else do {
       fi \<leftarrow> get_store_obj (t_key task) s;
       if fi \<noteq> None then Some (task\<lparr>t_ret := KEY_EXIST\<rparr>, st)
       else do {
         let (names, path) = get_path_names (get_store_path (t_key task));
         let names_sz = length names;
         keys \<leftarrow> get_path_keys names;
         let lopr = LogOperator0\<lparr>optype := of_int (t_cmd task), mkr := Some (LogMkdir0\<lparr>mkr_permission := of_int (t_permission task),
           mkr_owner := t_user task, mkr_group := t_group task, mkr_mtime := e_time env\<rparr>)\<rparr>;
         if is_root path then do {
           st \<leftarrow> mkdir_loop env (t_key task) (e_stack env) names_sz 0 lopr 0 keys st;
           Some (task\<lparr>t_ret := SUCC\<rparr>, inc_edit_op_num env st) }
         else do {
           (parent_index, ps) \<leftarrow> get_path_inodes keys s;
           let finodes = finodes_of env ps;
           dir \<leftarrow> (if parent_index > 0 then do {
                     p \<leftarrow> finodes (nat parent_index);
                     d \<leftarrow> pool_at p (fi_pool s);
                     Some (i_is_directory (fs_fin d)) }
                   else Some True);
           if \<not> dir then Some (task\<lparr>t_ret := NOT_DIRECTORY\<rparr>, st)
           else do {
             ok \<leftarrow> check_user env task finodes names_sz parent_index s;
             if \<not> ok then Some (task\<lparr>t_ret := PERMISSION_DENY\<rparr>, st)
             else if is_FsObjectExceed (e_index_num env) (int names_sz - parent_index - 1) s
             then Some (task\<lparr>t_ret := FSOBJECT_EXCEED\<rparr>, st)
             else do {
               st \<leftarrow> mkdir_loop env (t_key task) finodes names_sz parent_index lopr 0 keys st;
               Some (task\<lparr>t_ret := SUCC\<rparr>, inc_edit_op_num env st) } } } } } }"

definition log_rmr :: "nn_env \<Rightarrow> task \<Rightarrow> px_state \<Rightarrow> (task \<times> px_state) option" where
  "log_rmr env task st = do {
     let s = nn_fi (px_nn st);
     master \<leftarrow> IsIMMaster env (t_key task);
     if \<not> master then redirect env task st
     else do {
       fi \<leftarrow> get_store_obj (t_key task) s;
       case fi of
         None \<Rightarrow> Some (task\<lparr>t_ret := KEY_NOTEXIST\<rparr>, st)
       | Some p \<Rightarrow> do {
           d \<leftarrow> pool_at p (fi_pool s);
           if \<not> i_is_directory (fs_fin d) then Some (task\<lparr>t_ret := NOT_DIRECTORY\<rparr>, st)
           else do {
             rc \<leftarrow> (if is_super (t_user task) (e_admin env) then Some DFS_OK else check_ancestor_access task WRITE (fs_fin d));
             if rc \<noteq> DFS_OK then Some (task\<lparr>t_ret := PERMISSION_DENY\<rparr>, st)
             else do {
               st \<leftarrow> propose_log env (t_key task) (LogOperator0\<lparr>optype := of_int (t_cmd task),
                       rmr := Some \<lparr>rmr_key = t_key task, rmr_mtime = e_time env\<rparr>\<rparr>) None st;
               Some (task\<lparr>t_ret := SUCC\<rparr>, inc_edit_op_num env st) } } } } }"

definition log_create :: "nn_env \<Rightarrow> task \<Rightarrow> px_state \<Rightarrow> (task \<times> px_state) option" where
  "log_create env task st =
     (case t_data task of
        TBlkInfo blk_sz blk_rep \<Rightarrow> do {
          let s = nn_fi (px_nn st);
          let task = task\<lparr>t_data := TNull\<rparr>;
          master \<leftarrow> IsIMMaster env (t_key task);
          if \<not> master then redirect env task st
          else do {
            fi \<leftarrow> get_store_obj (t_key task) s;
            case fi of
              Some p \<Rightarrow> do {
                d \<leftarrow> pool_at p (fi_pool s);
                Some (task\<lparr>t_ret := (if fs_state d = KEY_STATE_OK then KEY_EXIST else KEY_STATE_CREATING)\<rparr>, st) }
            | None \<Rightarrow> do {
                let names = fst (get_path_names (get_store_path (t_key task)));
                keys \<leftarrow> get_path_keys names;
                (parent_index, ps) \<leftarrow> get_path_inodes keys s;
                let finodes = finodes_of env ps;
                dir \<leftarrow> (if parent_index \<le> 0 then Some False
                        else do {
                          p \<leftarrow> finodes (nat parent_index);
                          d \<leftarrow> pool_at p (fi_pool s);
                          Some (i_is_directory (fs_fin d)) });
                if \<not> dir then Some (task\<lparr>t_ret := NOT_DIRECTORY\<rparr>, st)
                else do {
                  ok \<leftarrow> check_user env task finodes (length names) parent_index s;
                  if \<not> ok then Some (task\<lparr>t_ret := PERMISSION_DENY\<rparr>, st)
                  else if is_FsObjectExceed (e_index_num env) 1 s then Some (task\<lparr>t_ret := FSOBJECT_EXCEED\<rparr>, st)
                  else do {
                    (rc, resp_info) \<leftarrow> generate_dns blk_rep resp0 (nn_bd (px_nn st));
                    if rc \<noteq> DFS_OK then Some (task\<lparr>t_ret := NOT_DATANODE\<rparr>, st)
                    else do {
                      let (blk_id, bd) = generate_uid (e_time env) (nn_bd (px_nn st));
                      let resp_info = resp_info\<lparr>r_blk_id := blk_id, r_namespace_id := e_namespace_id env\<rparr>;
                      st \<leftarrow> propose_log env (t_key task) (LogOperator0\<lparr>optype := of_int (t_cmd task),
                              cre := Some \<lparr>cre_key = t_key task, cre_permission = of_int (t_permission task), cre_owner = t_user task,
                                cre_group = t_group task, cre_mtime = e_time env, cre_blk_id = blk_id, cre_blk_sz = blk_sz,
                                cre_blk_rep = of_int blk_rep\<rparr>\<rparr>) (Some (e_thread env))
                              (st\<lparr>px_nn := (px_nn st)\<lparr>nn_bd := bd\<rparr>\<rparr>);
                      Some (task\<lparr>t_data := TResp resp_info, t_ret := SUCC\<rparr>, inc_edit_op_num env st) } } } } } }
      | _ \<Rightarrow> None)"

definition log_get_additional_blk :: "nn_env \<Rightarrow> task \<Rightarrow> px_state \<Rightarrow> (task \<times> px_state) option" where
  "log_get_additional_blk env task st =
     (case t_data task of
        TBlkInfo blk_sz blk_rep \<Rightarrow> do {
          let s = nn_fi (px_nn st);
          let task = task\<lparr>t_data := TNull\<rparr>;
          master \<leftarrow> IsIMMaster env (t_key task);
          if \<not> master then redirect env task st
          else do {
            fi \<leftarrow> get_store_obj (t_key task) s;
            creating \<leftarrow> (case fi of None \<Rightarrow> Some True
                         | Some p \<Rightarrow> do { d \<leftarrow> pool_at p (fi_pool s); Some (fs_state d = KEY_STATE_CREATING) });
            if \<not> creating then Some (task\<lparr>t_ret := FAIL\<rparr>, st)
            else do {
              (rc, resp_info) \<leftarrow> generate_dns blk_rep resp0 (nn_bd (px_nn st));
              if rc \<noteq> DFS_OK then Some (task\<lparr>t_ret := NOT_DATANODE\<rparr>, st)
              else do {
                let (blk_id, bd) = generate_uid (e_time env) (nn_bd (px_nn st));
                let resp_info = resp_info\<lparr>r_blk_id := blk_id, r_namespace_id := e_namespace_id env\<rparr>;
                st \<leftarrow> propose_log env (t_key task) (LogOperator0\<lparr>optype := of_int (t_cmd task),
                        gab := Some \<lparr>gab_key = t_key task, gab_blk_id = blk_id, gab_blk_sz = blk_sz, gab_blk_rep = of_int blk_rep\<rparr>\<rparr>)
                        None (st\<lparr>px_nn := (px_nn st)\<lparr>nn_bd := bd\<rparr>\<rparr>);
                Some (task\<lparr>t_data := TResp resp_info, t_ret := SUCC\<rparr>, inc_edit_op_num env st) } } } }
      | _ \<Rightarrow> None)"

text \<open>Closing is not restricted to the master; the replication comes in the return code field.\<close>

definition log_close :: "nn_env \<Rightarrow> task \<Rightarrow> px_state \<Rightarrow> (task \<times> px_state) option" where
  "log_close env task st =
     (case t_data task of
        TLen len \<Rightarrow> do {
          let s = nn_fi (px_nn st);
          let task = task\<lparr>t_data := TNull\<rparr>;
          fi \<leftarrow> get_store_obj (t_key task) s;
          creating \<leftarrow> (case fi of None \<Rightarrow> Some True
                       | Some p \<Rightarrow> do { d \<leftarrow> pool_at p (fi_pool s); Some (fs_state d = KEY_STATE_CREATING) });
          if \<not> creating then Some (task\<lparr>t_ret := FAIL\<rparr>, st)
          else do {
            st \<leftarrow> propose_log env (t_key task) (LogOperator0\<lparr>optype := of_int (t_cmd task),
                    cle := Some \<lparr>cle_key = t_key task, cle_mtime = e_time env, cle_len = len, cle_blk_rep = of_int (t_ret task)\<rparr>\<rparr>)
                    None st;
            Some (task\<lparr>t_ret := SUCC\<rparr>, inc_edit_op_num env st) } }
      | _ \<Rightarrow> None)"

definition log_rm :: "nn_env \<Rightarrow> task \<Rightarrow> px_state \<Rightarrow> (task \<times> px_state) option" where
  "log_rm env task st = do {
     let s = nn_fi (px_nn st);
     master \<leftarrow> IsIMMaster env (t_key task);
     if \<not> master then redirect env task st
     else do {
       fi \<leftarrow> get_store_obj (t_key task) s;
       case fi of
         None \<Rightarrow> Some (task\<lparr>t_ret := KEY_NOTEXIST\<rparr>, st)
       | Some p \<Rightarrow> do {
           d \<leftarrow> pool_at p (fi_pool s);
           if i_is_directory (fs_fin d) then Some (task\<lparr>t_ret := NOT_FILE\<rparr>, st)
           else do {
             rc \<leftarrow> (if is_super (t_user task) (e_admin env) then Some DFS_OK else check_ancestor_access task WRITE (fs_fin d));
             if rc \<noteq> DFS_OK then Some (task\<lparr>t_ret := PERMISSION_DENY\<rparr>, st)
             else do {
               st \<leftarrow> propose_log env (t_key task) (LogOperator0\<lparr>optype := of_int (t_cmd task),
                       rm := Some \<lparr>rm_key = t_key task, rm_mtime = e_time env\<rparr>\<rparr>) None st;
               Some (task\<lparr>t_ret := SUCC\<rparr>, inc_edit_op_num env st) } } } } }"

text \<open>The dispatch; a command that is not logged leaves the task without an answer.\<close>

definition do_paxos_task :: "nn_env \<Rightarrow> task \<Rightarrow> px_state \<Rightarrow> (int \<times> task option \<times> px_state) option" where
  "do_paxos_task env task st =
     (let answer = map_option (\<lambda>(task, st). (DFS_OK, Some task, st))
      in if t_cmd task = NN_MKDIR then answer (log_mkdir env task st)
         else if t_cmd task = NN_RMR then answer (log_rmr env task st)
         else if t_cmd task = NN_GET_FILE_INFO then Some (DFS_OK, None, st)
         else if t_cmd task = NN_CREATE then answer (log_create env task st)
         else if t_cmd task = NN_GET_ADDITIONAL_BLK then answer (log_get_additional_blk env task st)
         else if t_cmd task = NN_CLOSE then answer (log_close env task st)
         else if t_cmd task = NN_RM then answer (log_rm env task st)
         else if t_cmd task = NN_OPEN then Some (DFS_OK, None, st)
         else Some (DFS_ERROR, None, st))"

section \<open>Users that are not the administrator\<close>

lemma path_inodes_found:
  "path_inodes_loop i keys s = Some (r, ps) \<Longrightarrow>
     length ps \<le> length keys \<and> (r = -1 \<or> (r = i + int (length ps) - 1 \<and> length ps < length keys))"
proof (induction keys arbitrary: i r ps)
  case (Cons k ks)
  from Cons.prems obtain fi where fi: "get_store_obj k s = Some fi" by (auto split: bind_splits)
  show ?case
  proof (cases fi)
    case None
    then show ?thesis using Cons.prems fi by auto
  next
    case (Some p)
    then obtain ps' where "path_inodes_loop (i + 1) ks s = Some (r, ps')" "ps = p # ps'"
      using Cons.prems fi by (auto split: bind_splits)
    with Cons.IH[of "i + 1" r ps'] show ?thesis by auto
  qed
qed simp

lemma path_keys_length: "path_keys_loop i anc names = Some keys \<Longrightarrow> length keys = length names"
  by (induction names arbitrary: i anc keys) (auto simp: Let_def split: bind_splits)

lemma check_traverse_passed:
  "check_traverse task finodes i n s = Some DFS_OK \<Longrightarrow> i \<le> j \<Longrightarrow> j < i + n \<Longrightarrow> (\<And>k. k \<le> j \<Longrightarrow> finodes k \<noteq> None) \<Longrightarrow>
     finodes j = Some p \<Longrightarrow> pool_at p (fi_pool s) = Some d \<Longrightarrow> \<exists>e. check_permission task (fs_fin d) EXECUTE = Some (DFS_OK, e)"
proof (induction n arbitrary: i)
  case (Suc n)
  have "finodes i \<noteq> None" using Suc.prems(2,4) by blast
  then obtain q where q: "finodes i = Some q" by blast
  then obtain d' e where d': "pool_at q (fi_pool s) = Some d'" "check_permission task (fs_fin d') EXECUTE = Some (DFS_OK, e)"
      "check_traverse task finodes (Suc i) n s = Some DFS_OK"
    using Suc.prems(1) by (auto simp: dfs_code split: bind_splits if_splits)
  show ?case
  proof (cases "i = j")
    case True
    then show ?thesis using q d' Suc.prems(5,6) by auto
  next
    case False
    then show ?thesis using Suc.IH[OF d'(3)] Suc.prems(2-) by auto
  qed
qed simp

text \<open>
  Traversing a directory needs the digit of the user's class to be that of execution, adding an entry to
  it the same digit to be that of writing: no directory passes both checks.
\<close>

lemma check_user_denied:
  assumes "\<not> is_super (t_user task) (e_admin env)" and keys: "get_path_keys names = Some keys"
    and inodes: "get_path_inodes keys s = Some (r, ps)"
    and ok: "check_user env task (finodes_of env ps) (length names) r s = Some True"
  shows False
proof -
  have len: "length names = length keys" using keys by (simp add: get_path_keys_def path_keys_length)
  have "\<not> r < 0" using ok assms(1) by (auto simp: check_user_def)
  then have r: "nat r < length ps" "length ps \<le> length keys"
    using path_inodes_found[of 0 keys s r ps] inodes by (auto simp: get_path_inodes_def nat_less_iff)
  then have slot: "finodes_of env ps (nat r) = Some (ps ! nat r)" by (simp add: finodes_of_def)
  obtain d e where d: "check_traverse task (finodes_of env ps) 0 (length names) s = Some DFS_OK"
      "pool_at (ps ! nat r) (fi_pool s) = Some d" "check_permission task (fs_fin d) WRITE = Some (DFS_OK, e)"
    using ok assms(1) \<open>\<not> r < 0\<close> slot
    by (auto simp: check_user_def check_ancestor_access_def dfs_code split: bind_splits if_splits)
  have "\<exists>e. check_permission task (fs_fin d) EXECUTE = Some (DFS_OK, e)"
    by (rule check_traverse_passed[OF d(1) _ _ _ slot d(2)]) (use r len in \<open>auto simp: finodes_of_def\<close>)
  with d(3) check_permission_exclusive[of task "fs_fin d" WRITE _ EXECUTE] show False by (auto simp: dfs_code)
qed

end
