(* ===== verification/Nn_File_Log.thy ===== *)
theory Nn_File_Log
  imports Nn_Paxos
begin

text \<open>
  The execution of the edit log: a record that was serialised by one member and executed by another
  is an operation of the abstract file system, so members that execute the same log hold the same
  file system and give the same answers, whatever their clocks, memory and data nodes.
\<close>

section \<open>Records as operations\<close>

definition log_op :: "u64 \<Rightarrow> LogOperator \<Rightarrow> fs_op option" where
  "log_op llInstanceID lopr =
     (let op = uint (optype lopr) in
      if op = NN_MKDIR then map_option Mkdir (fin_mkdir llInstanceID (mutable_mkr lopr))
      else if op = NN_RMR then map_option (\<lambda>key. Rmr (fi_inode0\<lparr>i_key := key, i_mtime := rmr_mtime (mutable_rmr lopr)\<rparr>))
        (c_strcpy KEY_LEN (rmr_key (mutable_rmr lopr)))
      else if op = NN_CREATE then map_option (\<lambda>fin. Create fin (cre_blk_id (mutable_cre lopr)))
        (fin_create llInstanceID (mutable_cre lopr))
      else if op = NN_GET_ADDITIONAL_BLK then map_option (\<lambda>key. AddBlk (fi_inode0\<lparr>i_uid := llInstanceID, i_key := key,
          i_blk_size := gab_blk_sz (mutable_gab lopr), i_blk_replication := short_of (gab_blk_rep (mutable_gab lopr))\<rparr>)
          (gab_blk_id (mutable_gab lopr))) (c_strcpy KEY_LEN (gab_key (mutable_gab lopr)))
      else if op = NN_CLOSE then map_option (\<lambda>key. Close (fi_inode0\<lparr>i_key := key, i_mtime := cle_mtime (mutable_cle lopr),
          i_length := cle_len (mutable_cle lopr), i_blk_replication := short_of (cle_blk_rep (mutable_cle lopr))\<rparr>))
        (c_strcpy KEY_LEN (cle_key (mutable_cle lopr)))
      else if op = NN_RM then map_option (\<lambda>key. Rm (fi_inode0\<lparr>i_key := key, i_mtime := rm_mtime (mutable_rm lopr)\<rparr>))
        (c_strcpy KEY_LEN (rm_key (mutable_rm lopr)))
      else None)"

lemma update_fi_exec:
  assumes "LogOperator_ParseFromString w v = Some (ok, lopr)" "log_op iid lopr = Some op"
  shows "update_fi_cache_mgmt w now iid v data s = map_option (\<lambda>s. (DFS_OK, s)) (fs_exec now data op s)"
  using assms
  by (auto simp: update_fi_cache_mgmt_def log_op_def Let_def dfs_code split: if_splits option.splits bind_splits)

lemma Execute_op:
  assumes "wire_ok w" "lopr_ok w lopr" "log_op iid lopr = Some op"
  shows "Execute w now data (LogOperator_SerializeToString w lopr) iid s = fs_exec now data op s"
proof -
  have "LogOperator_ParseFromString w (LogOperator_SerializeToString w lopr) = Some (True, lopr)"
    using LogOperator_parse[OF assms(1,2)]
    by (simp add: LogOperator_ParseFromString_def LogOperator_MergePartialFromCodedStream_def LogOperator_SerializeToString_def)
  from update_fi_exec[OF this assms(3)] show ?thesis by (cases "fs_exec now data op s") (simp_all add: Execute_def)
qed

section \<open>Replay\<close>

text \<open>A member executes a log; \<open>env i\<close> is its clock and its thread when it executes the record \<open>i\<close>.\<close>

fun replay :: "wire \<Rightarrow> (nat \<Rightarrow> int \<times> nat option) \<Rightarrow> nat \<Rightarrow> (u64 \<times> LogOperator) list \<Rightarrow> nn_state \<Rightarrow> nn_state option" where
  "replay w env i [] s = Some s"
| "replay w env i ((iid, lopr) # log) s = do {
     s \<leftarrow> Execute w (fst (env i)) (snd (env i)) (LogOperator_SerializeToString w lopr) iid s;
     replay w env (Suc i) log s }"

text \<open>The log is applicable to \<open>F\<close> and leads to \<open>F'\<close>.\<close>

inductive fs_log :: "nat \<Rightarrow> bytes set \<Rightarrow> wire \<Rightarrow> file_system \<Rightarrow> (u64 \<times> LogOperator) list \<Rightarrow> file_system \<Rightarrow> bool"
  for cap K w where
  nil: "fs_log cap K w F [] F"
| cons: "lopr_ok w lopr \<Longrightarrow> log_op iid lopr = Some op \<Longrightarrow> fs_pre cap K F op \<Longrightarrow>
    fs_log cap K w (fs_spec op F) log F' \<Longrightarrow> fs_log cap K w F ((iid, lopr) # log) F'"

inductive_cases fs_log_ConsE: "fs_log cap K w F (r # log) F'"

lemma replay_repr:
  assumes w: "wire_ok w"
  shows "fs_log cap K w F log F' \<Longrightarrow> fs_repr cap K ids s F \<Longrightarrow> \<exists>s'. replay w env i log s = Some s' \<and> fs_repr cap K ids s' F'"
proof (induction arbitrary: s i rule: fs_log.induct)
  case (cons lopr iid op F log F')
  from fs_exec_refines[OF cons.prems cons.hyps(3)] obtain s1 where
    "fs_exec (fst (env i)) (snd (env i)) op s = Some s1" "fs_repr cap K ids s1 (fs_spec op F)" by blast
  with cons.IH[of s1 "Suc i"] Execute_op[OF w cons.hyps(1,2)] show ?case by simp
qed simp

section \<open>Listing\<close>

definition ls_spec :: "bytes \<Rightarrow> task \<Rightarrow> file_system \<Rightarrow> task option" where
  "ls_spec admin task F =
     (case F (t_key task) of
        None \<Rightarrow> Some (task\<lparr>t_ret := KEY_NOTEXIST\<rparr>)
      | Some e \<Rightarrow> do {
          rc \<leftarrow> (if is_super (t_user task) admin then Some DFS_OK else check_ancestor_access task READ_EXECUTE (e_inode e));
          Some (if rc \<noteq> DFS_OK then task\<lparr>t_ret := PERMISSION_DENY\<rparr>
                else if \<not> i_is_directory (e_inode e) then task\<lparr>t_data := TInodes [e_inode e], t_ret := DFS_OK\<rparr>
                else if e_entries e = [] then task\<lparr>t_ret := DFS_OK\<rparr>
                else task\<lparr>t_data := TInodes (map (\<lambda>k. e_inode (the (F k))) (e_entries e)), t_ret := DFS_OK\<rparr>) })"

lemma ls_loop_kids:
  assumes rel: "fi_rel cap K s A" and p: "p \<in> a_dirs A"
  shows "a_kids A p = us @ vs \<Longrightarrow> ls_loop (length vs) (hd (map Me vs @ [Children p])) s = Some (map (\<lambda>c. fs_fin (fi_obj s c)) vs)"
proof (induction vs arbitrary: us)
  case (Cons c vs)
  have fam: "fi_fam A {} (Children p) = Some (map Me us @ Me c # map Me vs)" using Cons.prems p by simp
  have "c \<in> a_live A" using fi_kid[OF rel_tree[OF rel] p, of c] Cons.prems by simp
  then have "pool_at c (fi_pool s) = Some (fi_obj s c)" by (rule fi_at[OF rel_tab[OF rel]])
  moreover have "q_next (fi_links s) (Me c) = Some (hd (map Me vs @ [Children p]))"
    by (rule qfam_next[OF fi_qfam[OF rel_tree[OF rel]] fam])
  moreover have "ls_loop (length vs) (hd (map Me vs @ [Children p])) s = Some (map (\<lambda>c. fs_fin (fi_obj s c)) vs)"
    using Cons.IH[of "us @ [c]"] Cons.prems by simp
  ultimately show ?case by simp
qed simp

lemma nn_ls_spec:
  assumes "fs_repr cap K ids s F" "t_key task \<in> K"
  shows "nn_ls admin task (nn_fi s) = ls_spec admin task F"
proof -
  from assms(1) obtain A where rel: "fi_rel cap K (nn_fi s) A" and F: "F = fs_abs (nn_fi s) A" by (auto simp: fs_repr_def)
  let ?s = "nn_fi s"
  note tab = rel_tab[OF rel] and tree = rel_tree[OF rel]
  have get: "get_store_obj (t_key task) ?s = Some (a_map A (t_key task))" by (rule get_store_table[OF tab assms(2)])
  show ?thesis
  proof (cases "a_map A (t_key task)")
    case None
    then have "F (t_key task) = None" by (simp add: F)
    then show ?thesis using get None by (simp add: nn_ls_def ls_spec_def)
  next
    case (Some p)
    have live: "p \<in> a_live A" by (rule in_live[OF Some])
    let ?e = "\<lparr>e_inode = fs_fin (fi_obj ?s p), e_creating = (fs_state (fi_obj ?s p) = KEY_STATE_CREATING), e_entries = map (okey ?s) (a_kids A p)\<rparr>"
    have e: "F (t_key task) = Some ?e" using Some by (simp add: F fs_of_def)
    have sub: "e_inode (the (F (okey ?s c))) = fs_fin (fi_obj ?s c)" if "c \<in> set (a_kids A p)" for c
      using a_live_iff[OF tab, of c] rel_kids[OF rel Some] that by (auto simp: F fs_of_def)
    show ?thesis
    proof (cases "p \<in> a_dirs A")
      case False
      then have "\<not> i_is_directory (fs_fin (fi_obj ?s p))" using fi_is_dir[OF tree live] by simp
      then show ?thesis using get Some e fi_at[OF tab live] by (auto simp: nn_ls_def ls_spec_def Let_def split: bind_splits)
    next
      case True
      then have dir: "i_is_directory (fs_fin (fi_obj ?s p))" using fi_is_dir[OF tree live] by simp
      have num: "unat (fs_children_num (fi_obj ?s p)) = length (a_kids A p)"
        using rel_num[OF rel] True kids_bound[OF tab tree True] by (simp add: fi_num_def unsigned_of_nat take_bit_nat_eq_self)
      have "q_next (fi_links ?s) (Children p) = Some (hd (map Me (a_kids A p) @ [Children p]))"
        using qfam_head[OF fi_qfam[OF tree], of "Children p"] True by simp
      moreover have "ls_loop (length (a_kids A p)) (hd (map Me (a_kids A p) @ [Children p])) ?s = Some (map (\<lambda>c. fs_fin (fi_obj ?s c)) (a_kids A p))"
        using ls_loop_kids[OF rel True, of "[]"] by simp
      moreover have "map (\<lambda>k. e_inode (the (F k))) (map (okey ?s) (a_kids A p)) = map (\<lambda>c. fs_fin (fi_obj ?s c)) (a_kids A p)"
        using sub by simp
      ultimately show ?thesis using get Some e fi_at[OF tab live] dir num
        by (auto simp: nn_ls_def ls_spec_def Let_def split: bind_splits)
    qed
  qed
qed

section \<open>The tree\<close>

text \<open>
  Every object is stored under its own key; a directory lists objects that exist, are closed and have it
  as their parent, none of them twice; a file lists nothing; and every closed object but the root is
  listed by its parent.
\<close>

definition fs_wf :: "file_system \<Rightarrow> bool" where
  "fs_wf F \<longleftrightarrow> (\<forall>k e. F k = Some e \<longrightarrow>
     i_key (e_inode e) = k \<and> distinct (e_entries e) \<and> (\<not> i_is_directory (e_inode e) \<longrightarrow> e_entries e = []) \<and>
     (\<forall>x \<in> set (e_entries e). parent_key_of x = Some k \<and> (\<exists>e'. F x = Some e' \<and> \<not> e_creating e')) \<and>
     (\<forall>pk. parent_key_of k = Some pk \<longrightarrow> \<not> e_creating e \<longrightarrow> (\<exists>pe. F pk = Some pe \<and> k \<in> set (e_entries pe))))"

lemma rel_ckp: "fi_rel cap K s A \<Longrightarrow> p \<in> a_live A \<Longrightarrow> p \<in> set (a_ckp A) \<longleftrightarrow> fs_state (fi_obj s p) \<noteq> KEY_STATE_CREATING"
  by (simp add: fi_rel_def fi_state_def)

lemma rel_linked: "fi_rel cap K s A \<Longrightarrow> p \<in> a_live A \<Longrightarrow> parent_key_of (okey s p) = Some pk \<Longrightarrow>
    p \<in> a_linked A \<longleftrightarrow> p \<in> set (a_ckp A)"
  by (simp add: fi_rel_def fi_state_def)

lemma rel_entry:
  assumes rel: "fi_rel cap K s A" and p: "a_map A k = Some p" and c: "c \<in> set (a_kids A p)"
  shows "a_map A (okey s c) = Some c" "parent_key_of (okey s c) = Some k" "fs_state (fi_obj s c) \<noteq> KEY_STATE_CREATING"
proof -
  note tab = rel_tab[OF rel] and tree = rel_tree[OF rel]
  have live: "c \<in> a_live A" using rel_kids[OF rel p] c by blast
  show "a_map A (okey s c) = Some c" by (rule a_live_iff[OF tab, THEN iffD1, OF live])
  have dir: "p \<in> a_dirs A" by (rule kid_dir[OF tree c])
  have "parent_key_of (okey s c) = Some (okey s p)" using fi_kid[OF tree dir c] by blast
  then show pk: "parent_key_of (okey s c) = Some k" unfolding fi_key[OF tab p] .
  have "c \<in> a_linked A" unfolding a_linked_def using dir c by blast
  then have "c \<in> set (a_ckp A)" using rel_linked[OF rel live pk] by blast
  then show "fs_state (fi_obj s c) \<noteq> KEY_STATE_CREATING" using rel_ckp[OF rel live] by blast
qed

lemma rel_distinct:
  assumes rel: "fi_rel cap K s A" and p: "a_map A k = Some p"
  shows "distinct (map (okey s) (a_kids A p))"
proof -
  have "inj_on (okey s) (set (a_kids A p))"
  proof (rule inj_onI)
    fix c c' assume c: "c \<in> set (a_kids A p)" "c' \<in> set (a_kids A p)" "okey s c = okey s c'"
    have "Some c = Some c'"
      unfolding rel_entry(1)[OF rel p c(1), symmetric] rel_entry(1)[OF rel p c(2), symmetric] c(3) ..
    then show "c = c'" by simp
  qed
  moreover have "distinct (a_kids A p)"
  proof (cases "p \<in> a_dirs A")
    case True
    then show ?thesis by (rule kids_distinct[OF rel_tree[OF rel]])
  next
    case False
    then show ?thesis using fi_no_kids[OF rel_tree[OF rel], of p] by simp
  qed
  ultimately show ?thesis by (simp add: distinct_map)
qed

lemma rel_listed:
  assumes rel: "fi_rel cap K s A" and k: "a_map A k = Some p" "parent_key_of k = Some pk"
    and st: "fs_state (fi_obj s p) \<noteq> KEY_STATE_CREATING"
  shows "\<exists>pe. fs_abs s A pk = Some pe \<and> k \<in> set (e_entries pe)"
proof -
  have "p \<in> set (a_ckp A)" using rel_ckp[OF rel in_live[OF k(1)]] st by blast
  from closed_parent[OF rel k this] obtain q where q: "a_map A pk = Some q" "p \<in> set (a_kids A q)" by blast
  have "k \<in> okey s ` set (a_kids A q)" using fi_key[OF rel_tab[OF rel] k(1)] q(2) by blast
  moreover obtain pe where pe: "fs_abs s A pk = Some pe" "e_entries pe = map (okey s) (a_kids A q)" using q(1) by (simp add: fs_of_def)
  ultimately show ?thesis by simp
qed

lemma rel_wf:
  assumes rel: "fi_rel cap K s A"
  shows "fs_wf (fs_abs s A)"
proof -
  note tab = rel_tab[OF rel] and tree = rel_tree[OF rel]
  have leaf: "\<not> i_is_directory (fs_fin (fi_obj s p)) \<longrightarrow> a_kids A p = []" if "a_map A k = Some p" for k p
    using fi_is_dir[OF tree in_live[OF that]] fi_no_kids[OF tree, of p] by auto
  have kid: "\<exists>e. fs_abs s A (okey s c) = Some e \<and> \<not> e_creating e" if "a_map A k = Some p" "c \<in> set (a_kids A p)" for k p c
    using rel_entry(1,3)[OF rel that] by (simp add: fs_of_def)
  show ?thesis
    unfolding fs_wf_def
  proof (intro allI impI)
    fix k e assume "fs_abs s A k = Some e"
    then obtain p where p: "a_map A k = Some p"
      "e_inode e = fs_fin (fi_obj s p)" "e_creating e = (fs_state (fi_obj s p) = KEY_STATE_CREATING)" "e_entries e = map (okey s) (a_kids A p)"
      by (auto simp: fs_of_Some)
    show "i_key (e_inode e) = k \<and> distinct (e_entries e) \<and> (\<not> i_is_directory (e_inode e) \<longrightarrow> e_entries e = []) \<and>
      (\<forall>x \<in> set (e_entries e). parent_key_of x = Some k \<and> (\<exists>e'. fs_abs s A x = Some e' \<and> \<not> e_creating e')) \<and>
      (\<forall>pk. parent_key_of k = Some pk \<longrightarrow> \<not> e_creating e \<longrightarrow> (\<exists>pe. fs_abs s A pk = Some pe \<and> k \<in> set (e_entries pe)))"
      unfolding p(2-4) using fi_key[OF tab p(1)] rel_distinct[OF rel p(1)] leaf[OF p(1)] rel_entry(2)[OF rel p(1)] kid[OF p(1)]
        rel_listed[OF rel p(1)] by (intro conjI) (auto simp only: set_map list.map(1))
  qed
qed

section \<open>Start\<close>

text \<open>
  Keys that the table tells apart: it compares only as many bytes as the key that is looked for has, so
  a key and a longer one that it begins must fall into different buckets.
\<close>

definition separate :: "nat \<Rightarrow> bytes set \<Rightarrow> bool" where
  "separate cap K \<longleftrightarrow> (\<forall>k \<in> K. cstring k \<and> (\<forall>k' \<in> K. k' \<noteq> k \<longrightarrow> prefix k k' \<longrightarrow>
     dfs_hashtable_hash_low k' (length k') cap \<noteq> dfs_hashtable_hash_low k (length k) cap))"

definition fi_abs0 :: fi_abs where
  "fi_abs0 = \<lparr>a_map = Map.empty, a_dirs = {}, a_kids = (\<lambda>_. []), a_ckp = []\<rparr>"

lemma fi_init_ok:
  assumes cap: "dfs_math_find_prime index_num = Some cap" "prime_nat cap" "cap < prime_bound" and K: "separate cap K" and ok: "\<forall>r. ok r"
  shows "\<exists>s'. nn_file_index_worker_init index_num mem ok True s = Some (DFS_OK, s') \<and> fi_rel cap K s' fi_abs0"
proof -
  from cache_mgmt_create_ok[OF ok cap(2,3), of fi_store0 fi_hash_keycmp dfs_hashtable_hash_low mem length] obtain pool ht where
    c: "fi_cache_mgmt_create mem ok cap {} = Some (Some (pool, ht), {RMgmt, RMem, RAllocator, RMblks})" "pool_state cap pool {}"
      "ht_rep length ht Map.empty" "ht_cmp ht = fi_hash_keycmp" "ht_hash ht = dfs_hashtable_hash_low" "ht_size ht = cap"
    unfolding fi_cache_mgmt_create_def by blast
  let ?s = "s\<lparr>fi_pool := pool, fi_htable := ht, fs_object_num := 0, fi_links := queue_init CheckpointQ (fi_links s)\<rparr>"
  have "qfam (fi_links s) (\<lambda>_. None)" by (simp add: qfam_def in_queue_def)
  then have "qfam (queue_init CheckpointQ (fi_links s)) ((\<lambda>_. None)(CheckpointQ \<mapsto> []))"
    by (rule qfam_init) (auto simp: in_queue_def)
  moreover have "fi_fam fi_abs0 {} = (\<lambda>_. None)(CheckpointQ \<mapsto> [])"
    by (auto simp: fun_eq_iff fi_fam_def fi_abs0_def split: fi_node.splits)
  moreover have cmp: "ht_cmp ht = string_strncmp" using c(4) by (simp add: fi_hash_keycmp_def fun_eq_iff)
  have "\<forall>k \<in> K. no_clash length ht k K"
    using K strncmp_no_clash[OF cmp] c(5,6) by (auto simp: separate_def bkt_def)
  moreover have "cap < 2 ^ 64" using cap(3) by (simp add: prime_bound_def)
  ultimately have "fi_rel cap K ?s fi_abs0"
    using c(2,3) by (simp add: fi_rel_def fi_core_def fi_table_def fi_tree_def fi_num_def fi_state_def) (simp add: fi_abs0_def)
  moreover have "nn_file_index_worker_init index_num mem ok True s = Some (DFS_OK, ?s)"
    using cap(1) c(1) by (simp add: nn_file_index_worker_init_def fi_cache_mgmt_new_init_def)
  ultimately show ?thesis by blast
qed

lemma repr_count: "fs_repr cap K ids s F \<Longrightarrow> fs_object_num (nn_fi s) = of_nat (card (dom F))"
  using card_dom_abs rel_count by (auto simp: fs_repr_def)

lemma start_repr:
  assumes "dfs_math_find_prime index_num = Some cap" "prime_nat cap" "cap < prime_bound" "separate cap K" "\<forall>r. ok r"
    and "nn_file_index_worker_init index_num mem ok True fi0 = Some (DFS_OK, fi)" and bd: "cluster ids" "bd_reachable ids bd"
  shows "fs_repr cap K ids \<lparr>nn_fi = fi, nn_bd = bd\<rparr> Map.empty"
proof -
  have "fi_rel cap K fi fi_abs0" using fi_init_ok[OF assms(1-5), of mem fi0] assms(6) by simp
  moreover have "fs_abs fi fi_abs0 = Map.empty" by (simp add: fs_of_def fi_abs0_def fun_eq_iff)
  moreover have "bd_ok ids bd" using bd_reachable_inv[OF bd(2,1)] bd(1) by (auto simp: bd_ok_def)
  ultimately show ?thesis by (auto simp: fs_repr_def)
qed

section \<open>Properties\<close>

text \<open>
  C1. Executing a record of the edit log implements the operation of the file system that the record
  stands for: from memory that represents \<open>F\<close>, the bytes that another member serialised are parsed and
  executed without error, the memory afterwards represents the result of the operation on \<open>F\<close>, and the
  block index has lost exactly the blocks of the files that the operation removes.
\<close>

theorem execute_refines:
  assumes "wire_ok w" and "lopr_ok w lopr" and "log_op iid lopr = Some op"
    and "fs_repr cap K ids s F" and "fs_pre cap K F op"
  shows "\<exists>s'. Execute w now data (LogOperator_SerializeToString w lopr) iid s = Some s' \<and>
    fs_repr cap K ids s' (fs_spec op F) \<and> (\<forall>b. blk_known (nn_bd s') b \<longleftrightarrow> blk_known (nn_bd s) b \<and> b \<notin> fs_gone op F)"
  using fs_exec_refines[OF assms(4,5)] by (simp add: Execute_op[OF assms(1-3)])

text \<open>
  C2. Two members that hold the same file system and execute the same applicable log both get through it,
  and afterwards answer every listing alike and count the same number of objects, whatever their clocks,
  which of them proposed the records, and how their memory is laid out.
\<close>

theorem replicas_agree:
  assumes "wire_ok w" and "fs_log cap K w F log F'" and "fs_repr cap K ids s F" and "fs_repr cap K ids' t F"
  shows "\<exists>s' t'. replay w env 0 log s = Some s' \<and> replay w env' 0 log t = Some t' \<and>
    (\<forall>admin task. t_key task \<in> K \<longrightarrow> nn_ls admin task (nn_fi s') = nn_ls admin task (nn_fi t')) \<and>
    fs_object_num (nn_fi s') = fs_object_num (nn_fi t')"
proof -
  from replay_repr[OF assms(1,2,3)] obtain s' where s': "replay w env 0 log s = Some s'" "fs_repr cap K ids s' F'" by blast
  from replay_repr[OF assms(1,2,4)] obtain t' where t': "replay w env' 0 log t = Some t'" "fs_repr cap K ids' t' F'" by blast
  have "nn_ls admin task (nn_fi s') = nn_ls admin task (nn_fi t')" if "t_key task \<in> K" for admin task
    using nn_ls_spec[OF s'(2) that] nn_ls_spec[OF t'(2) that] by simp
  then show ?thesis using s' t' repr_count[OF s'(2)] repr_count[OF t'(2)] by auto
qed

text \<open>
  C5. From a freshly started name node every applicable log is executed to its end, and the result is a
  tree: objects are stored under their own keys, directories list exactly the closed objects whose parent
  they are, each once, files list nothing; and the object counter is the number of objects.
\<close>

theorem replay_tree:
  assumes "wire_ok w" and "dfs_math_find_prime index_num = Some cap" "prime_nat cap" "cap < prime_bound" and "separate cap K"
    and "\<forall>r. ok r" and "nn_file_index_worker_init index_num mem ok True fi0 = Some (DFS_OK, fi)"
    and "cluster ids" and "bd_reachable ids bd" and "fs_log cap K w Map.empty log F"
  shows "\<exists>s'. replay w env 0 log \<lparr>nn_fi = fi, nn_bd = bd\<rparr> = Some s' \<and> fs_repr cap K ids s' F \<and> fs_wf F \<and>
    fs_object_num (nn_fi s') = of_nat (card (dom F))"
proof -
  from replay_repr[OF assms(1,10) start_repr[OF assms(2-9)]] obtain s' where
    s': "replay w env 0 log \<lparr>nn_fi = fi, nn_bd = bd\<rparr> = Some s'" "fs_repr cap K ids s' F" by blast
  moreover have "fs_wf F" using s'(2) rel_wf by (auto simp: fs_repr_def)
  ultimately show ?thesis using repr_count by blast
qed

section \<open>A run\<close>

text \<open>The root and one directory below it.\<close>

definition root_key :: bytes where "root_key = base64_encode [slash]"
definition a_key :: bytes where "a_key = base64_encode [slash, 97]"

lemma demo_key_bytes: "root_key = [76, 119, 61, 61]" "a_key = [76, 50, 69, 61]"
  by (code_simp)+

definition mkdir_record :: "bytes \<Rightarrow> LogOperator" where
  "mkdir_record key = LogOperator0\<lparr>optype := of_int NN_MKDIR, mkr := Some \<lparr>mkr_key = key, mkr_permission = 755,
     mkr_owner = str ''root'', mkr_group = str ''root'', mkr_mtime = 1\<rparr>\<rparr>"

definition mkdir_inode :: "u64 \<Rightarrow> bytes \<Rightarrow> fi_inode" where
  "mkdir_inode iid key = fi_inode0\<lparr>i_uid := iid, i_key := key, i_permission := 755, i_owner := str ''root'',
     i_group := str ''root'', i_mtime := 1, i_is_directory := True\<rparr>"

lemma demo_op: "length key < 256 \<Longrightarrow> log_op iid (mkdir_record key) = Some (Mkdir (mkdir_inode iid key))"
  by (simp add: log_op_def mkdir_record_def mkdir_inode_def fin_mkdir_def mutable_mkr_def c_strcpy_def short_of_def str_def dfs_code LogOperator0_def)

lemma demo_text: "\<forall>b \<in> set key. b < 0x80 \<Longrightarrow> length key < 256 \<Longrightarrow> lopr_ok wire0 (mkdir_record key)"
  by (simp add: lopr_ok_def text_ok_def mkdir_record_def wire0_def str_def LogOperator0_def)

lemma demo_path: "get_store_path root_key = [slash]" "get_store_path a_key = [slash, 97]"
  unfolding root_key_def a_key_def by (rule get_store_path_encode; simp add: slash_def cstring_def)+

lemma demo_parent: "parent_key_of root_key = None" "parent_key_of a_key = Some root_key" "is_root (get_store_path root_key)"
proof -
  have root: "is_root [slash]" "\<not> is_root [slash, 97]" by (code_simp)+
  then show "is_root (get_store_path root_key)" "parent_key_of root_key = None" by (simp_all add: demo_path parent_key_of_def)
  have "get_parent_key [slash, 97] = key_encode [slash]" by (simp add: get_parent_key_def slash_def)
  also have "\<dots> = Some root_key" using demo_key_bytes(1) by (simp add: key_encode_def c_strcpy_def root_key_def dfs_code)
  finally show "parent_key_of a_key = Some root_key" using root(2) by (simp add: parent_key_of_def demo_path)
qed

abbreviation demo_keys :: "bytes set" where
  "demo_keys \<equiv> {root_key, a_key}"

lemma demo_separate: "separate cap demo_keys"
  by (simp add: separate_def demo_key_bytes)

definition demo_log :: "(u64 \<times> LogOperator) list" where
  "demo_log = [(1, mkdir_record root_key), (2, mkdir_record a_key)]"

definition demo_fs :: file_system where
  "demo_fs = fs_spec (Mkdir (mkdir_inode 2 a_key)) (fs_spec (Mkdir (mkdir_inode 1 root_key)) Map.empty)"

lemma demo_fs_entries: "demo_fs root_key = Some \<lparr>e_inode = (mkdir_inode 1 root_key)\<lparr>i_mtime := 1\<rparr>, e_creating = False, e_entries = [a_key]\<rparr>"
    "demo_fs a_key = Some \<lparr>e_inode = mkdir_inode 2 a_key, e_creating = False, e_entries = []\<rparr>"
  by (simp_all add: demo_fs_def fs_link_def fs_edit_def mkdir_inode_def demo_parent, simp_all add: demo_key_bytes)

lemma demo_applicable: "fs_log 5147 demo_keys wire0 Map.empty demo_log demo_fs"
proof -
  let ?F = "fs_spec (Mkdir (mkdir_inode 1 root_key)) Map.empty"
  have F: "?F = [root_key \<mapsto> \<lparr>e_inode = mkdir_inode 1 root_key, e_creating = False, e_entries = []\<rparr>]"
    by (simp add: fs_link_def mkdir_inode_def demo_parent)
  have lok: "lopr_ok wire0 (mkdir_record root_key)" "lopr_ok wire0 (mkdir_record a_key)"
    by (rule demo_text; simp add: demo_key_bytes)+
  have op: "log_op 1 (mkdir_record root_key) = Some (Mkdir (mkdir_inode 1 root_key))"
      "log_op 2 (mkdir_record a_key) = Some (Mkdir (mkdir_inode 2 a_key))"
    by (rule demo_op; simp add: demo_key_bytes)+
  have "fs_pre 5147 demo_keys Map.empty (Mkdir (mkdir_inode 1 root_key))"
    using demo_parent(3) by (simp add: mkdir_inode_def)
  moreover have "fs_pre 5147 demo_keys ?F (Mkdir (mkdir_inode 2 a_key))"
    unfolding F using demo_parent(2) by (simp add: mkdir_inode_def fs_in_dir_def fs_dir_def, simp add: demo_key_bytes)
  ultimately show ?thesis
    unfolding demo_log_def demo_fs_def using op lok by (blast intro: fs_log.intros)
qed

lemma demo_repr: "\<exists>mem fi0 fi bd. nn_file_index_worker_init 5147 mem (\<lambda>_. True) True fi0 = Some (DFS_OK, fi) \<and>
    bd_reachable {demo_ip} bd \<and> fs_repr 5147 demo_keys {demo_ip} \<lparr>nn_fi = fi, nn_bd = bd\<rparr> Map.empty"
proof -
  have cap: "dfs_math_find_prime 5147 = Some 5147" "(5147 :: nat) < prime_bound"
    using find_prime_search[OF prime_5147, of 5147] by (auto simp: prime_bound_def)
  obtain fi where fi: "nn_file_index_worker_init 5147 undefined (\<lambda>_. True) True undefined = Some (DFS_OK, fi)"
    using fi_init_ok[OF cap(1) prime_5147 cap(2) demo_separate, of "\<lambda>_. True" undefined undefined] by auto
  obtain bd where "bd_reachable {demo_ip} bd" using demo_start by blast
  with start_repr[OF cap(1) prime_5147 cap(2) demo_separate _ fi demo_cluster] fi show ?thesis by blast
qed

theorem execute_refines_witness:
  "\<exists>s s'. Execute wire0 0 None (LogOperator_SerializeToString wire0 (mkdir_record root_key)) 1 s = Some s' \<and>
    fs_repr 5147 demo_keys {demo_ip} s' [root_key \<mapsto> \<lparr>e_inode = mkdir_inode 1 root_key, e_creating = False, e_entries = []\<rparr>]"
proof -
  obtain s where s: "fs_repr 5147 demo_keys {demo_ip} s Map.empty" using demo_repr by blast
  have lok: "lopr_ok wire0 (mkdir_record root_key)" by (rule demo_text; simp add: demo_key_bytes)
  have op: "log_op 1 (mkdir_record root_key) = Some (Mkdir (mkdir_inode 1 root_key))" by (rule demo_op; simp add: demo_key_bytes)
  have "fs_pre 5147 demo_keys Map.empty (Mkdir (mkdir_inode 1 root_key))" using demo_parent(3) by (simp add: mkdir_inode_def)
  from execute_refines[OF wire0_ok lok op s this, of 0 None] show ?thesis
    by (auto simp: fs_link_def mkdir_inode_def demo_parent)
qed

theorem replicas_agree_witness:
  "\<exists>s t s' t'. replay wire0 (\<lambda>_. (0, None)) 0 demo_log s = Some s' \<and> replay wire0 (\<lambda>i. (int i, Some 7)) 0 demo_log t = Some t' \<and>
    nn_ls (str ''root'') ((demo_task TNull)\<lparr>t_key := root_key\<rparr>) (nn_fi s') = nn_ls (str ''root'') ((demo_task TNull)\<lparr>t_key := root_key\<rparr>) (nn_fi t')"
proof -
  obtain s where s: "fs_repr 5147 demo_keys {demo_ip} s Map.empty" using demo_repr by blast
  have key: "t_key ((demo_task TNull)\<lparr>t_key := root_key\<rparr>) \<in> demo_keys" by simp
  from replicas_agree[OF wire0_ok demo_applicable s s, of "\<lambda>_. (0, None)" "\<lambda>i. (int i, Some 7)"] key show ?thesis by blast
qed

theorem replay_tree_witness:
  "\<exists>fi bd s'. replay wire0 (\<lambda>_. (0, None)) 0 demo_log \<lparr>nn_fi = fi, nn_bd = bd\<rparr> = Some s' \<and>
    fs_wf demo_fs \<and> fs_repr 5147 demo_keys {demo_ip} s' demo_fs \<and> demo_fs a_key \<noteq> None"
proof -
  have cap: "dfs_math_find_prime 5147 = Some 5147" "(5147 :: nat) < prime_bound"
    using find_prime_search[OF prime_5147, of 5147] by (auto simp: prime_bound_def)
  obtain mem fi0 fi bd where fi: "nn_file_index_worker_init 5147 mem (\<lambda>_. True) True fi0 = Some (DFS_OK, fi)" "bd_reachable {demo_ip} bd"
    using demo_repr by blast
  have "\<forall>r :: resource. True" by simp
  from replay_tree[OF wire0_ok cap(1) prime_5147 cap(2) demo_separate this fi(1) demo_cluster fi(2) demo_applicable, of "\<lambda>_. (0, None)"]
  show ?thesis using demo_fs_entries(2) by auto
qed

end
