(* ===== verification/Nn_Handlers.thy ===== *)
theory Nn_Handlers
  imports Nn_File_Log
begin

text \<open>
  The handlers of \<open>nn_paxos.c\<close> together with what they propose: what a client is answered and what file
  system the name node holds afterwards, for a master whose proposals are executed.
\<close>

section \<open>Proposals\<close>

text \<open>
  The paxos library runs the state machine on a value that was chosen, under the number of its instance,
  and reports success.
\<close>

definition proposals_run :: "paxos \<Rightarrow> bool" where
  "proposals_run px \<longleftrightarrow> (\<forall>g v sm s. \<exists>iid. px_Propose px g v sm s = map_option (Pair DFS_OK) (sm iid s))"

definition master_env :: "nn_env \<Rightarrow> bool" where
  "master_env env \<longleftrightarrow> wire_ok (e_wire env) \<and> proposals_run (e_paxos env) \<and> 0 < e_group_count env \<and>
     (\<forall>g. px_IsIMMaster (e_paxos env) g)"

lemma master_group: "master_env env \<Longrightarrow> \<exists>g. GetGroupIdx (e_group_count env) k = Some g"
  by (simp add: master_env_def GetGroupIdx_def Let_def)

lemma master_is: "master_env env \<Longrightarrow> IsIMMaster env k = Some True"
  using master_group[of env k] by (auto simp: IsIMMaster_def master_env_def)

lemma propose_op:
  assumes env: "master_env env" and lopr: "lopr_ok (e_wire env) lopr" "\<And>iid. log_op iid lopr = Some (op iid)"
    and s: "fs_repr cap K ids (px_nn st) F" "\<And>iid. fs_pre cap K F (op iid)"
  shows "\<exists>iid s'. propose_log env k lopr data st = Some (st\<lparr>px_nn := s'\<rparr>) \<and> fs_repr cap K ids s' (fs_spec (op iid) F)"
proof -
  let ?v = "LogOperator_SerializeToString (e_wire env) lopr"
  obtain g where g: "GetGroupIdx (e_group_count env) k = Some g" using master_group[OF env] by blast
  have "proposals_run (e_paxos env)" using env by (simp add: master_env_def)
  then obtain iid where iid: "px_Propose (e_paxos env) g ?v (Execute (e_wire env) (uint (e_time env)) data ?v) (px_nn st) =
      map_option (Pair DFS_OK) (Execute (e_wire env) (uint (e_time env)) data ?v iid (px_nn st))"
    unfolding proposals_run_def by blast
  have "wire_ok (e_wire env)" using env by (simp add: master_env_def)
  from Execute_op[OF this lopr(1) lopr(2)] fs_exec_refines[OF s(1) s(2)[of iid]] obtain s' where
    "Execute (e_wire env) (uint (e_time env)) data ?v iid (px_nn st) = Some s'" "fs_repr cap K ids s' (fs_spec (op iid) F)" by metis
  then show ?thesis using g iid by (auto simp: propose_log_def Propose_def)
qed

lemma repr_lookup:
  assumes "fs_repr cap K ids s F" "k \<in> K"
  shows "F k = None \<Longrightarrow> get_store_obj k (nn_fi s) = Some None"
    and "F k = Some e \<Longrightarrow> \<exists>p d. get_store_obj k (nn_fi s) = Some (Some p) \<and> pool_at p (fi_pool (nn_fi s)) = Some d \<and>
      fs_fin d = e_inode e \<and> (fs_state d = KEY_STATE_CREATING \<longleftrightarrow> e_creating e)"
proof -
  from assms(1) obtain A where rel: "fi_rel cap K (nn_fi s) A" and F: "F = fs_abs (nn_fi s) A" by (auto simp: fs_repr_def)
  note get = get_store_table[OF rel_tab[OF rel] assms(2)]
  show "F k = None \<Longrightarrow> get_store_obj k (nn_fi s) = Some None" using get by (simp add: F)
  show "\<exists>p d. get_store_obj k (nn_fi s) = Some (Some p) \<and> pool_at p (fi_pool (nn_fi s)) = Some d \<and>
      fs_fin d = e_inode e \<and> (fs_state d = KEY_STATE_CREATING \<longleftrightarrow> e_creating e)" if "F k = Some e"
    using that get fi_at[OF rel_tab[OF rel] in_live] by (auto simp: F fs_of_Some)
qed

section \<open>Removal\<close>

text \<open>What a removal is answered and what it asks for.\<close>

definition remove_answer :: "nn_env \<Rightarrow> task \<Rightarrow> file_system \<Rightarrow> int option" where
  "remove_answer env task F =
     (case F (t_key task) of
        None \<Rightarrow> Some KEY_NOTEXIST
      | Some e \<Rightarrow>
          if i_is_directory (e_inode e) \<noteq> (t_cmd task = NN_RMR) then Some (if t_cmd task = NN_RMR then NOT_DIRECTORY else NOT_FILE)
          else do {
            rc \<leftarrow> (if is_super (t_user task) (e_admin env) then Some DFS_OK else check_ancestor_access task WRITE (e_inode e));
            Some (if rc \<noteq> DFS_OK then PERMISSION_DENY else SUCC) })"

definition remove_op :: "nn_env \<Rightarrow> task \<Rightarrow> fs_op" where
  "remove_op env task =
     (let fin = fi_inode0\<lparr>i_key := t_key task, i_mtime := e_time env\<rparr> in if t_cmd task = NN_RMR then Rmr fin else Rm fin)"

definition remove_record :: "nn_env \<Rightarrow> task \<Rightarrow> LogOperator" where
  "remove_record env task =
     (if t_cmd task = NN_RMR then LogOperator0\<lparr>optype := of_int NN_RMR, rmr := Some \<lparr>rmr_key = t_key task, rmr_mtime = e_time env\<rparr>\<rparr>
      else LogOperator0\<lparr>optype := of_int NN_RM, rm := Some \<lparr>rm_key = t_key task, rm_mtime = e_time env\<rparr>\<rparr>)"

lemma remove_record_op: "length (t_key task) < 256 \<Longrightarrow> log_op iid (remove_record env task) = Some (remove_op env task)"
  by (simp add: log_op_def remove_record_def remove_op_def mutable_rm_def mutable_rmr_def c_strcpy_def LogOperator0_def dfs_code Let_def)

lemma remove_record_ok: "text_ok w (t_key task) \<Longrightarrow> lopr_ok w (remove_record env task)"
  by (simp add: lopr_ok_def remove_record_def LogOperator0_def)

lemma do_remove:
  assumes "t_cmd task = NN_RM \<or> t_cmd task = NN_RMR" "master_env env" "fs_repr cap K ids (px_nn st) F" "t_key task \<in> K"
    "remove_answer env task F = Some r"
  shows "do_paxos_task env task st = (if r = SUCC then do {
      st \<leftarrow> propose_log env (t_key task) (remove_record env task) None st;
      Some (DFS_OK, Some (task\<lparr>t_ret := SUCC\<rparr>), inc_edit_op_num env st) }
    else Some (DFS_OK, Some (task\<lparr>t_ret := r\<rparr>), st))"
proof (cases "F (t_key task)")
  case None
  then show ?thesis using assms(1,5) repr_lookup(1)[OF assms(3,4)] master_is[OF assms(2)]
    by (auto simp: do_paxos_task_def log_rm_def log_rmr_def remove_answer_def dfs_code)
next
  case (Some e)
  from repr_lookup(2)[OF assms(3,4) Some] obtain p d where
    p: "get_store_obj (t_key task) (nn_fi (px_nn st)) = Some (Some p)" "pool_at p (fi_pool (nn_fi (px_nn st))) = Some d" "fs_fin d = e_inode e"
    by blast
  have codes: "NN_RM \<noteq> NN_RMR" "SUCC \<noteq> NOT_FILE" "SUCC \<noteq> NOT_DIRECTORY" "SUCC \<noteq> PERMISSION_DENY" by (simp_all add: dfs_code)
  show ?thesis
  proof (cases "t_cmd task = NN_RMR")
    case True
    then have "do_paxos_task env task st = map_option (\<lambda>(task, st). (DFS_OK, Some task, st)) (log_rmr env task st)"
      by (simp add: do_paxos_task_def dfs_code)
    then show ?thesis using True assms(5) p Some master_is[OF assms(2)] codes
      by (auto simp: log_rmr_def remove_answer_def remove_record_def split: bind_splits if_splits)
  next
    case False
    then have "do_paxos_task env task st = map_option (\<lambda>(task, st). (DFS_OK, Some task, st)) (log_rm env task st)"
      using assms(1) by (simp add: do_paxos_task_def dfs_code)
    then show ?thesis using False assms(1,5) p Some master_is[OF assms(2)] codes
      by (auto simp: log_rm_def remove_answer_def remove_record_def split: bind_splits if_splits)
  qed
qed

section \<open>New directories\<close>

lemma strncmp_refl [simp]: "string_strncmp s s n = 0"
  by (induction n arbitrary: s) auto

text \<open>The inodes of a path of which only the last component is missing.\<close>

lemma repr_path:
  assumes "fs_repr cap K ids s F" "k \<in> K" "F k = None"
  shows "set anc \<subseteq> K \<inter> dom F \<Longrightarrow> \<exists>ps. path_inodes_loop i (anc @ [k]) (nn_fi s) = Some (i + int (length anc) - 1, ps) \<and>
    length ps = length anc \<and> (\<forall>j < length anc. \<exists>d e. pool_at (ps ! j) (fi_pool (nn_fi s)) = Some d \<and> F (anc ! j) = Some e \<and> fs_fin d = e_inode e)"
proof (induction anc arbitrary: i)
  case Nil
  then show ?case using repr_lookup(1)[OF assms] by simp
next
  case (Cons a anc)
  have sub: "set anc \<subseteq> K \<inter> dom F" using Cons.prems by simp
  from Cons.IH[OF sub, of "i + 1"] obtain ps where ps: "path_inodes_loop (i + 1) (anc @ [k]) (nn_fi s) = Some (i + 1 + int (length anc) - 1, ps)" "length ps = length anc"
    "\<forall>j < length anc. \<exists>d e. pool_at (ps ! j) (fi_pool (nn_fi s)) = Some d \<and> F (anc ! j) = Some e \<and> fs_fin d = e_inode e"
    by blast
  from Cons.prems obtain e where e: "a \<in> K" "F a = Some e" by auto
  from repr_lookup(2)[OF assms(1) e] obtain p d where
    p: "get_store_obj a (nn_fi s) = Some (Some p)" "pool_at p (fi_pool (nn_fi s)) = Some d" "fs_fin d = e_inode e" by blast
  have "\<exists>d e. pool_at ((p # ps) ! j) (fi_pool (nn_fi s)) = Some d \<and> F ((a # anc) ! j) = Some e \<and> fs_fin d = e_inode e" if "j < Suc (length anc)" for j
    using that ps(3) p(2,3) e(2) by (cases j) auto
  then show ?case using ps(1,2) p(1) by (intro exI[of _ "p # ps"]) simp
qed

text \<open>The components that exist are passed over.\<close>

lemma mkdir_loop_skip:
  assumes "names_sz \<noteq> 1" "0 \<le> parent_index"
    and "\<forall>j < length anc. \<exists>p d. finodes (i + j) = Some p \<and> pool_at p (fi_pool (nn_fi (px_nn st))) = Some d \<and> i_key (fs_fin d) = anc ! j"
  shows "mkdir_loop env key finodes names_sz parent_index lopr i (anc @ ks) st =
    mkdir_loop env key finodes names_sz parent_index lopr (i + length anc) ks st"
  using assms(3)
proof (induction anc arbitrary: i)
  case (Cons a anc)
  from Cons.prems have "\<exists>p d. finodes i = Some p \<and> pool_at p (fi_pool (nn_fi (px_nn st))) = Some d \<and> i_key (fs_fin d) = a"
    by (metis add.right_neutral length_Cons nth_Cons_0 zero_less_Suc)
  moreover have "\<exists>p d. finodes (Suc i + j) = Some p \<and> pool_at p (fi_pool (nn_fi (px_nn st))) = Some d \<and> i_key (fs_fin d) = anc ! j"
    if "j < length anc" for j
    using Cons.prems that by (metis Suc_less_eq add_Suc_shift length_Cons nth_Cons_Suc)
  ultimately show ?case using Cons.IH[of "Suc i"] assms(1,2) by auto
qed simp

lemma repr_wf: "fs_repr cap K ids s F \<Longrightarrow> fs_wf F"
  using rel_wf by (auto simp: fs_repr_def)

text \<open>The record of a new directory and the inode that it becomes.\<close>

definition mkdir_of :: "nn_env \<Rightarrow> task \<Rightarrow> LogMkdir" where
  "mkdir_of env task = \<lparr>mkr_key = t_key task, mkr_permission = of_int (t_permission task), mkr_owner = t_user task,
     mkr_group = t_group task, mkr_mtime = e_time env\<rparr>"

definition mkdir_fin :: "nn_env \<Rightarrow> task \<Rightarrow> u64 \<Rightarrow> fi_inode" where
  "mkdir_fin env task iid = fi_inode0\<lparr>i_uid := iid, i_key := t_key task, i_permission := short_of (of_int (t_permission task)),
     i_owner := t_user task, i_group := t_group task, i_mtime := e_time env, i_is_directory := True\<rparr>"

definition strings_fit :: "nn_env \<Rightarrow> task \<Rightarrow> bool" where
  "strings_fit env task \<longleftrightarrow> length (t_key task) < KEY_LEN \<and> length (t_user task) < OWNER_LEN \<and> length (t_group task) < GROUP_LEN \<and>
     text_ok (e_wire env) (t_key task) \<and> text_ok (e_wire env) (t_user task) \<and> text_ok (e_wire env) (t_group task)"

lemma log_mkdir_one:
  assumes env: "master_env env" "is_super (t_user task) (e_admin env)" and s: "fs_repr cap K ids (px_nn st) F"
    and key: "t_key task \<in> K" "F (t_key task) = None" and names: "get_path_names (get_store_path (t_key task)) = (names, path)" "\<not> is_root path"
    and keys: "get_path_keys names = Some (anc @ [t_key task])" "anc \<noteq> []" "set anc \<subseteq> K \<inter> dom F" and dir: "fs_dir F (last anc)"
    and stack: "e_stack env (length anc) = None" and room: "\<not> is_FsObjectExceed (e_index_num env) 1 (nn_fi (px_nn st))"
  shows "log_mkdir env task st = do {
     st \<leftarrow> propose_log env (t_key task) (LogOperator0\<lparr>optype := of_int (t_cmd task), mkr := Some (mkdir_of env task)\<rparr>) None st;
     Some (task\<lparr>t_ret := SUCC\<rparr>, inc_edit_op_num env st) }"
proof -
  let ?s = "nn_fi (px_nn st)" and ?n = "length anc"
  from repr_path[OF s key keys(3), of 0] obtain ps where ps: "get_path_inodes (anc @ [t_key task]) ?s = Some (int ?n - 1, ps)" "length ps = ?n"
      "\<forall>j < ?n. \<exists>d e. pool_at (ps ! j) (fi_pool ?s) = Some d \<and> F (anc ! j) = Some e \<and> fs_fin d = e_inode e"
    by (auto simp: get_path_inodes_def)
  have len: "length names = Suc ?n" using path_keys_length keys(1) by (fastforce simp: get_path_keys_def)
  have n: "0 < ?n" using keys(2) by simp
  have slots: "finodes_of env ps j = Some (ps ! j)" if "j < ?n" for j using that ps(2) by (simp add: finodes_of_def)
  have last: "finodes_of env ps ?n = None" using ps(2) stack by (simp add: finodes_of_def)
  have n1: "nat (int ?n - 1) = ?n - 1" "?n - 1 < ?n" using n by auto
  obtain d e where d: "pool_at (ps ! (?n - 1)) (fi_pool ?s) = Some d" "F (anc ! (?n - 1)) = Some e" "fs_fin d = e_inode e"
    using ps(3) n1(2) by blast
  then have "i_is_directory (fs_fin d)" using dir keys(2) by (simp add: fs_dir_def last_conv_nth)
  moreover have "\<exists>p d. finodes_of env ps (0 + j) = Some p \<and> pool_at p (fi_pool ?s) = Some d \<and> i_key (fs_fin d) = anc ! j" if "j < ?n" for j
    using ps(3) slots[OF that] that repr_wf[OF s] by (fastforce simp: fs_wf_def)
  then have skip: "mkdir_loop env (t_key task) (finodes_of env ps) (Suc ?n) (int ?n - 1) lopr 0 (anc @ [t_key task]) st =
      mkdir_loop env (t_key task) (finodes_of env ps) (Suc ?n) (int ?n - 1) lopr ?n [t_key task] st" for lopr
    using mkdir_loop_skip[of "Suc ?n" "int ?n - 1" anc "finodes_of env ps" 0 st] n by auto
  have "int (length names) - (int ?n - 1) - 1 = 1" using len by simp
  moreover have "Suc ?n \<noteq> 1" "\<not> int ?n - 1 < 0" using n by auto
  ultimately show ?thesis
    using master_is[OF env(1)] repr_lookup(1)[OF s key] names keys(1) ps(1) d(1) slots[OF n1(2)] room last env(2) len
    by (simp add: log_mkdir_def skip n1(1) check_user_def mutable_mkr_def LogMkdir0_def mkdir_of_def Let_def)
qed

lemma mkdir_of_op: "t_cmd task = NN_MKDIR \<Longrightarrow> strings_fit env task \<Longrightarrow>
    log_op iid (LogOperator0\<lparr>optype := of_int (t_cmd task), mkr := Some (mkdir_of env task)\<rparr>) = Some (Mkdir (mkdir_fin env task iid))"
  by (simp add: log_op_def fin_mkdir_def mkdir_of_def mkdir_fin_def strings_fit_def mutable_mkr_def c_strcpy_def dfs_code)

lemma mkdir_of_ok: "strings_fit env task \<Longrightarrow> lopr_ok (e_wire env) (LogOperator0\<lparr>optype := of_int (t_cmd task), mkr := Some (mkdir_of env task)\<rparr>)"
  by (simp add: lopr_ok_def mkdir_of_def strings_fit_def LogOperator0_def)

section \<open>Properties\<close>




text \<open>
  C28. A user who is not the administrator can create no file either: \<open>log_create\<close> never gets as far as a
  proposal.
\<close>

theorem log_create_ordinary:
  assumes "\<not> is_super (t_user task) (e_admin env)" and "log_create env task st = Some (task', st')"
  shows "t_ret task' \<in> {MASTER_REDIRECT, KEY_EXIST, KEY_STATE_CREATING, NOT_DIRECTORY, PERMISSION_DENY} \<and> st' = st"
  using assms(2)
  by (auto simp: log_create_def redirect_def Let_def split: bind_splits if_splits prod.splits option.splits task_data.splits
    dest: check_user_denied[of "task\<lparr>t_data := TNull\<rparr>" env, simplified, OF assms(1)])

section \<open>A run\<close>

text \<open>A master that executes its own proposals, and the name node with a root directory.\<close>

definition demo_env :: nn_env where
  "demo_env = \<lparr>e_paxos = \<lparr>px_IsIMMaster = (\<lambda>_. True), px_GetMaster = (\<lambda>_. 1),
       px_Propose = (\<lambda>g v sm s. map_option (Pair DFS_OK) (sm 1 s))\<rparr>, e_wire = wire0, e_group_count = 1, e_admin = str ''root'',
     e_namespace_id = 1, e_index_num = 5147, e_checkpoint_num = 100, e_time = 1, e_thread = 0, e_stack = (\<lambda>_. None)\<rparr>"

definition demo_req :: "int \<Rightarrow> bytes \<Rightarrow> task_data \<Rightarrow> task" where
  "demo_req cmd user d = \<lparr>t_cmd = cmd, t_ret = 0, t_master_nodeid = 0, t_key = a_key, t_user = user, t_group = user, t_permission = 755, t_data = d\<rparr>"

lemma demo_env_master: "master_env demo_env"
  by (auto simp: master_env_def proposals_run_def demo_env_def wire0_ok)

lemma demo_req_fits: "strings_fit demo_env (demo_req cmd (str ''root'') d)"
  by (simp add: strings_fit_def demo_req_def demo_env_def demo_key_bytes text_ok_def wire0_def str_def dfs_code)

lemma demo_super: "is_super (t_user (demo_req cmd (str ''root'') d)) (e_admin demo_env)"
  by (simp add: is_super_def demo_req_def demo_env_def)

lemma demo_names: "get_path_names (get_store_path a_key) = ([[slash], [97]], [slash, 97])"
  unfolding demo_path by code_simp

lemma demo_path_keys: "get_path_keys [[slash], [97]] = Some [root_key, a_key]"
  unfolding demo_key_bytes by code_simp

definition demo_root :: file_system where
  "demo_root = [root_key \<mapsto> \<lparr>e_inode = mkdir_inode 1 root_key, e_creating = False, e_entries = []\<rparr>]"

lemma demo_state: "\<exists>s. fs_repr 5147 demo_keys {demo_ip} s demo_fs" "\<exists>s. fs_repr 5147 demo_keys {demo_ip} s demo_root"
proof -
  obtain s where s: "fs_repr 5147 demo_keys {demo_ip} s Map.empty" using demo_repr by blast
  from replay_repr[OF wire0_ok demo_applicable s] show "\<exists>s. fs_repr 5147 demo_keys {demo_ip} s demo_fs" by blast
  have "fs_pre 5147 demo_keys Map.empty (Mkdir (mkdir_inode 1 root_key))" using demo_parent(3) by (simp add: mkdir_inode_def)
  from fs_exec_refines[OF s this, of 0 None] show "\<exists>s. fs_repr 5147 demo_keys {demo_ip} s demo_root"
    by (auto simp: demo_root_def fs_link_def mkdir_inode_def demo_parent)
qed

lemma demo_a_new: "demo_root a_key = None" "demo_root root_key = Some \<lparr>e_inode = mkdir_inode 1 root_key, e_creating = False, e_entries = []\<rparr>"
  by (simp_all add: demo_root_def demo_key_bytes)



lemma demo_lookups:
  assumes "fs_repr 5147 demo_keys {demo_ip} s demo_root"
  obtains p d where "get_store_obj a_key (nn_fi s) = Some None" "get_path_inodes [root_key, a_key] (nn_fi s) = Some (0, [p])"
    "pool_at p (fi_pool (nn_fi s)) = Some d" "fs_fin d = mkdir_inode 1 root_key"
proof -
  from repr_lookup(2)[OF assms _ demo_a_new(2)] obtain p d where "get_store_obj root_key (nn_fi s) = Some (Some p)"
    "pool_at p (fi_pool (nn_fi s)) = Some d" "fs_fin d = mkdir_inode 1 root_key" by auto
  moreover have "get_store_obj a_key (nn_fi s) = Some None" by (rule repr_lookup(1)[OF assms _ demo_a_new(1)]) simp
  ultimately show thesis using that by (simp add: get_path_inodes_def)
qed

lemma dfs_codes_differ: "DFS_ERROR \<noteq> DFS_OK"
  by (simp add: dfs_code)

lemma demo_not_super: "\<not> is_super (t_user (demo_req cmd (str ''bob'') d)) (e_admin demo_env)"
  by (simp add: is_super_def demo_req_def demo_env_def, code_simp)

lemma demo_bob: "\<exists>e. check_permission (demo_req cmd (str ''bob'') d) (mkdir_inode 1 root_key) EXECUTE = Some (DFS_ERROR, e)"
proof -
  have "user_right (demo_req cmd (str ''bob'') d) (mkdir_inode 1 root_key) = 5"
    using perm_digits_of[of 7 5 5] by (simp add: user_right_def demo_req_def mkdir_inode_def str_def)
  moreover have "cstrings (demo_req cmd (str ''bob'') d) (mkdir_inode 1 root_key)"
    by (simp add: cstrings_def demo_req_def mkdir_inode_def str_def)
  ultimately show ?thesis using check_permission_right[of _ _ EXECUTE] by (fastforce simp: dfs_code)
qed


theorem log_create_ordinary_witness:
  "\<exists>st st' task'. fs_repr 5147 demo_keys {demo_ip} (px_nn st) demo_root \<and> log_create demo_env (demo_req NN_CREATE (str ''bob'') (TBlkInfo 1 1)) st = Some (task', st') \<and>
    t_ret task' \<in> {MASTER_REDIRECT, KEY_EXIST, KEY_STATE_CREATING, NOT_DIRECTORY, PERMISSION_DENY} \<and> st' = st"
proof -
  let ?t = "demo_req NN_CREATE (str ''bob'') (TBlkInfo 1 1)"
  obtain s where s: "fs_repr 5147 demo_keys {demo_ip} s demo_root" using demo_state by blast
  let ?st = "\<lparr>px_nn = s, g_edit_op_num = 0, px_checkpoints = 0\<rparr>"
  have st: "fs_repr 5147 demo_keys {demo_ip} (px_nn ?st) demo_root" using s by simp
  obtain p d where p: "get_store_obj a_key (nn_fi s) = Some None" "get_path_inodes [root_key, a_key] (nn_fi s) = Some (0, [p])"
    "pool_at p (fi_pool (nn_fi s)) = Some d" "fs_fin d = mkdir_inode 1 root_key" using demo_lookups[OF s] .
  have key: "t_key ?t = a_key" "t_data ?t = TBlkInfo 1 1" by (simp_all add: demo_req_def)
  have "log_create demo_env ?t ?st = Some (?t\<lparr>t_data := TNull, t_ret := NOT_DIRECTORY\<rparr>, ?st)"
    using master_is[OF demo_env_master] p demo_names demo_path_keys by (simp add: log_create_def key Let_def)
  then show ?thesis using log_create_ordinary[OF demo_not_super, of NN_CREATE "TBlkInfo 1 1" ?st] st by blast
qed

end
