(* ===== verification/Dn_Index.thy ===== *)
theory Dn_Index
  imports Nn_Dn_Index
begin

text \<open>
  The block index of a data node (\<open>src/src/datanode/dn_data_storage.c\<close>) and the two queues of blocks
  that have to be reported to the name node (\<open>dn_ns_service.c\<close>): blocks received from a client and
  blocks found on disk. A record is on a queue by the links inside of it. A pointer that is NULL, and a
  record that is not allocated, make an operation \<^term>\<open>None\<close>.
\<close>

section \<open>The code\<close>

record block_info =
  bi_id :: u64
  bi_size :: u64
  bi_path :: bytes

definition block_info0 :: block_info where
  "block_info0 = \<lparr>bi_id = 0, bi_size = 0, bi_path = []\<rparr>"

text \<open>The nodes of the queues: the two sentinels and the link \<open>me\<close> of a record.\<close>

datatype dn_link = RecvQ | ReportQ | InfoMe nat

record dn_cache =
  bcm_pool :: "block_info mem_mblks"
  bcm_htable :: "(nat, u64) hashtable"
  dn_links :: "dn_link qheap"
  recv_num :: int
  report_num :: int

definition dn_uint64_cmp :: "u64 \<Rightarrow> u64 \<Rightarrow> nat \<Rightarrow> int" where
  "dn_uint64_cmp s1 s2 sz = (if s1 = s2 then DFS_FALSE else DFS_TRUE)"

definition dn_req_hash :: "u64 \<Rightarrow> nat \<Rightarrow> nat \<Rightarrow> nat" where
  "dn_req_hash u data_size hashtable_size = unat u mod hashtable_size"

definition dn_blk_mem_mgmt_create ::
  "(resource \<Rightarrow> bool) \<Rightarrow> nat \<Rightarrow> resource set \<Rightarrow> (int \<times> block_info mem_mblks option) \<times> resource set" where
  "dn_blk_mem_mgmt_create = mem_mgmt_create block_info0"

definition dn_blk_cache_mgmt_create ::
  "(nat, u64) hashtable \<Rightarrow> (resource \<Rightarrow> bool) \<Rightarrow> nat \<Rightarrow> resource set \<Rightarrow>
   ((block_info mem_mblks \<times> (nat, u64) hashtable) option \<times> resource set) option" where
  "dn_blk_cache_mgmt_create = cache_mgmt_create block_info0 dn_uint64_cmp dn_req_hash"

definition dn_blk_cache_mgmt_new_init ::
  "(nat, u64) hashtable \<Rightarrow> (resource \<Rightarrow> bool) \<Rightarrow>
   ((block_info mem_mblks \<times> (nat, u64) hashtable) option \<times> resource set) option" where
  "dn_blk_cache_mgmt_new_init mem ok = do {
     index_num \<leftarrow> dfs_math_find_prime BLK_NUM_IN_DN;
     dn_blk_cache_mgmt_create mem ok index_num {} }"

definition blk_report_queue_init :: "dn_cache \<Rightarrow> dn_cache" where
  "blk_report_queue_init s = s\<lparr>dn_links := queue_init ReportQ (queue_init RecvQ (dn_links s)), recv_num := 0, report_num := 0\<rparr>"

text \<open>The start of the index, after the directories were made.\<close>

definition dn_index_init :: "(nat, u64) hashtable \<Rightarrow> (resource \<Rightarrow> bool) \<Rightarrow> dn_cache \<Rightarrow> (int \<times> dn_cache) option" where
  "dn_index_init mem ok s = do {
     (r, _) \<leftarrow> dn_blk_cache_mgmt_new_init mem ok;
     Some (case r of
             None \<Rightarrow> (DFS_ERROR, s)
           | Some (pool, ht) \<Rightarrow> (DFS_OK, blk_report_queue_init (s\<lparr>bcm_pool := pool, bcm_htable := ht\<rparr>))) }"

definition dn_block_object_get :: "u64 \<Rightarrow> dn_cache \<Rightarrow> nat option option" where
  "dn_block_object_get blk_id s = dfs_hashtable_lookup (bcm_htable s) blk_id 8"

text \<open>
  What \<open>block_object_add\<close> and \<open>recv_blk_report\<close> have in common: a record is taken and entered into the
  table. When there is none left the code logs it and goes on with the NULL pointer.
\<close>

definition dn_block_new :: "u64 \<Rightarrow> u64 \<Rightarrow> bytes \<Rightarrow> dn_cache \<Rightarrow> (nat \<times> dn_cache) option" where
  "dn_block_new blk_id blk_sz path s = do {
     (r, pool) \<leftarrow> mem_get0 block_info0 (bcm_pool s);
     blk \<leftarrow> r;
     let links = queue_init (InfoMe blk) (clear_links (InfoMe blk) (dn_links s));
     p \<leftarrow> c_strcpy PATH_LEN path;
     pool \<leftarrow> pool_upd blk (\<lambda>b. b\<lparr>bi_id := blk_id, bi_size := blk_sz, bi_path := p\<rparr>) pool;
     ht \<leftarrow> dfs_hashtable_join blk (link_make blk blk_id 8 (bcm_htable s));
     Some (blk, s\<lparr>bcm_pool := pool, bcm_htable := ht, dn_links := links\<rparr>) }"

definition notify_nn_receivedblock :: "nat \<Rightarrow> dn_cache \<Rightarrow> dn_cache option" where
  "notify_nn_receivedblock blk s = do {
     links \<leftarrow> queue_insert_tail RecvQ (InfoMe blk) (dn_links s);
     Some (s\<lparr>dn_links := links, recv_num := recv_num s + 1\<rparr>) }"

definition notify_blk_report :: "nat \<Rightarrow> dn_cache \<Rightarrow> dn_cache option" where
  "notify_blk_report blk s = do {
     links \<leftarrow> queue_insert_tail ReportQ (InfoMe blk) (dn_links s);
     Some (s\<lparr>dn_links := links, report_num := report_num s + 1\<rparr>) }"

text \<open>\<open>blk_sz\<close> is the size that \<open>stat\<close> gives for the path.\<close>

definition dn_block_object_add :: "bytes \<Rightarrow> u64 \<Rightarrow> u64 \<Rightarrow> dn_cache \<Rightarrow> (int \<times> dn_cache) option" where
  "dn_block_object_add path blk_sz blk_id s = do {
     r \<leftarrow> dn_block_object_get blk_id s;
     case r of
       Some _ \<Rightarrow> Some (DFS_OK, s)
     | None \<Rightarrow> do {
         (blk, s) \<leftarrow> dn_block_new blk_id blk_sz path s;
         s \<leftarrow> notify_blk_report blk s;
         Some (DFS_OK, s) } }"

definition recv_blk_report :: "u64 \<Rightarrow> u64 \<Rightarrow> bytes \<Rightarrow> dn_cache \<Rightarrow> (int \<times> dn_cache) option" where
  "recv_blk_report block_id len path s = do {
     (blk, s) \<leftarrow> dn_block_new block_id len path s;
     s \<leftarrow> notify_nn_receivedblock blk s;
     Some (DFS_OK, s) }"

text \<open>The path that is unlinked from the disk, and the index.\<close>

definition dn_block_object_del :: "u64 \<Rightarrow> dn_cache \<Rightarrow> (int \<times> bytes option \<times> dn_cache) option" where
  "dn_block_object_del blk_id s = do {
     r \<leftarrow> dn_block_object_get blk_id s;
     case r of
       None \<Rightarrow> Some (DFS_ERROR, None, s)
     | Some blk \<Rightarrow> do {
         b \<leftarrow> pool_at blk (bcm_pool s);
         (_, ht) \<leftarrow> dfs_hashtable_remove_link blk (bcm_htable s);
         pool \<leftarrow> mem_put blk (bcm_pool s);
         Some (DFS_OK, Some (bi_path b), s\<lparr>bcm_htable := ht, bcm_pool := pool\<rparr>) } }"

text \<open>The deletions that the answer to a heartbeat carries; the result of each is not looked at.\<close>

fun delete_blks :: "u64 list \<Rightarrow> dn_cache \<Rightarrow> (bytes list \<times> dn_cache) option" where
  "delete_blks [] s = Some ([], s)"
| "delete_blks (blk_id # p) s = do {
     (_, gone, s) \<leftarrow> dn_block_object_del blk_id s;
     (gones, s) \<leftarrow> delete_blks p s;
     Some ((case gone of None \<Rightarrow> gones | Some path \<Rightarrow> path # gones), s) }"

fun info_of :: "dn_link \<Rightarrow> nat option" where
  "info_of (InfoMe p) = Some p"
| "info_of _ = None"

text \<open>
  \<open>receivedblock_report\<close> and \<open>block_report\<close>: the head of the queue is taken off and its record is read;
  then \<open>answer\<close> is the return code of the name node, \<open>None\<close> when the exchange fails. Nothing puts the
  record on the queue again.
\<close>

definition take_report :: "dn_link \<Rightarrow> dn_cache \<Rightarrow> ((u64 \<times> u64) \<times> dn_cache) option" where
  "take_report q s = do {
     cur \<leftarrow> queue_head q (dn_links s);
     links \<leftarrow> queue_remove cur (dn_links s);
     p \<leftarrow> info_of cur;
     b \<leftarrow> pool_at p (bcm_pool s);
     Some ((bi_id b, bi_size b), s\<lparr>dn_links := links\<rparr>) }"

definition receivedblock_report :: "bytes \<Rightarrow> (task_data \<Rightarrow> int option) \<Rightarrow> dn_cache \<Rightarrow> (int \<times> dn_cache) option" where
  "receivedblock_report listening_ip answer s = do {
     ((blk_id, blk_sz), s) \<leftarrow> take_report RecvQ s;
     dn_ip \<leftarrow> c_strcpy 32 listening_ip;
     Some (if answer (TReport blk_id blk_sz dn_ip) = Some DFS_OK then DFS_OK else DFS_ERROR, s\<lparr>recv_num := recv_num s - 1\<rparr>) }"

definition block_report :: "bytes \<Rightarrow> (task_data \<Rightarrow> int option) \<Rightarrow> dn_cache \<Rightarrow> (int \<times> dn_cache) option" where
  "block_report listening_ip answer s = do {
     ((blk_id, blk_sz), s) \<leftarrow> take_report ReportQ s;
     dn_ip \<leftarrow> c_strcpy 32 listening_ip;
     Some (if answer (TReport blk_id blk_sz dn_ip) = Some DFS_OK then DFS_OK else DFS_ERROR, s\<lparr>report_num := report_num s - 1\<rparr>) }"

section \<open>What the index represents\<close>

text \<open>
  \<open>dn_rel cap s bm Q R\<close>: the table is the map \<open>bm\<close> from block numbers to records, the records of \<open>Q\<close>
  wait to be reported as received and those of \<open>R\<close> as found, and the counters count them.
\<close>

abbreviation dn_fam :: "nat list \<Rightarrow> nat list \<Rightarrow> dn_link \<rightharpoonup> dn_link list" where
  "dn_fam Q R \<equiv> [RecvQ \<mapsto> map InfoMe Q, ReportQ \<mapsto> map InfoMe R]"

definition bcm_table :: "nat \<Rightarrow> dn_cache \<Rightarrow> (u64 \<rightharpoonup> nat) \<Rightarrow> bool" where
  "bcm_table cap s bm \<longleftrightarrow> ht_rep blk_klen (bcm_htable s) bm \<and> ht_cmp (bcm_htable s) = dn_uint64_cmp \<and>
     pool_state cap (bcm_pool s) (ran bm) \<and> (\<forall>bid p. bm bid = Some p \<longrightarrow> bi_id (mb_data (bcm_pool s) p) = bid)"

definition dn_rel :: "nat \<Rightarrow> dn_cache \<Rightarrow> (u64 \<rightharpoonup> nat) \<Rightarrow> nat list \<Rightarrow> nat list \<Rightarrow> bool" where
  "dn_rel cap s bm Q R \<longleftrightarrow> bcm_table cap s bm \<and> qfam (dn_links s) (dn_fam Q R) \<and> set Q \<union> set R \<subseteq> ran bm \<and>
     recv_num s = int (length Q) \<and> report_num s = int (length R)"

text \<open>The view of a client of the index: size and path of a block.\<close>

definition dn_view :: "dn_cache \<Rightarrow> (u64 \<rightharpoonup> nat) \<Rightarrow> u64 \<rightharpoonup> (u64 \<times> bytes)" where
  "dn_view s bm bid = map_option (\<lambda>p. (bi_size (mb_data (bcm_pool s) p), bi_path (mb_data (bcm_pool s) p))) (bm bid)"

lemma dn_no_clash [simp]: "ht_cmp ht = dn_uint64_cmp \<Longrightarrow> no_clash blk_klen ht k K"
  by (auto simp: no_clash_def dn_uint64_cmp_def dfs_code)

lemma dn_get: "bcm_table cap s bm \<Longrightarrow> dn_block_object_get bid s = Some (bm bid)"
  using lookup_exact[of blk_klen "bcm_htable s" bm bid] by (simp add: bcm_table_def dn_block_object_get_def blk_klen_def)

lemma bcm_at: "bcm_table cap s bm \<Longrightarrow> p \<in> ran bm \<Longrightarrow> pool_at p (bcm_pool s) = Some (mb_data (bcm_pool s) p)"
  unfolding bcm_table_def by (intro pool_at_used) auto

lemma bcm_table_card: "bcm_table cap s bm \<Longrightarrow> card (ran bm) = card (dom bm)"
  unfolding bcm_table_def by (metis ht_rep_card_ran)

lemma bcm_table_inj: "bcm_table cap s bm \<Longrightarrow> bm a = Some p \<Longrightarrow> bm b = Some p \<Longrightarrow> a = b"
  unfolding bcm_table_def by (metis ht_rep_inj)

lemma dn_fam_in: "in_queue (dn_fam Q R) x \<longleftrightarrow> (\<exists>p. x = InfoMe p \<and> p \<in> set Q \<union> set R)"
  by (auto simp: in_queue_def split: if_splits)

lemma dn_fam_disjoint: "qfam l (dn_fam Q R) \<Longrightarrow> p \<in> set Q \<Longrightarrow> p \<notin> set R"
  using qfam_unique[of l "dn_fam Q R" RecvQ "map InfoMe Q" ReportQ "map InfoMe R" "InfoMe p"] by auto

lemma dn_fam_distinct: "qfam l (dn_fam Q R) \<Longrightarrow> distinct Q \<and> distinct R"
  using qfam_distinct[of l "dn_fam Q R" RecvQ] qfam_distinct[of l "dn_fam Q R" ReportQ]
  by (auto simp: distinct_map)

section \<open>A new record\<close>

lemma dn_block_new_ok:
  assumes rel: "dn_rel cap s bm Q R" and new: "bm bid = None" and room: "card (dom bm) < cap" and path: "length path < PATH_LEN"
  shows "\<exists>p m ht l. dn_block_new bid sz path s = Some (p, s\<lparr>bcm_pool := m, bcm_htable := ht, dn_links := l\<rparr>) \<and> p \<notin> ran bm \<and>
    bcm_table cap (s\<lparr>bcm_pool := m, bcm_htable := ht, dn_links := l\<rparr>) (bm(bid \<mapsto> p)) \<and>
    qfam l ((dn_fam Q R)(InfoMe p \<mapsto> [])) \<and>
    mb_data m = (mb_data (bcm_pool s))(p := \<lparr>bi_id = bid, bi_size = sz, bi_path = path\<rparr>)"
proof -
  from rel have tab: "bcm_table cap s bm" and fam: "qfam (dn_links s) (dn_fam Q R)" and sub: "set Q \<union> set R \<subseteq> ran bm"
    by (auto simp: dn_rel_def)
  from tab have ht: "ht_rep blk_klen (bcm_htable s) bm" and pool: "pool_state cap (bcm_pool s) (ran bm)" by (auto simp: bcm_table_def)
  have "card (ran bm) < cap" using room by (simp add: bcm_table_card[OF tab])
  with mem_get0_ok[OF pool, of block_info0] obtain p m where
    p: "mem_get0 block_info0 (bcm_pool s) = Some (Some p, m)" "p \<notin> ran bm"
      "mb_data m = (mb_data (bcm_pool s))(p := block_info0)" "pool_state cap m (insert p (ran bm))" by blast
  from join_new_rep[OF ht p(2) new] obtain ht' where
    ht': "dfs_hashtable_join p (link_make p bid (blk_klen bid) (bcm_htable s)) = Some ht'"
      "ht_rep blk_klen ht' (bm(bid \<mapsto> p))" "ht_same (bcm_htable s) ht'" by blast
  let ?f = "\<lambda>b. b\<lparr>bi_id := bid, bi_size := sz, bi_path := path\<rparr>" and ?x = "InfoMe p"
  let ?m = "m\<lparr>mb_data := (mb_data m)(p := ?f (mb_data m p))\<rparr>" and ?l = "queue_init ?x (clear_links ?x (dn_links s))"
  have upd: "pool_upd p ?f m = Some ?m" by (rule pool_upd_used[OF p(4)]) simp
  have dat: "mb_data ?m = (mb_data (bcm_pool s))(p := \<lparr>bi_id = bid, bi_size = sz, bi_path = path\<rparr>)"
    by (simp add: p(3) block_info0_def)
  have "bi_id (mb_data ?m q) = i" if "(bm(bid \<mapsto> p)) i = Some q" for i q
    using that tab p(2) unfolding dat by (auto simp: bcm_table_def ran_def split: if_splits)
  moreover have "ran (bm(bid \<mapsto> p)) = insert p (ran bm)" using new by simp
  ultimately have "bcm_table cap (s\<lparr>bcm_pool := ?m, bcm_htable := ht', dn_links := ?l\<rparr>) (bm(bid \<mapsto> p))"
    using tab ht'(2,3) p(4) by (simp add: bcm_table_def ht_same_def pool_state_data)
  moreover have "\<not> in_queue (dn_fam Q R) ?x" using p(2) sub by (auto simp: dn_fam_in)
  then have "qfam ?l ((dn_fam Q R)(?x \<mapsto> []))" by (intro qfam_init qfam_clear fam) simp_all
  ultimately show ?thesis using dat p(2)
    by (intro exI[of _ p] exI[of _ ?m] exI[of _ ht'] exI[of _ ?l])
      (use p(1) upd ht'(1) path in \<open>simp add: dn_block_new_def c_strcpy_def blk_klen_def\<close>)
qed

text \<open>A new record at the end of one of the queues; \<open>Q'\<close> and \<open>R'\<close> are the queues afterwards.\<close>

lemma fam_tail:
  assumes "qfam l ((dn_fam Q R)(InfoMe p \<mapsto> []))" "p \<notin> set Q \<union> set R"
  shows "\<exists>l'. queue_insert_tail RecvQ (InfoMe p) l = Some l' \<and> qfam l' (dn_fam (Q @ [p]) R)"
    and "\<exists>l'. queue_insert_tail ReportQ (InfoMe p) l = Some l' \<and> qfam l' (dn_fam Q (R @ [p]))"
proof -
  have new: "\<not> in_queue ((dn_fam Q R)(InfoMe p \<mapsto> [])) (InfoMe p)"
    using assms(2) by (auto simp: in_queue_def split: if_splits)
  have eq: "((dn_fam Q R)(InfoMe p \<mapsto> []))(InfoMe p := None, RecvQ \<mapsto> map InfoMe Q @ [InfoMe p]) = dn_fam (Q @ [p]) R"
    "((dn_fam Q R)(InfoMe p \<mapsto> []))(InfoMe p := None, ReportQ \<mapsto> map InfoMe R @ [InfoMe p]) = dn_fam Q (R @ [p])"
    by (auto simp: fun_eq_iff)
  from qfam_insert_tail[OF assms(1) _ new, of RecvQ "map InfoMe Q"]
  show "\<exists>l'. queue_insert_tail RecvQ (InfoMe p) l = Some l' \<and> qfam l' (dn_fam (Q @ [p]) R)" unfolding eq by simp
  from qfam_insert_tail[OF assms(1) _ new, of ReportQ "map InfoMe R"]
  show "\<exists>l'. queue_insert_tail ReportQ (InfoMe p) l = Some l' \<and> qfam l' (dn_fam Q (R @ [p]))" unfolding eq by simp
qed

lemma dn_view_new: "p \<notin> ran bm \<Longrightarrow> mb_data (bcm_pool s') = (mb_data (bcm_pool s))(p := \<lparr>bi_id = bid, bi_size = sz, bi_path = path\<rparr>) \<Longrightarrow>
    dn_view s' (bm(bid \<mapsto> p)) = (dn_view s bm)(bid \<mapsto> (sz, path))"
proof (rule ext)
  fix b assume p: "p \<notin> ran bm" and dat: "mb_data (bcm_pool s') = (mb_data (bcm_pool s))(p := \<lparr>bi_id = bid, bi_size = sz, bi_path = path\<rparr>)"
  show "dn_view s' (bm(bid \<mapsto> p)) b = ((dn_view s bm)(bid \<mapsto> (sz, path))) b"
    using p by (cases "bm b") (auto simp: dn_view_def dat ran_def)
qed

lemma recv_blk_report_ok:
  assumes rel: "dn_rel cap s bm Q R" and new: "bm bid = None" and room: "card (dom bm) < cap" and path: "length path < PATH_LEN"
  shows "\<exists>p s'. recv_blk_report bid sz path s = Some (DFS_OK, s') \<and> dn_rel cap s' (bm(bid \<mapsto> p)) (Q @ [p]) R \<and>
    dn_view s' (bm(bid \<mapsto> p)) = (dn_view s bm)(bid \<mapsto> (sz, path))"
proof -
  from dn_block_new_ok[OF assms, of sz] obtain p m ht l where
    p: "dn_block_new bid sz path s = Some (p, s\<lparr>bcm_pool := m, bcm_htable := ht, dn_links := l\<rparr>)" "p \<notin> ran bm"
      "bcm_table cap (s\<lparr>bcm_pool := m, bcm_htable := ht, dn_links := l\<rparr>) (bm(bid \<mapsto> p))" "qfam l ((dn_fam Q R)(InfoMe p \<mapsto> []))"
      "mb_data m = (mb_data (bcm_pool s))(p := \<lparr>bi_id = bid, bi_size = sz, bi_path = path\<rparr>)" by blast
  have "p \<notin> set Q \<union> set R" using p(2) rel by (auto simp: dn_rel_def)
  from fam_tail(1)[OF p(4) this] obtain l' where l': "queue_insert_tail RecvQ (InfoMe p) l = Some l'" "qfam l' (dn_fam (Q @ [p]) R)" by blast
  let ?s = "s\<lparr>bcm_pool := m, bcm_htable := ht, dn_links := l', recv_num := recv_num s + 1\<rparr>"
  have "recv_blk_report bid sz path s = Some (DFS_OK, ?s)"
    using p(1) l'(1) by (simp add: recv_blk_report_def notify_nn_receivedblock_def)
  moreover have "dn_rel cap ?s (bm(bid \<mapsto> p)) (Q @ [p]) R"
    using rel p(3) l'(2) new by (auto simp: dn_rel_def bcm_table_def)
  moreover have "dn_view ?s (bm(bid \<mapsto> p)) = (dn_view s bm)(bid \<mapsto> (sz, path))" using dn_view_new[OF p(2)] p(5) by simp
  ultimately show ?thesis by blast
qed

lemma dn_block_object_add_ok:
  assumes rel: "dn_rel cap s bm Q R" and new: "bm bid = None" and room: "card (dom bm) < cap" and path: "length path < PATH_LEN"
  shows "\<exists>p s'. dn_block_object_add path sz bid s = Some (DFS_OK, s') \<and> dn_rel cap s' (bm(bid \<mapsto> p)) Q (R @ [p]) \<and>
    dn_view s' (bm(bid \<mapsto> p)) = (dn_view s bm)(bid \<mapsto> (sz, path))"
proof -
  from dn_block_new_ok[OF assms, of sz] obtain p m ht l where
    p: "dn_block_new bid sz path s = Some (p, s\<lparr>bcm_pool := m, bcm_htable := ht, dn_links := l\<rparr>)" "p \<notin> ran bm"
      "bcm_table cap (s\<lparr>bcm_pool := m, bcm_htable := ht, dn_links := l\<rparr>) (bm(bid \<mapsto> p))" "qfam l ((dn_fam Q R)(InfoMe p \<mapsto> []))"
      "mb_data m = (mb_data (bcm_pool s))(p := \<lparr>bi_id = bid, bi_size = sz, bi_path = path\<rparr>)" by blast
  have "p \<notin> set Q \<union> set R" using p(2) rel by (auto simp: dn_rel_def)
  from fam_tail(2)[OF p(4) this] obtain l' where l': "queue_insert_tail ReportQ (InfoMe p) l = Some l'" "qfam l' (dn_fam Q (R @ [p]))" by blast
  let ?s = "s\<lparr>bcm_pool := m, bcm_htable := ht, dn_links := l', report_num := report_num s + 1\<rparr>"
  have "dn_block_object_get bid s = Some None" using dn_get[of cap s bm bid] rel new by (simp add: dn_rel_def)
  then have "dn_block_object_add path sz bid s = Some (DFS_OK, ?s)"
    using p(1) l'(1) by (simp add: dn_block_object_add_def notify_blk_report_def)
  moreover have "dn_rel cap ?s (bm(bid \<mapsto> p)) Q (R @ [p])"
    using rel p(3) l'(2) new by (auto simp: dn_rel_def bcm_table_def)
  moreover have "dn_view ?s (bm(bid \<mapsto> p)) = (dn_view s bm)(bid \<mapsto> (sz, path))" using dn_view_new[OF p(2)] p(5) by simp
  ultimately show ?thesis by blast
qed

lemma dn_block_object_add_known:
  "dn_rel cap s bm Q R \<Longrightarrow> bid \<in> dom bm \<Longrightarrow> dn_block_object_add path sz bid s = Some (DFS_OK, s)"
  using dn_get[of cap s bm bid] by (auto simp: dn_rel_def dn_block_object_add_def)

section \<open>Deletion\<close>

lemma dn_view_del: "bcm_table cap s bm \<Longrightarrow> mb_data (bcm_pool s') = mb_data (bcm_pool s) \<Longrightarrow>
    dn_view s' (bm(bid := None)) = (dn_view s bm)(bid := None)"
  by (rule ext) (simp add: dn_view_def)

lemma del_table:
  assumes tab: "bcm_table cap s bm" and p: "bm bid = Some p"
  shows "\<exists>ht m. dn_block_object_del bid s = Some (DFS_OK, Some (bi_path (mb_data (bcm_pool s) p)), s\<lparr>bcm_htable := ht, bcm_pool := m\<rparr>) \<and>
    bcm_table cap (s\<lparr>bcm_htable := ht, bcm_pool := m\<rparr>) (bm(bid := None)) \<and> mb_data m = mb_data (bcm_pool s)"
proof -
  from tab have ht: "ht_rep blk_klen (bcm_htable s) bm" and pool: "pool_state cap (bcm_pool s) (ran bm)" by (auto simp: bcm_table_def)
  have mem: "p \<in> ran bm" using p by (rule ranI)
  from remove_rep[OF ht p] obtain ht' where
    ht': "dfs_hashtable_remove_link p (bcm_htable s) = Some (DFS_HASHTABLE_OK, ht')" "ht_rep blk_klen ht' (bm(bid := None))" "ht_same (bcm_htable s) ht'"
    by blast
  from mem_put_ok[OF pool mem] obtain m where m: "mem_put p (bcm_pool s) = Some m" "mb_data m = mb_data (bcm_pool s)" "pool_state cap m (ran bm - {p})"
    by blast
  have "q \<in> ran (bm(bid := None)) \<longleftrightarrow> q \<in> ran bm - {p}" for q
  proof
    assume "q \<in> ran (bm(bid := None))"
    then obtain b where b: "b \<noteq> bid" "bm b = Some q" by (auto simp: ran_def split: if_splits)
    then have "q \<noteq> p" using bcm_table_inj[OF tab p, of b] by blast
    then show "q \<in> ran bm - {p}" using b(2) by (auto simp: ran_def)
  next
    assume "q \<in> ran bm - {p}"
    then obtain b where "bm b = Some q" "q \<noteq> p" by (auto simp: ran_def)
    then show "q \<in> ran (bm(bid := None))" using p by (intro ranI[of _ b]) auto
  qed
  then have "ran (bm(bid := None)) = ran bm - {p}" by blast
  then have "bcm_table cap (s\<lparr>bcm_htable := ht', bcm_pool := m\<rparr>) (bm(bid := None))"
    using tab ht'(2,3) m(2,3) by (auto simp: bcm_table_def ht_same_def split: if_splits)
  then show ?thesis
    using dn_get[OF tab, of bid] p bcm_at[OF tab mem] ht'(1) m(1,2) by (auto simp: dn_block_object_del_def)
qed

lemma dn_block_object_del_ok:
  assumes rel: "dn_rel cap s bm Q R" and p: "bm bid = Some p" and idle: "p \<notin> set Q \<union> set R"
  shows "\<exists>s'. dn_block_object_del bid s = Some (DFS_OK, Some (bi_path (mb_data (bcm_pool s) p)), s') \<and>
    dn_rel cap s' (bm(bid := None)) Q R \<and> dn_view s' (bm(bid := None)) = (dn_view s bm)(bid := None)"
proof -
  from rel have tab: "bcm_table cap s bm" by (simp add: dn_rel_def)
  from del_table[OF tab p] obtain ht m where
    d: "dn_block_object_del bid s = Some (DFS_OK, Some (bi_path (mb_data (bcm_pool s) p)), s\<lparr>bcm_htable := ht, bcm_pool := m\<rparr>)"
      "bcm_table cap (s\<lparr>bcm_htable := ht, bcm_pool := m\<rparr>) (bm(bid := None))" "mb_data m = mb_data (bcm_pool s)" by blast
  have "set Q \<union> set R \<subseteq> ran (bm(bid := None))"
  proof
    fix q assume q: "q \<in> set Q \<union> set R"
    then obtain b where b: "bm b = Some q" using rel by (auto simp: dn_rel_def ran_def)
    have "b \<noteq> bid" using b p q idle by auto
    then show "q \<in> ran (bm(bid := None))" using b by (auto simp: ran_def)
  qed
  then have "dn_rel cap (s\<lparr>bcm_htable := ht, bcm_pool := m\<rparr>) (bm(bid := None)) Q R" using rel d(2) by (simp add: dn_rel_def)
  moreover have "dn_view (s\<lparr>bcm_htable := ht, bcm_pool := m\<rparr>) (bm(bid := None)) = (dn_view s bm)(bid := None)"
    by (rule dn_view_del[OF tab]) (simp add: d(3))
  ultimately show ?thesis using d(1) by blast
qed

section \<open>Reports\<close>

lemma take_recv:
  assumes rel: "dn_rel cap s bm (p # Q) R" and p: "bm bid = Some p"
  shows "\<exists>l. take_report RecvQ s = Some ((bid, fst (the (dn_view s bm bid))), s\<lparr>dn_links := l\<rparr>) \<and>
    dn_rel cap (s\<lparr>dn_links := l, recv_num := recv_num s - 1\<rparr>) bm Q R"
proof -
  from rel have tab: "bcm_table cap s bm" and fam: "qfam (dn_links s) (dn_fam (p # Q) R)" by (auto simp: dn_rel_def)
  have head: "queue_head RecvQ (dn_links s) = Some (InfoMe p)" using qfam_head[OF fam, of RecvQ] by (simp add: queue_head_def)
  have "(dn_fam (p # Q) R)(RecvQ \<mapsto> remove1 (InfoMe p) (map InfoMe (p # Q))) = dn_fam Q R" by (auto simp: fun_eq_iff)
  with qfam_remove[OF fam, of RecvQ "map InfoMe (p # Q)" "InfoMe p"] obtain l where
    l: "queue_remove (InfoMe p) (dn_links s) = Some l" "qfam l (dn_fam Q R)" by auto
  have "bi_id (mb_data (bcm_pool s) p) = bid" using tab p by (simp add: bcm_table_def)
  then show ?thesis using head l rel bcm_at[OF tab ranI[of bm, OF p]] p
    by (auto simp: take_report_def dn_rel_def bcm_table_def dn_view_def)
qed

lemma take_found:
  assumes rel: "dn_rel cap s bm Q (p # R)" and p: "bm bid = Some p"
  shows "\<exists>l. take_report ReportQ s = Some ((bid, fst (the (dn_view s bm bid))), s\<lparr>dn_links := l\<rparr>) \<and>
    dn_rel cap (s\<lparr>dn_links := l, report_num := report_num s - 1\<rparr>) bm Q R"
proof -
  from rel have tab: "bcm_table cap s bm" and fam: "qfam (dn_links s) (dn_fam Q (p # R))" by (auto simp: dn_rel_def)
  have head: "queue_head ReportQ (dn_links s) = Some (InfoMe p)" using qfam_head[OF fam, of ReportQ] by (simp add: queue_head_def)
  have "(dn_fam Q (p # R))(ReportQ \<mapsto> remove1 (InfoMe p) (map InfoMe (p # R))) = dn_fam Q R" by (auto simp: fun_eq_iff)
  with qfam_remove[OF fam, of ReportQ "map InfoMe (p # R)" "InfoMe p"] obtain l where
    l: "queue_remove (InfoMe p) (dn_links s) = Some l" "qfam l (dn_fam Q R)" by auto
  have "bi_id (mb_data (bcm_pool s) p) = bid" using tab p by (simp add: bcm_table_def)
  then show ?thesis using head l rel bcm_at[OF tab ranI[of bm, OF p]] p
    by (auto simp: take_report_def dn_rel_def bcm_table_def dn_view_def)
qed

lemma dn_view_links: "bcm_pool s' = bcm_pool s \<Longrightarrow> dn_view s' bm = dn_view s bm"
  by (simp add: dn_view_def fun_eq_iff)

section \<open>Start\<close>

lemma dn_index_init_ok:
  assumes "\<forall>r. ok r"
  obtains cap s' where "BLK_NUM_IN_DN \<le> cap" "dn_index_init mem ok s = Some (DFS_OK, s')" "dn_rel cap s' Map.empty [] []"
proof -
  have "BLK_NUM_IN_DN \<le> 100003" "(100003 :: nat) < prime_bound" by (simp_all add: dfs_code prime_bound_def)
  from find_prime_known[OF prime_100003 this] obtain cap where
    cap: "dfs_math_find_prime BLK_NUM_IN_DN = Some cap" "prime_nat cap" "BLK_NUM_IN_DN \<le> cap" "cap < prime_bound" .
  from cache_mgmt_create_ok[OF assms cap(2,4), of block_info0 dn_uint64_cmp dn_req_hash mem blk_klen] obtain pool ht where
    c: "dn_blk_cache_mgmt_create mem ok cap {} = Some (Some (pool, ht), {RMgmt, RMem, RAllocator, RMblks})"
    "pool_state cap pool {}" "ht_rep blk_klen ht Map.empty" "ht_cmp ht = dn_uint64_cmp"
    unfolding dn_blk_cache_mgmt_create_def by blast
  let ?l = "queue_init ReportQ (queue_init RecvQ (dn_links s))"
  have "qfam (dn_links s) (\<lambda>_. None)" by (simp add: qfam_def in_queue_def)
  then have "qfam ?l (((\<lambda>_. None)(RecvQ \<mapsto> []))(ReportQ \<mapsto> []))" by (intro qfam_init) (auto simp: in_queue_def split: if_splits)
  then have "dn_rel cap (blk_report_queue_init (s\<lparr>bcm_pool := pool, bcm_htable := ht\<rparr>)) Map.empty [] []"
    using c by (simp add: dn_rel_def bcm_table_def blk_report_queue_init_def)
  then show ?thesis using that cap(1,3) c(1) by (simp add: dn_index_init_def dn_blk_cache_mgmt_new_init_def)
qed

end
