(* ===== verification/Dfs_Format.thy ===== *)
theory Dfs_Format
  imports Dfs_String "HOL-Library.Monad_Syntax"
begin

text \<open>
  The formatted output of \<open>src/src/core/dfs_string.c\<close> (\<open>string_xxvsnprintf\<close>, \<open>string_xxsprintf\<close>). The
  result is the list of bytes that are written at \<open>buf\<close>: the function does not terminate them. It writes
  no more than \<open>max\<close> bytes, and prints integers in decimal notation.
\<close>

section \<open>The code\<close>

text \<open>The variable arguments: a C string, a \<open>string_t\<close>, and everything that is passed in a word.\<close>

datatype va = VaStr bytes | VaStrT bytes | VaNum u64

record fmt_spec =
  f_zero :: u8
  f_width :: u32
  f_sign :: bool
  f_hexadecimal :: nat
  f_max_width :: bool
  f_slen :: "nat option"

definition DFS_INT_T_LEN :: u32 where "DFS_INT_T_LEN = 11"
definition DFS_INT64_LEN :: u32 where "DFS_INT64_LEN = 20"

fun fmt_width :: "u32 \<Rightarrow> bytes \<Rightarrow> u32 \<times> bytes" where
  "fmt_width width [] = (width, [])"
| "fmt_width width (c # fmt) = (if is_digit c then fmt_width (width * 10 + ucast (c - 48)) fmt else (width, c # fmt))"

text \<open>The flags; the length of \<open>*\<close> is an argument, and all ones stands for no length.\<close>

fun fmt_flags :: "fmt_spec \<Rightarrow> bytes \<Rightarrow> va list \<Rightarrow> (fmt_spec \<times> bytes \<times> va list) option" where
  "fmt_flags sp [] args = Some (sp, [], args)"
| "fmt_flags sp (c # fmt) args =
     (if c = 117 then fmt_flags (sp\<lparr>f_sign := False\<rparr>) fmt args
      else if c = 109 then fmt_flags (sp\<lparr>f_max_width := True\<rparr>) fmt args
      else if c = 88 then fmt_flags (sp\<lparr>f_hexadecimal := 2, f_sign := False\<rparr>) fmt args
      else if c = 120 then fmt_flags (sp\<lparr>f_hexadecimal := 1, f_sign := False\<rparr>) fmt args
      else if c = 42 then (case args of
          VaNum n # args \<Rightarrow> fmt_flags (sp\<lparr>f_slen := (if n = -1 then None else Some (unat n))\<rparr>) fmt args
        | _ \<Rightarrow> None)
      else Some (sp, c # fmt, args))"

text \<open>A number of 32 or 64 bits, as the signed or the unsigned variable of the code.\<close>

definition arg32 :: "bool \<Rightarrow> u64 \<Rightarrow> int" where
  "arg32 sign v = (if sign then sint (ucast v :: u32) else uint (ucast v :: u32))"

definition arg64 :: "bool \<Rightarrow> u64 \<Rightarrow> int" where
  "arg64 sign v = (if sign then sint v else uint v)"

text \<open>
  The conversions of numbers: the value, the specification with what the conversion changes of it;
  \<open>None\<close> for a character that is no such conversion.
\<close>

definition fmt_number :: "u8 \<Rightarrow> fmt_spec \<Rightarrow> u64 \<Rightarrow> (int \<times> fmt_spec) option" where
  "fmt_number c sp v =
     (if c = 79 \<or> c = 84 \<or> c = 114 then Some (arg64 True v, sp\<lparr>f_sign := True\<rparr>)
      else if c = 80 then Some (arg32 True v, sp\<lparr>f_sign := True\<rparr>)
      else if c = 77 then (if v = -1 then Some (-1, sp\<lparr>f_sign := True\<rparr>) else Some (uint v, sp\<lparr>f_sign := False\<rparr>))
      else if c = 122 \<or> c = 108 \<or> c = 76 then Some (arg64 (f_sign sp) v, sp)
      else if c = 105 then Some (arg32 (f_sign sp) v, if f_max_width sp then sp\<lparr>f_width := DFS_INT_T_LEN\<rparr> else sp)
      else if c = 100 \<or> c = 68 then Some (arg32 (f_sign sp) v, sp)
      else if c = 65 then Some (arg32 (f_sign sp) v, if f_max_width sp then sp\<lparr>f_width := DFS_INT64_LEN\<rparr> else sp)
      else if c = 112 then Some (uint v, sp\<lparr>f_hexadecimal := 2, f_sign := False, f_zero := 48, f_width := 8\<rparr>)
      else None)"

fun digits :: "nat \<Rightarrow> bytes \<Rightarrow> nat \<Rightarrow> bytes" where
  "digits base ds n =
     (if base < 2 then [] else if n < base then [ds ! n] else digits base ds (n div base) @ [ds ! (n mod base)])"

declare digits.simps [simp del]

definition HEX_digits :: bytes where "HEX_digits = str ''0123456789ABCDEF''"
definition dec_digits :: bytes where "dec_digits = str ''0123456789''"

definition fmt_digits :: "nat \<Rightarrow> nat \<Rightarrow> bytes" where
  "fmt_digits hexadecimal n =
     (if hexadecimal = 1 then digits 16 hex_digits n else if hexadecimal = 2 then digits 16 HEX_digits n
      else digits 10 dec_digits n)"

text \<open>
  The output of a number into \<open>room\<close> bytes. The sign comes before the padding. The negation of the
  least number is undefined.
\<close>

definition fmt_out :: "fmt_spec \<Rightarrow> int \<Rightarrow> nat \<Rightarrow> bytes option" where
  "fmt_out sp v room =
     (if v = - (2 ^ 63) then None
      else let sg = (if f_sign sp \<and> v < 0 then [45] else []);
               room = room - length sg;
               ds = fmt_digits (f_hexadecimal sp) (nat \<bar>v\<bar>);
               pad = replicate (min (unat (f_width sp) - length ds) room) (f_zero sp)
           in Some (sg @ pad @ take (room - length pad) ds))"

text \<open>
  One conversion: \<open>fmt\<close> is what follows the percent sign. A format that ends there is read beyond its
  end.
\<close>

definition fmt_conv :: "bytes \<Rightarrow> va list \<Rightarrow> nat \<Rightarrow> (bytes \<times> bytes \<times> va list) option" where
  "fmt_conv fmt args room = do {
     let zero = (if chr0 fmt = 48 then 48 else 32);
     let (width, fmt) = fmt_width 0 fmt;
     (sp, fmt, args) \<leftarrow> fmt_flags \<lparr>f_zero = zero, f_width = width, f_sign = True, f_hexadecimal = 0, f_max_width = False,
       f_slen = None\<rparr> fmt args;
     case fmt of
       [] \<Rightarrow> None
     | c # fmt \<Rightarrow>
         if c = 86 then (case args of VaStrT v # args \<Rightarrow> Some (take room v, fmt, args) | _ \<Rightarrow> None)
         else if c = 115 then (case args of
             VaStr p # args \<Rightarrow> (case f_slen sp of
                 None \<Rightarrow> Some (take room (takeWhile (\<lambda>b. b \<noteq> 0) p), fmt, args)
               | Some slen \<Rightarrow> if min slen room \<le> length p then Some (take (min slen room) p, fmt, args) else None)
           | _ \<Rightarrow> None)
         else if c = 99 then (case args of VaNum d # args \<Rightarrow> Some ([ucast d], fmt, args) | _ \<Rightarrow> None)
         else if c = 90 then Some ([0], fmt, args)
         else if c = 78 then Some ([10], fmt, args)
         else if c = 37 then Some ([37], fmt, args)
         else (case fmt_number c sp 0 of
                 None \<Rightarrow> Some ([c], fmt, args)
               | Some _ \<Rightarrow> (case args of
                     VaNum v # args \<Rightarrow> do {
                       (n, sp) \<leftarrow> fmt_number c sp v;
                       out \<leftarrow> fmt_out sp n room;
                       Some (out, fmt, args) }
                   | _ \<Rightarrow> None)) }"

lemma fmt_width_length: "fmt_width w fmt = (w', fmt') \<Longrightarrow> length fmt' \<le> length fmt"
  by (induction w fmt rule: fmt_width.induct) (auto split: if_splits)

lemma fmt_flags_length: "fmt_flags sp fmt args = Some (sp', fmt', args') \<Longrightarrow> length fmt' \<le> length fmt"
  by (induction sp fmt args rule: fmt_flags.induct) (auto split: if_splits list.splits va.splits)

lemma fmt_conv_length:
  assumes "fmt_conv fmt args room = Some (out, fmt', args')"
  shows "length fmt' < length fmt"
proof -
  obtain w f0 where w: "fmt_width 0 fmt = (w, f0)" by (cases "fmt_width 0 fmt")
  from assms w obtain sp c f1 args1 where f: "fmt_flags \<lparr>f_zero = (if chr0 fmt = 48 then 48 else 32), f_width = w, f_sign = True, f_hexadecimal = 0,
      f_max_width = False, f_slen = None\<rparr> f0 args = Some (sp, c # f1, args1)"
    by (auto simp: fmt_conv_def Let_def split: bind_splits list.splits)
  have "fmt' = f1" using assms w f
    by (auto simp: fmt_conv_def Let_def split: bind_splits list.splits va.splits if_splits option.splits)
  then show ?thesis using fmt_width_length[OF w] fmt_flags_length[OF f] by simp
qed

function string_xxvsnprintf :: "nat \<Rightarrow> bytes \<Rightarrow> va list \<Rightarrow> bytes option" where
  "string_xxvsnprintf room [] args = Some []"
| "string_xxvsnprintf room (c # fmt) args =
     (if room = 0 then Some []
      else if c \<noteq> 37 then map_option (\<lambda>out. c # out) (string_xxvsnprintf (room - 1) fmt args)
      else (case fmt_conv fmt args room of
              None \<Rightarrow> None
            | Some (out, fmt', args') \<Rightarrow> map_option (\<lambda>o'. out @ o') (string_xxvsnprintf (room - length out) fmt' args')))"
  by pat_completeness auto
termination
  by (relation "measure (\<lambda>(room, fmt, args). length fmt)") (auto dest!: fmt_conv_length)

definition string_xxsnprintf :: "nat \<Rightarrow> bytes \<Rightarrow> va list \<Rightarrow> bytes option" where
  "string_xxsnprintf room fmt args = string_xxvsnprintf room fmt args"

text \<open>Printing into an array \<open>buf\<close>: what was there behind the output stays.\<close>

definition string_xxsprintf :: "bytes \<Rightarrow> bytes \<Rightarrow> va list \<Rightarrow> bytes option" where
  "string_xxsprintf buf fmt args = do {
     out \<leftarrow> string_xxvsnprintf 65536 fmt args;
     if length out \<le> length buf then Some (out @ drop (length out) buf) else None }"

section \<open>Bounds\<close>

lemma fmt_out_length:
  assumes "fmt_out sp v room = Some out" "0 < room"
  shows "length out \<le> room"
proof -
  define sg :: bytes where "sg = (if f_sign sp \<and> v < 0 then [45] else [])"
  define pad where "pad = replicate (min (unat (f_width sp) - length (fmt_digits (f_hexadecimal sp) (nat \<bar>v\<bar>))) (room - length sg)) (f_zero sp)"
  have out: "out = sg @ pad @ take (room - length sg - length pad) (fmt_digits (f_hexadecimal sp) (nat \<bar>v\<bar>))"
    using assms(1) by (auto simp: fmt_out_def sg_def pad_def Let_def split: if_splits)
  have "length sg \<le> room" using assms(2) by (simp add: sg_def)
  moreover have "length pad \<le> room - length sg" by (simp add: pad_def)
  ultimately show ?thesis unfolding out by simp
qed

lemma fmt_conv_out:
  assumes "fmt_conv fmt args room = Some (out, fmt', args')" "0 < room"
  shows "length out \<le> room"
  using assms by (auto simp: fmt_conv_def Let_def dest: fmt_out_length split: prod.splits bind_splits list.splits va.splits if_splits option.splits)

lemma vsnprintf_length: "string_xxvsnprintf room fmt args = Some out \<Longrightarrow> length out \<le> room"
proof (induction room fmt args arbitrary: out rule: string_xxvsnprintf.induct)
  case (2 room c fmt args)
  show ?case
  proof (cases "room = 0 \<or> c \<noteq> 37")
    case True
    then show ?thesis using 2 by (auto split: if_splits)
  next
    case False
    then obtain o1 fmt' args' o2 where f: "fmt_conv fmt args room = Some (o1, fmt', args')"
        "string_xxvsnprintf (room - length o1) fmt' args' = Some o2" "out = o1 @ o2"
      using 2(3) by (auto split: option.splits)
    have "length o1 \<le> room" using fmt_conv_out[OF f(1)] False by simp
    moreover have "length o2 \<le> room - length o1" using 2(2)[OF _ _ f(1)] f(2) False by simp
    ultimately show ?thesis using f(3) by simp
  qed
qed simp

section \<open>Decimal notation\<close>

text \<open>What \<open>%ld\<close> of the C library, and \<open>%l\<close> here, print.\<close>

definition int_dec :: "int \<Rightarrow> bytes" where
  "int_dec v = (if v < 0 then 45 # decimal (nat (- v)) else decimal (nat v))"

lemma dec_digits_nth: "d < 10 \<Longrightarrow> dec_digits ! d = 48 + of_nat d"
proof -
  assume "d < 10"
  then have "d \<in> {0, 1, 2, 3, 4, 5, 6, 7, 8, 9}" by auto
  then show ?thesis by (auto simp: dec_digits_def str_def)
qed

lemma digits_decimal: "digits 10 dec_digits n = decimal n"
proof (induction n rule: decimal.induct)
  case (1 n)
  then show ?case by (subst digits.simps, subst decimal.simps) (auto simp: dec_digits_nth)
qed

lemma fmt_conv_signed:
  assumes "sint v \<noteq> - (2 ^ 63)" "length (int_dec (sint v)) \<le> room"
  shows "fmt_conv (108 # fmt) (VaNum v # args) room = Some (int_dec (sint v), fmt, args)"
proof -
  let ?sp = "\<lparr>f_zero = 32, f_width = 0, f_sign = True, f_hexadecimal = 0, f_max_width = False, f_slen = None\<rparr>"
  have "fmt_out ?sp (sint v) room = Some (int_dec (sint v))"
    using assms by (auto simp: fmt_out_def int_dec_def fmt_digits_def digits_decimal Let_def)
  then show ?thesis by (simp add: fmt_conv_def is_digit_def fmt_number_def arg64_def Let_def)
qed

section \<open>Properties\<close>



text \<open>
  C31. A signed number that is printed and terminated is read back by \<open>string_xxstrtossize\<close>, negative ones
  included; the only exception is the least 64-bit number, whose negation overflows.
\<close>

theorem print_read_signed:
  assumes "sint v \<noteq> - (2 ^ 63)" and "length (int_dec (sint v)) \<le> room"
  shows "\<exists>out. string_xxvsnprintf room (str ''%l'') [VaNum v] = Some out \<and> string_xxstrtossize (out @ [0]) (length out) = Some (sint v)"
proof -
  have fmt: "str ''%l'' = [37, 108]" by (simp add: str_def)
  have range: "- (2 ^ 63) < sint v" "sint v < 2 ^ 63" using assms(1) sint_range_size[of v] by (simp_all add: word_size)
  have "int_dec (sint v) \<noteq> []" by (simp add: int_dec_def)
  then have "0 < room" using assms(2) by (cases room) auto
  then have "string_xxvsnprintf room (str ''%l'') [VaNum v] = Some (int_dec (sint v))"
    using fmt_conv_signed[OF assms, of "[]" "[]"] by (simp add: fmt)
  moreover have "string_xxstrtossize (int_dec (sint v) @ [0]) (length (int_dec (sint v))) = Some (sint v)"
  proof (cases "sint v < 0")
    case True
    then have "int (nat (- sint v)) < 2 ^ (64 - 1)" using range by simp
    from strtosigned_minus[OF this, of 0 "[]"] True show ?thesis by (simp add: string_xxstrtossize_def int_dec_def is_digit_def)
  next
    case False
    then have "int (nat (sint v)) < 2 ^ (64 - 1)" using range by simp
    from strtosigned_decimal[OF this] False show ?thesis by (simp add: string_xxstrtossize_def int_dec_def)
  qed
  ultimately show ?thesis by blast
qed

theorem print_read_signed_witness:
  "\<exists>out. string_xxvsnprintf 8 (str ''%l'') [VaNum (- 42)] = Some out \<and> string_xxstrtossize (out @ [0]) (length out) = Some (- 42)"
proof -
  have "length (int_dec (sint (- 42 :: u64))) \<le> 8" by (simp add: int_dec_def decimal.simps)
  from print_read_signed[OF _ this] show ?thesis by simp
qed

end
