(* ===== verification/Dn_Disk.thy ===== *)
theory Dn_Disk
  imports Dn_Index Dfs_Format
begin

text \<open>
  The directories of a data node (\<open>src/src/datanode/dn_data_storage.c\<close>): the configured storage
  directories, the tree that is made for a name space, the place of a block while it is written and
  afterwards, and the scan that finds the blocks of a disk. A disk is the list of its paths, in the
  order in which \<open>readdir\<close> gives them.
\<close>

section \<open>Disks\<close>

datatype file_node = Dir | File bytes

type_synonym disk = "(bytes \<times> file_node) list"

abbreviation slash8 :: u8 where "slash8 \<equiv> 47"

text \<open>The directory of a path: what is before its last slash.\<close>

definition dir_of :: "bytes \<Rightarrow> bytes" where
  "dir_of p = butlast (rev (dropWhile (\<lambda>c. c \<noteq> slash8) (rev p)))"

definition access_ok :: "bytes \<Rightarrow> disk \<Rightarrow> bool" where
  "access_ok p d \<longleftrightarrow> map_of d p \<noteq> None"

text \<open>
  The system calls fail when the path is there already, or its directory is not; \<open>sys\<close> says whether the
  system does not refuse a call on a path for a reason of its own.
\<close>

definition sys_mkdir :: "(bytes \<Rightarrow> bool) \<Rightarrow> bytes \<Rightarrow> disk \<Rightarrow> int \<times> disk" where
  "sys_mkdir sys p d = (if sys p \<and> map_of d p = None \<and> map_of d (dir_of p) = Some Dir then (DFS_OK, d @ [(p, Dir)]) else (DFS_ERROR, d))"

definition sys_unlink :: "bytes \<Rightarrow> disk \<Rightarrow> disk" where
  "sys_unlink p d = filter (\<lambda>(q, n). q \<noteq> p \<or> n = Dir) d"

definition sys_write :: "(bytes \<Rightarrow> bool) \<Rightarrow> bytes \<Rightarrow> bytes \<Rightarrow> disk \<Rightarrow> int \<times> disk" where
  "sys_write sys p c d = (if sys p \<and> map_of d p \<noteq> Some Dir \<and> map_of d (dir_of p) = Some Dir
     then (DFS_OK, filter (\<lambda>(q, n). q \<noteq> p) d @ [(p, File c)]) else (DFS_ERROR, d))"

definition sys_rename :: "(bytes \<Rightarrow> bool) \<Rightarrow> bytes \<Rightarrow> bytes \<Rightarrow> disk \<Rightarrow> int \<times> disk" where
  "sys_rename sys old new d = (case map_of d old of
       Some (File c) \<Rightarrow>
         if sys new \<and> map_of d new \<noteq> Some Dir \<and> map_of d (dir_of new) = Some Dir
         then (DFS_OK, filter (\<lambda>(q, n). q \<noteq> old \<and> q \<noteq> new) d @ [(new, File c)]) else (DFS_ERROR, d)
     | _ \<Rightarrow> (DFS_ERROR, d))"

text \<open>The entries of a directory: the name and whether the type is that of a regular file.\<close>

definition readdir :: "bytes \<Rightarrow> disk \<Rightarrow> (bytes \<times> bool) list option" where
  "readdir dir d = (if map_of d dir = Some Dir
     then Some ([(str ''.'', False), (str ''..'', False)] @
       map (\<lambda>(p, n). (drop (length dir + 1) p, n \<noteq> Dir)) (filter (\<lambda>(p, n). dir_of p = dir \<and> dir @ [slash8] = take (length dir + 1) p) d))
     else None)"

section \<open>Storage directories\<close>

record storage_dir =
  sd_id :: int
  sd_current :: bytes

fun strtok :: "u8 \<Rightarrow> bytes \<Rightarrow> bytes \<Rightarrow> bytes list" where
  "strtok c tok [] = (if tok = [] then [] else [tok])"
| "strtok c tok (x # s) = (if x = c then (if tok = [] then strtok c [] s else tok # strtok c [] s) else strtok c (tok @ [x]) s)"

text \<open>
  The loop over the tokens; \<open>buf\<close> is the array \<open>dir\<close>, which is zero at the start and keeps what it holds
  from one turn to the next.
\<close>

fun storage_loop :: "bytes \<Rightarrow> int \<Rightarrow> bytes list \<Rightarrow> storage_dir list option" where
  "storage_loop buf i [] = Some []"
| "storage_loop buf i (token # toks) = do {
     buf \<leftarrow> string_xxsprintf buf (str ''%s/current'') [VaStr token];
     cur \<leftarrow> (if 0 \<in> set buf then Some (takeWhile (\<lambda>b. b \<noteq> 0) buf) else None);
     sds \<leftarrow> storage_loop buf (i + 1) toks;
     Some (\<lparr>sd_id = i, sd_current = cur\<rparr> # sds) }"

definition init_storage_dirs :: "bytes \<Rightarrow> storage_dir list option" where
  "init_storage_dirs data_dir = storage_loop (replicate PATH_LEN 0) 0 (strtok 44 [] data_dir)"

fun create_storage_dirs :: "(bytes \<Rightarrow> bool) \<Rightarrow> storage_dir list \<Rightarrow> disk \<Rightarrow> int \<times> disk" where
  "create_storage_dirs sys [] d = (DFS_OK, d)"
| "create_storage_dirs sys (sd # sds) d =
     (if access_ok (sd_current sd) d then create_storage_dirs sys sds d
      else case sys_mkdir sys (sd_current sd) d of
             (rc, d) \<Rightarrow> if rc \<noteq> DFS_OK then (DFS_ERROR, d) else create_storage_dirs sys sds d)"

definition SUBDIR_LEN :: nat where "SUBDIR_LEN = 64"

definition subdir :: "bytes \<Rightarrow> int \<Rightarrow> bytes" where
  "subdir path i = path @ str ''/subdir'' @ int_dec i"

fun mkdirs :: "(bytes \<Rightarrow> bool) \<Rightarrow> bytes list \<Rightarrow> disk \<Rightarrow> int \<times> disk" where
  "mkdirs sys [] d = (DFS_OK, d)"
| "mkdirs sys (p # ps) d = (case sys_mkdir sys p d of (rc, d) \<Rightarrow> if rc \<noteq> DFS_OK then (DFS_ERROR, d) else mkdirs sys ps d)"

fun subdirs_loop :: "(bytes \<Rightarrow> bool) \<Rightarrow> bytes \<Rightarrow> int list \<Rightarrow> disk \<Rightarrow> int \<times> disk" where
  "subdirs_loop sys path [] d = (DFS_OK, d)"
| "subdirs_loop sys path (i # is) d =
     (if access_ok (subdir path i) d then subdirs_loop sys path is d
      else case mkdirs sys (subdir path i # map (subdir (subdir path i)) [0..int SUBDIR_LEN - 1]) d of
             (rc, d) \<Rightarrow> if rc \<noteq> DFS_OK then (DFS_ERROR, d) else subdirs_loop sys path is d)"

definition create_storage_subdirs :: "(bytes \<Rightarrow> bool) \<Rightarrow> bytes \<Rightarrow> disk \<Rightarrow> int \<times> disk" where
  "create_storage_subdirs sys path d = subdirs_loop sys path [0..int SUBDIR_LEN - 1] d"

text \<open>\<open>sscanf\<close> with \<open>%*[^=]=%s\<close> and \<open>%*[^=]=%ld\<close>: what follows the first equals sign.\<close>

definition after_eq :: "bytes \<Rightarrow> bytes" where
  "after_eq s = (if takeWhile (\<lambda>c. c \<noteq> 61) s = [] then [] else tl (dropWhile (\<lambda>c. c \<noteq> 61) s))"

definition is_space :: "u8 \<Rightarrow> bool" where
  "is_space c \<longleftrightarrow> c \<in> {9, 10, 11, 12, 13, 32}"

definition scan_word :: "bytes \<Rightarrow> bytes" where
  "scan_word s = takeWhile (\<lambda>c. \<not> is_space c) (dropWhile is_space s)"

text \<open>
  The number that \<open>%ld\<close> and \<open>atol\<close> read, 0 when there is none; a number that does not fit is undefined.
\<close>

definition scan_long :: "bytes \<Rightarrow> int option" where
  "scan_long s =
     (let s = dropWhile is_space s;
          (neg, s) = (case s of [] \<Rightarrow> (False, []) | c # r \<Rightarrow> if c = 45 then (True, r) else if c = 43 then (False, r) else (False, s));
          n = int (dec_value 0 (takeWhile is_digit s));
          v = (if neg then - n else n)
      in if signed_ok 64 v then Some v else None)"

text \<open>
  The storage identifier: \<open>ver\<close> is \<open>g_last_version\<close>, an array of 56 bytes that is empty until the first
  directory was looked at; \<open>now\<close> is the clock.
\<close>

definition check_version :: "(bytes \<Rightarrow> bool) \<Rightarrow> bytes \<Rightarrow> int \<Rightarrow> bytes \<Rightarrow> bytes \<Rightarrow> disk \<Rightarrow> (int \<times> bytes \<times> disk) option" where
  "check_version sys ip now path ver d =
     (case map_of d path of
        None \<Rightarrow>
          if \<not> (sys path \<and> map_of d (dir_of path) = Some Dir) then Some (DFS_ERROR, ver, d)
          else do {
            ver \<leftarrow> (if ver = [] then c_strcpy 56 (str ''DS-'' @ ip @ str ''-'' @ int_dec now) else Some ver);
            let (rc, d) = sys_write sys path (str ''storageID='' @ ver @ [10]) d;
            Some (rc, ver, d) }
      | Some Dir \<Rightarrow> Some (DFS_ERROR, ver, d)
      | Some (File c) \<Rightarrow>
          if \<not> sys path then Some (DFS_ERROR, ver, d)
          else if 128 \<le> length c then None
          else do {
            let version = scan_word (after_eq c);
            if ver = [] then do { ver \<leftarrow> c_strcpy 56 version; Some (DFS_OK, ver, d) }
            else Some (if ver \<noteq> version then DFS_ERROR else DFS_OK, ver, d) })"

definition check_namespace :: "(bytes \<Rightarrow> bool) \<Rightarrow> bytes \<Rightarrow> int \<Rightarrow> disk \<Rightarrow> (int \<times> disk) option" where
  "check_namespace sys path namespaceID d =
     (let cur = path @ str ''/current'' in
      if \<not> access_ok path d then
        (case mkdirs sys [path, path @ str ''/blocksBeingWritten'', cur] d of (rc, d) \<Rightarrow>
           if rc \<noteq> DFS_OK then Some (DFS_ERROR, d)
           else case sys_write sys (cur @ str ''/VERSION'') (str ''namespaceID='' @ int_dec namespaceID @ [10]) d of (rc, d) \<Rightarrow>
             if rc \<noteq> DFS_OK then Some (DFS_ERROR, d) else Some (DFS_OK, snd (create_storage_subdirs sys cur d)))
      else
        (case map_of d (cur @ str ''/VERSION'') of
           Some (File c) \<Rightarrow>
             if \<not> sys (cur @ str ''/VERSION'') then Some (DFS_ERROR, d)
             else if 128 \<le> length c then None
             else do {
               dn_ns_id \<leftarrow> scan_long (after_eq c);
               Some (if dn_ns_id \<noteq> namespaceID then DFS_ERROR else DFS_OK, d) }
         | _ \<Rightarrow> Some (DFS_ERROR, d)))"

text \<open>The process exits when a directory does not fit, which is \<open>DFS_ERROR\<close> here.\<close>

fun setup_ns_storage :: "(bytes \<Rightarrow> bool) \<Rightarrow> bytes \<Rightarrow> int \<Rightarrow> int \<Rightarrow> storage_dir list \<Rightarrow> bytes \<Rightarrow> disk \<Rightarrow> (int \<times> bytes \<times> disk) option" where
  "setup_ns_storage sys ip now namespaceID [] ver d = Some (DFS_OK, ver, d)"
| "setup_ns_storage sys ip now namespaceID (sd # sds) ver d = do {
     (rc, ver, d) \<leftarrow> check_version sys ip now (sd_current sd @ str ''/VERSION'') ver d;
     if rc \<noteq> DFS_OK then Some (DFS_ERROR, ver, d)
     else do {
       (rc, d) \<leftarrow> check_namespace sys (sd_current sd @ str ''/NS-'' @ int_dec namespaceID) namespaceID d;
       if rc \<noteq> DFS_OK then Some (DFS_ERROR, ver, d) else setup_ns_storage sys ip now namespaceID sds ver d } }"

section \<open>The place of a block\<close>

text \<open>
  The directory of a block number: \<open>path\<close> stays as it was when no directory has the number. The remainder
  of a negative number is negative.
\<close>

definition get_disk_id :: "storage_dir list \<Rightarrow> u64 \<Rightarrow> bytes \<Rightarrow> bytes option" where
  "get_disk_id sds block_id path =
     (if sds = [] then None
      else let disk_id = sint block_id smod int (length sds)
           in Some (case find (\<lambda>sd. sd_id sd = disk_id) sds of None \<Rightarrow> path | Some sd \<Rightarrow> sd_current sd))"

definition get_block_temp_path :: "storage_dir list \<Rightarrow> u64 \<Rightarrow> u64 \<Rightarrow> bytes option" where
  "get_block_temp_path sds namespace_id block_id = do {
     cur \<leftarrow> get_disk_id sds block_id [];
     c_strcpy PATH_LEN (cur @ str ''/NS-'' @ int_dec (sint namespace_id) @ str ''/blocksBeingWritten/blk_'' @ int_dec (sint block_id)) }"

definition block_dir :: "storage_dir list \<Rightarrow> u64 \<Rightarrow> u64 \<Rightarrow> bytes option" where
  "block_dir sds namespace_id block_id = do {
     let suddir_id = sint block_id smod int SUBDIR_LEN;
     let suddir_id2 = (sint block_id smod 1000) smod int SUBDIR_LEN;
     cur \<leftarrow> get_disk_id sds block_id [];
     c_strcpy PATH_LEN (subdir (subdir (cur @ str ''/NS-'' @ int_dec (sint namespace_id) @ str ''/current'') suddir_id) suddir_id2 @
       str ''/blk_'' @ int_dec (sint block_id)) }"

text \<open>
  A block that was written completely: it is moved to its place, entered into the index and queued for
  the report. \<open>path\<close> is where it was written. The code copies the new path over the old one, whose memory
  is shorter; what lies behind it in the pool of the request is not part of the model.
\<close>

definition write_block_done ::
  "(bytes \<Rightarrow> bool) \<Rightarrow> storage_dir list \<Rightarrow> u64 \<Rightarrow> u64 \<Rightarrow> u64 \<Rightarrow> bytes \<Rightarrow> disk \<times> dn_cache \<Rightarrow> (int \<times> disk \<times> dn_cache) option" where
  "write_block_done sys sds namespace_id block_id len path = (\<lambda>(d, s). do {
     blkDir \<leftarrow> block_dir sds namespace_id block_id;
     let (rc, d) = sys_rename sys path blkDir d;
     if rc \<noteq> DFS_OK then Some (DFS_ERROR, d, s)
     else do {
       (rc, s) \<leftarrow> recv_blk_report block_id len blkDir s;
       Some (rc, d, s) } })"

text \<open>The deletions of a heartbeat, on disk too.\<close>

definition delete_blocks :: "u64 list \<Rightarrow> disk \<times> dn_cache \<Rightarrow> (disk \<times> dn_cache) option" where
  "delete_blocks ids = (\<lambda>(d, s). do {
     (gone, s) \<leftarrow> delete_blks ids s;
     Some (fold sys_unlink gone d, s) })"

section \<open>The scan\<close>

text \<open>The arrays for the numbers have 16 bytes.\<close>

definition get_namespace_id :: "bytes \<Rightarrow> bytes option" where
  "get_namespace_id src = c_strcpy 16 (drop 3 src)"

definition get_blk_id :: "bytes \<Rightarrow> bytes option" where
  "get_blk_id src = c_strcpy 16 (drop 4 src)"

fun each_entry :: "(bytes \<Rightarrow> bool \<Rightarrow> dn_cache \<Rightarrow> dn_cache option) \<Rightarrow> (bytes \<times> bool) list \<Rightarrow> dn_cache \<Rightarrow> dn_cache option" where
  "each_entry f [] s = Some s"
| "each_entry f ((name, is_file) # es) s = do { s \<leftarrow> f name is_file s; each_entry f es s }"

definition scan_block :: "disk \<Rightarrow> bytes \<Rightarrow> bytes \<Rightarrow> bool \<Rightarrow> dn_cache \<Rightarrow> dn_cache option" where
  "scan_block d dir name is_file s =
     (if is_file \<and> string_strncmp name (str ''blk_'') 4 = 0
      then do {
        num \<leftarrow> get_blk_id name;
        path \<leftarrow> c_strcpy PATH_LEN (dir @ slash8 # name);
        blk_id \<leftarrow> scan_long num;
        case map_of d path of
          Some (File c) \<Rightarrow> do { (_, s) \<leftarrow> dn_block_object_add path (of_nat (length c)) (of_int blk_id) s; Some s }
        | _ \<Rightarrow> None }
      else Some s)"

definition scan_subdir_subdir :: "disk \<Rightarrow> bytes \<Rightarrow> dn_cache \<Rightarrow> dn_cache option" where
  "scan_subdir_subdir d dir s =
     (case readdir dir d of None \<Rightarrow> Some s | Some es \<Rightarrow> each_entry (scan_block d dir) es s)"

definition scan_subdir :: "disk \<Rightarrow> bytes \<Rightarrow> dn_cache \<Rightarrow> dn_cache option" where
  "scan_subdir d dir s =
     (case readdir dir d of
        None \<Rightarrow> Some s
      | Some es \<Rightarrow> each_entry (\<lambda>name is_file s.
          if \<not> is_file \<and> string_strncmp name (str ''subdir'') 6 = 0
          then do { root \<leftarrow> c_strcpy PATH_LEN (dir @ slash8 # name); scan_subdir_subdir d root s }
          else Some s) es s)"

definition scan_namespace_dir :: "disk \<Rightarrow> bytes \<Rightarrow> dn_cache \<Rightarrow> dn_cache option" where
  "scan_namespace_dir d dir s =
     (case readdir dir d of
        None \<Rightarrow> Some s
      | Some es \<Rightarrow> each_entry (\<lambda>name is_file s.
          if \<not> is_file \<and> string_strncmp name (str ''subdir'') 6 = 0
          then do { root \<leftarrow> c_strcpy PATH_LEN (dir @ slash8 # name); scan_subdir d root s }
          else Some s) es s)"

text \<open>The number of the name space is only needed to be readable.\<close>

definition scan_current_dir :: "disk \<Rightarrow> bytes \<Rightarrow> dn_cache \<Rightarrow> dn_cache option" where
  "scan_current_dir d dir s =
     (case readdir dir d of
        None \<Rightarrow> Some s
      | Some es \<Rightarrow> each_entry (\<lambda>name is_file s.
          if \<not> is_file \<and> string_strncmp name (str ''NS-'') 3 = 0
          then do {
            num \<leftarrow> get_namespace_id name;
            root \<leftarrow> c_strcpy PATH_LEN (dir @ slash8 # name @ str ''/current'');
            _ \<leftarrow> scan_long num;
            scan_namespace_dir d root s }
          else Some s) es s)"

text \<open>One turn of the scanner thread.\<close>

fun blk_scanner_turn :: "disk \<Rightarrow> storage_dir list \<Rightarrow> dn_cache \<Rightarrow> dn_cache option" where
  "blk_scanner_turn d [] s = Some s"
| "blk_scanner_turn d (sd # sds) s = do { s \<leftarrow> scan_current_dir d (sd_current sd) s; blk_scanner_turn d sds s }"

end
