(* ===== verification/Dn_Scan.thy ===== *)
theory Dn_Scan
  imports Dn_Disk
begin

text \<open>
  The scan of the disks of a data node enters every block file into the index, whatever the index held
  before: what a data node has stored is found again after a restart.
\<close>

section \<open>Paths\<close>

definition name_of :: "bytes \<Rightarrow> bytes" where
  "name_of p = rev (takeWhile (\<lambda>c. c \<noteq> slash8) (rev p))"

lemma split_last:
  assumes "slash8 \<notin> set name"
  shows "dir_of (dir @ slash8 # name) = dir" "name_of (dir @ slash8 # name) = name"
proof -
  have all: "\<And>x. x \<in> set (rev name) \<Longrightarrow> x \<noteq> slash8" using assms by auto
  have "dropWhile (\<lambda>c. c \<noteq> slash8) (rev name @ slash8 # rev dir) = slash8 # rev dir"
    using all by (subst dropWhile_append2) auto
  then show "dir_of (dir @ slash8 # name) = dir" by (simp add: dir_of_def)
  have "takeWhile (\<lambda>c. c \<noteq> slash8) (rev name @ slash8 # rev dir) = rev name"
    using all by (subst takeWhile_append2) auto
  then show "name_of (dir @ slash8 # name) = name" by (simp add: name_of_def)
qed

lemma dir_of_name: "dir_of (dir @ slash8 # name) = dir \<Longrightarrow> slash8 \<notin> set name"
proof
  assume dir: "dir_of (dir @ slash8 # name) = dir" and "slash8 \<in> set name"
  then obtain a b where b: "name = a @ slash8 # b" "slash8 \<notin> set b" by (meson split_list_last)
  with split_last(1)[of b "dir @ slash8 # a"] dir show False by simp
qed

lemma readdir_entry:
  assumes "readdir dir d = Some es" "(dir @ slash8 # name, n) \<in> set d" "slash8 \<notin> set name"
  shows "(name, n \<noteq> Dir) \<in> set es"
proof -
  let ?f = "\<lambda>(p, n). (drop (length dir + 1) p, n \<noteq> Dir)"
    and ?ps = "filter (\<lambda>(p, n). dir_of p = dir \<and> dir @ [slash8] = take (length dir + 1) p) d"
  have "(dir @ slash8 # name, n) \<in> set ?ps" using assms(2) split_last(1)[OF assms(3)] by simp
  then have mem: "?f (dir @ slash8 # name, n) \<in> set (map ?f ?ps)" unfolding set_map by (rule imageI)
  have eq: "?f (dir @ slash8 # name, n) = (name, n \<noteq> Dir)" by simp
  have es: "es = [(str ''.'', False), (str ''..'', False)] @ map ?f ?ps" using assms(1) by (simp add: readdir_def split: if_splits)
  show ?thesis using mem unfolding eq es set_append by (rule UnI2)
qed

text \<open>An entry is one of the two dots, or a path of the disk.\<close>

lemma readdir_path:
  assumes "readdir dir d = Some es" "(name, is_file) \<in> set es" "name \<noteq> str ''.''" "name \<noteq> str ''..''"
  shows "\<exists>n. (dir @ slash8 # name, n) \<in> set d \<and> is_file = (n \<noteq> Dir) \<and> slash8 \<notin> set name"
proof -
  let ?f = "\<lambda>(p, n). (drop (length dir + 1) p, n \<noteq> Dir)"
    and ?ps = "filter (\<lambda>(p, n). dir_of p = dir \<and> dir @ [slash8] = take (length dir + 1) p) d"
  have es: "es = [(str ''.'', False), (str ''..'', False)] @ map ?f ?ps" using assms(1) by (simp add: readdir_def split: if_splits)
  have "(name, is_file) \<in> set (map ?f ?ps)" using assms(2-4) unfolding es by simp
  then obtain x where x: "x \<in> set ?ps" "(name, is_file) = ?f x" unfolding set_map by blast
  obtain p n where pn: "x = (p, n)" by (cases x)
  have p: "(p, n) \<in> set d" "dir @ [slash8] = take (length dir + 1) p" "name = drop (length dir + 1) p" "is_file = (n \<noteq> Dir)" "dir_of p = dir"
    using x unfolding pn by simp_all
  have "p = dir @ slash8 # name" using append_take_drop_id[of "length dir + 1" p] unfolding p(2)[symmetric] p(3) by simp
  then show ?thesis using p(1,4,5) dir_of_name[of dir name] by blast
qed

lemma strncmp_take: "cstring s \<Longrightarrow> cstring t \<Longrightarrow> string_strncmp s t (length t) = 0 \<longleftrightarrow> prefix t s"
  by (rule strncmp_prefix_right)

section \<open>Numbers\<close>

lemma digit_value: "is_digit c \<Longrightarrow> unat (c - 48) < 10"
  by (auto simp: is_digit_def word_le_nat_alt unat_sub_if_size word_size)

lemma dec_value_digits: "\<forall>c \<in> set ds. is_digit c \<Longrightarrow> dec_value v ds < (v + 1) * 10 ^ length ds"
proof (induction ds arbitrary: v)
  case (Cons c ds)
  have "v * 10 + unat (c - 48) + 1 \<le> (v + 1) * 10" using digit_value[of c] Cons.prems by simp
  then have "(v * 10 + unat (c - 48) + 1) * 10 ^ length ds \<le> (v + 1) * 10 * 10 ^ length ds" by (rule mult_right_mono) simp
  moreover have "dec_value (v * 10 + unat (c - 48)) ds < (v * 10 + unat (c - 48) + 1) * 10 ^ length ds" using Cons by simp
  ultimately have "dec_value v (c # ds) < (v + 1) * 10 * 10 ^ length ds" unfolding dec_value_simps by (rule order_less_le_trans[rotated])
  then show ?case by (simp only: length_Cons power_Suc mult.assoc)
qed simp

text \<open>What fits the array can be read.\<close>

lemma scan_long_small:
  assumes "length s < 16"
  shows "\<exists>v. scan_long s = Some v"
proof -
  have len: "length (takeWhile is_digit r) < 16" if "length r < 16" for r using that length_takeWhile_le[of is_digit r] by simp
  have "int (dec_value 0 (takeWhile is_digit r)) < 10 ^ 16" if "length r < 16" for r
  proof -
    have "dec_value 0 (takeWhile is_digit r) < 10 ^ length (takeWhile is_digit r)"
      using dec_value_digits[of "takeWhile is_digit r" 0] by (auto dest: set_takeWhileD)
    also have "\<dots> \<le> 10 ^ 16" using len[OF that] by (intro power_increasing) auto
    finally show ?thesis by simp
  qed
  then have ok: "signed_ok 64 (int (dec_value 0 (takeWhile is_digit r)))" "signed_ok 64 (- int (dec_value 0 (takeWhile is_digit r)))"
    if "length r < 16" for r
    using that by (fastforce simp: signed_ok_def)+
  have "length (dropWhile is_space s) < 16" using assms length_dropWhile_le[of is_space s] by simp
  then show ?thesis
  proof (cases "dropWhile is_space s")
    case Nil
    show ?thesis unfolding scan_long_def Let_def Nil by (simp add: signed_ok_def)
  next
    case (Cons c r)
    with \<open>length (dropWhile is_space s) < 16\<close> have "length r < 16" "length (c # r) < 16" by simp_all
    then show ?thesis using ok[of r] ok[of "c # r"] unfolding scan_long_def Let_def Cons by (simp split: if_splits)
  qed
qed

lemma scan_long_decimal: "n < 2 ^ 63 \<Longrightarrow> scan_long (decimal n) = Some (int n)"
proof -
  assume n: "n < 2 ^ 63"
  obtain c ds where ds: "decimal n = c # ds" by (cases "decimal n") auto
  have dig: "is_digit c" using decimal_digits[of n] ds by simp
  then have "\<not> is_space c" "c \<noteq> 45" "c \<noteq> 43" by (auto simp: is_digit_def is_space_def)
  moreover have "takeWhile is_digit (decimal n) = decimal n" using decimal_digits[of n] by (simp add: takeWhile_eq_all_conv)
  moreover have "int n < 2 ^ 63" using n by (metis of_nat_less_iff of_nat_numeral of_nat_power)
  ultimately show ?thesis using decimal_value[of n] ds by (simp add: scan_long_def signed_ok_def)
qed

section \<open>The invariant of the scan\<close>

text \<open>Paths fit the arrays of the code, and the numbers in the names their 16 bytes.\<close>

definition tame :: "disk \<Rightarrow> bool" where
  "tame d \<longleftrightarrow> distinct (map fst d) \<and> (\<forall>(p, n) \<in> set d. cstring p \<and> length p + 9 < PATH_LEN \<and> length (name_of p) \<le> 18)"

definition blk_number :: "bytes \<Rightarrow> u64" where
  "blk_number p = of_int (the (scan_long (drop 4 (name_of p))))"

text \<open>Blocks that were known stay, and the others are files of the disk that carry their number.\<close>

definition scan_inv :: "nat \<Rightarrow> disk \<Rightarrow> dn_cache \<Rightarrow> (u64 \<rightharpoonup> nat) \<Rightarrow> nat list \<Rightarrow> dn_cache \<Rightarrow> (u64 \<rightharpoonup> nat) \<Rightarrow> nat list \<Rightarrow> bool" where
  "scan_inv cap d s0 bm0 Q s bm R \<longleftrightarrow> dn_rel cap s bm Q R \<and> dom bm0 \<subseteq> dom bm \<and>
     (\<forall>b \<in> dom bm0. dn_view s bm b = dn_view s0 bm0 b) \<and>
     (\<forall>b \<in> dom bm - dom bm0. \<exists>p c. dn_view s bm b = Some (of_nat (length c), p) \<and> map_of d p = Some (File c) \<and> blk_number p = b)"

lemma tame_at: "tame d \<Longrightarrow> (p, n) \<in> set d \<Longrightarrow> map_of d p = Some n"
  by (simp add: tame_def map_of_is_SomeI)

lemma dn_rel_finite: "dn_rel cap s bm Q R \<Longrightarrow> finite (dom bm)"
  by (simp add: dn_rel_def bcm_table_def ht_rep_def)

lemma dom_view: "dn_view s bm b = Some x \<Longrightarrow> b \<in> dom bm"
  by (auto simp: dn_view_def)

lemma scan_room:
  assumes inv: "scan_inv cap d s0 bm0 Q s bm R" and room: "length d + card (dom bm0) \<le> cap"
    and p: "(p, n) \<in> set d" "blk_number p \<notin> dom bm"
  shows "card (dom bm) < cap"
proof -
  let ?N = "dom bm - dom bm0" and ?path = "\<lambda>b. snd (the (dn_view s bm b))"
  have new: "?path b \<in> set (map fst d) \<and> blk_number (?path b) = b" if "b \<in> ?N" for b
  proof -
    from inv that obtain q c where "dn_view s bm b = Some (of_nat (length c), q)" "map_of d q = Some (File c)" "blk_number q = b"
      unfolding scan_inv_def by blast
    then show ?thesis using map_of_SomeD[of d q] by (force simp: image_iff)
  qed
  have "inj_on ?path ?N" using new by (intro inj_onI) metis
  moreover have "?path ` ?N \<subseteq> set (map fst d) - {p}"
  proof (rule image_subsetI)
    fix b assume "b \<in> ?N"
    with new[OF this] p(2) show "?path b \<in> set (map fst d) - {p}" by (cases "?path b = p") auto
  qed
  ultimately have "card ?N \<le> card (set (map fst d) - {p})" by (metis card_inj_on_le finite_Diff List.finite_set)
  also have "\<dots> < card (set (map fst d))" using p(1) by (intro card_Diff1_less) force+
  also have "\<dots> \<le> length d" using card_length[of "map fst d"] by simp
  finally have "card ?N < length d" .
  moreover have fin: "finite (dom bm)" "dom bm0 \<subseteq> dom bm" using inv dn_rel_finite by (auto simp: scan_inv_def)
  then have "card (dom bm) = card (dom bm0) + card ?N" by (metis card_Diff_subset card_mono finite_subset le_add_diff_inverse)
  ultimately show ?thesis using room by simp
qed

lemma scan_inv_add:
  assumes inv: "scan_inv cap d s0 bm0 Q s bm R" and room: "length d + card (dom bm0) \<le> cap"
    and p: "map_of d p = Some (File c)" and len: "length p < PATH_LEN"
  shows "\<exists>s' bm' R'. dn_block_object_add p (of_nat (length c)) (blk_number p) s = Some (DFS_OK, s') \<and> scan_inv cap d s0 bm0 Q s' bm' R' \<and>
    insert (blk_number p) (dom bm) \<subseteq> dom bm'"
proof (cases "blk_number p \<in> dom bm")
  case True
  have "dn_rel cap s bm Q R" using inv by (simp add: scan_inv_def)
  from dn_block_object_add_known[OF this True] inv True show ?thesis
    by (intro exI[of _ s] exI[of _ bm] exI[of _ R]) auto
next
  case False
  from inv have rel: "dn_rel cap s bm Q R" and sub: "dom bm0 \<subseteq> dom bm" by (auto simp: scan_inv_def)
  have "card (dom bm) < cap" using scan_room[OF inv room map_of_SomeD[OF p] False] .
  moreover have "bm (blk_number p) = None" using False by auto
  ultimately obtain q s' where q: "dn_block_object_add p (of_nat (length c)) (blk_number p) s = Some (DFS_OK, s')"
      "dn_rel cap s' (bm(blk_number p \<mapsto> q)) Q (R @ [q])"
      "dn_view s' (bm(blk_number p \<mapsto> q)) = (dn_view s bm)(blk_number p \<mapsto> (of_nat (length c), p))"
    using dn_block_object_add_ok[OF rel _ _ len, of "blk_number p" "of_nat (length c)"] by blast
  have new: "\<exists>p' c. dn_view s' (bm(blk_number p \<mapsto> q)) b = Some (of_nat (length c), p') \<and> map_of d p' = Some (File c) \<and> blk_number p' = b"
    if b: "b \<in> dom (bm(blk_number p \<mapsto> q)) - dom bm0" for b
  proof (cases "b = blk_number p")
    case True
    then show ?thesis unfolding q(3) using p by auto
  next
    case False
    then have "b \<in> dom bm - dom bm0" using b by simp
    with inv False show ?thesis unfolding scan_inv_def q(3) by simp
  qed
  have "dn_view s' (bm(blk_number p \<mapsto> q)) b = dn_view s0 bm0 b" if "b \<in> dom bm0" for b
    using inv that sub False unfolding scan_inv_def q(3) by auto
  with new have "scan_inv cap d s0 bm0 Q s' (bm(blk_number p \<mapsto> q)) (R @ [q])"
    unfolding scan_inv_def using q(2) sub by auto
  then show ?thesis using q(1) by (intro exI[of _ s'] exI[of _ "bm(blk_number p \<mapsto> q)"] exI[of _ "R @ [q]"]) auto
qed

section \<open>Levels\<close>

lemma each_entry_inv:
  assumes "\<And>name is_file s bm R. (name, is_file) \<in> set es \<Longrightarrow> I s bm R \<Longrightarrow>
      \<exists>s' bm' R'. f name is_file s = Some s' \<and> I s' bm' R' \<and> dom bm \<union> G name is_file \<subseteq> dom bm'" and "I s bm R"
  shows "\<exists>s' bm' R'. each_entry f es s = Some s' \<and> I s' bm' R' \<and> dom (bm :: u64 \<rightharpoonup> nat) \<union> (\<Union>(name, is_file) \<in> set es. G name is_file) \<subseteq> dom bm'"
  using assms
proof (induction es arbitrary: s bm R)
  case Nil
  then show ?case by auto
next
  case (Cons e es)
  obtain name is_file where e: "e = (name, is_file)" by (cases e)
  from Cons.prems(1)[of name is_file s bm R] Cons.prems(2) obtain s1 bm1 R1 where
    s1: "f name is_file s = Some s1" "I s1 bm1 R1" "dom bm \<union> G name is_file \<subseteq> dom bm1" by (auto simp: e)
  from Cons.IH[OF _ s1(2)] Cons.prems(1) obtain s2 bm2 R2 where
    s2: "each_entry f es s1 = Some s2" "I s2 bm2 R2" "dom bm1 \<union> (\<Union>(name, is_file) \<in> set es. G name is_file) \<subseteq> dom bm2"
    by (metis (no_types, lifting) list.set_intros(2))
  have "dom bm \<union> (\<Union>(name, is_file) \<in> set (e # es). G name is_file) \<subseteq> dom bm2"
    using subset_trans[OF s1(3), of "dom bm2"] s2(3) by (simp add: e)
  moreover have "each_entry f (e # es) s = Some s2" using s1(1) s2(1) by (simp add: e)
  ultimately show ?case using s2(2) by blast
qed

lemma entry_cases:
  assumes "tame d" "readdir dir d = Some es" "(name, is_file) \<in> set es"
  shows "cstring name" and "name \<in> {str ''.'', str ''..''} \<or> (\<exists>n. (dir @ slash8 # name, n) \<in> set d \<and> is_file = (n \<noteq> Dir) \<and> slash8 \<notin> set name)"
proof -
  show *: "name \<in> {str ''.'', str ''..''} \<or> (\<exists>n. (dir @ slash8 # name, n) \<in> set d \<and> is_file = (n \<noteq> Dir) \<and> slash8 \<notin> set name)"
    using readdir_path[OF assms(2,3)] by blast
  have "cstring (str ''.'')" "cstring (str ''..'')" by (simp_all add: str_def cstring_def)
  moreover have "cstring (dir @ slash8 # name) \<Longrightarrow> cstring name" by (simp add: cstring_def)
  ultimately show "cstring name" using * assms(1) unfolding tame_def by fastforce
qed

text \<open>The block files in a directory, and in the subdirectories of a level.\<close>

fun found :: "nat \<Rightarrow> disk \<Rightarrow> bytes \<Rightarrow> u64 set" where
  "found 0 d dir = (if map_of d dir = Some Dir then {blk_number (dir @ slash8 # name) | name c.
     (dir @ slash8 # name, File c) \<in> set d \<and> slash8 \<notin> set name \<and> prefix (str ''blk_'') name} else {})"
| "found (Suc k) d dir = (if map_of d dir = Some Dir then \<Union> {found k d (dir @ slash8 # name) | name.
     (dir @ slash8 # name, Dir) \<in> set d \<and> slash8 \<notin> set name \<and> prefix (str ''subdir'') name} else {})"

definition scan_step :: "nat \<Rightarrow> disk \<Rightarrow> dn_cache \<Rightarrow> (u64 \<rightharpoonup> nat) \<Rightarrow> nat list \<Rightarrow> (dn_cache \<Rightarrow> dn_cache option) \<Rightarrow> u64 set \<Rightarrow> bool" where
  "scan_step cap d s0 bm0 Q f G \<longleftrightarrow> (\<forall>s bm R. scan_inv cap d s0 bm0 Q s bm R \<longrightarrow>
     (\<exists>s' bm' R'. f s = Some s' \<and> scan_inv cap d s0 bm0 Q s' bm' R' \<and> dom bm \<union> G \<subseteq> dom bm'))"

lemma str_lengths: "length (str ''blk_'') = 4" "length (str ''subdir'') = 6" "length (str ''NS-'') = 3"
  "cstring (str ''blk_'')" "cstring (str ''subdir'')" "cstring (str ''NS-'')"
  by (simp_all add: str_def cstring_def)

lemma dots: "\<not> prefix (str ''blk_'') (str ''.'')" "\<not> prefix (str ''blk_'') (str ''..'')" "\<not> prefix (str ''subdir'') (str ''.'')"
  "\<not> prefix (str ''subdir'') (str ''..'')" "\<not> prefix (str ''NS-'') (str ''.'')" "\<not> prefix (str ''NS-'') (str ''..'')"
  by (simp_all add: str_def)

lemma scan_entries:
  assumes "\<And>name is_file. (name, is_file) \<in> set es \<Longrightarrow> scan_step cap d s0 bm0 Q (f name is_file) (G name is_file)"
  shows "scan_step cap d s0 bm0 Q (each_entry f es) (\<Union>(name, is_file) \<in> set es. G name is_file)"
  unfolding scan_step_def
proof (intro allI impI)
  fix s bm R assume "scan_inv cap d s0 bm0 Q s bm R"
  then show "\<exists>s' bm' R'. each_entry f es s = Some s' \<and> scan_inv cap d s0 bm0 Q s' bm' R' \<and>
      dom bm \<union> (\<Union>(name, is_file) \<in> set es. G name is_file) \<subseteq> dom bm'"
    by (intro each_entry_inv) (use assms in \<open>unfold scan_step_def, blast\<close>)+
qed

lemma scan_step_mono: "scan_step cap d s0 bm0 Q f G \<Longrightarrow> G' \<subseteq> G \<Longrightarrow> scan_step cap d s0 bm0 Q f G'"
  unfolding scan_step_def by (meson Un_mono order_refl subset_trans)

lemma scan_step_skip: "scan_step cap d s0 bm0 Q Some {}"
  unfolding scan_step_def by (auto intro: exI)

lemma scan_step_cong: "scan_step cap d s0 bm0 Q f G \<Longrightarrow> (\<And>s. g s = f s) \<Longrightarrow> G' = G \<Longrightarrow> scan_step cap d s0 bm0 Q g G'"
  by (simp add: scan_step_def)

lemma scan_block_step:
  assumes d: "tame d" "readdir dir d = Some es" "(name, is_file) \<in> set es" and room: "length d + card (dom bm0) \<le> cap"
  shows "scan_step cap d s0 bm0 Q (scan_block d dir name is_file) (if is_file \<and> prefix (str ''blk_'') name then {blk_number (dir @ slash8 # name)} else {})"
proof (cases "is_file \<and> prefix (str ''blk_'') name")
  case True
  note cmp = strncmp_take[OF entry_cases(1)[OF d] str_lengths(4), unfolded str_lengths(1)]
  obtain n where n: "(dir @ slash8 # name, n) \<in> set d" "n \<noteq> Dir" "slash8 \<notin> set name"
    using entry_cases(2)[OF d] True dots by auto
  then obtain c where c: "n = File c" by (cases n) auto
  have fl: "map_of d (dir @ slash8 # name) = Some (File c)" using tame_at[OF d(1) n(1)] c by simp
  have len: "length (dir @ slash8 # name) < PATH_LEN" "length name \<le> 18"
    using d(1) n(1) split_last(2)[OF n(3)] by (auto simp: tame_def)
  then have fits: "length (drop 4 name) < 16" by simp
  from scan_long_small[OF this] obtain v where v: "scan_long (drop 4 name) = Some v" by blast
  then have num: "blk_number (dir @ slash8 # name) = of_int v" by (simp add: blk_number_def split_last(2)[OF n(3)])
  have "scan_block d dir name is_file s = do { (_, s) \<leftarrow> dn_block_object_add (dir @ slash8 # name) (of_nat (length c)) (of_int v) s; Some s }" for s
    using True cmp len v fl fits by (simp add: scan_block_def get_blk_id_def c_strcpy_def)
  then show ?thesis using True scan_inv_add[OF _ room fl len(1)] unfolding num scan_step_def by fastforce
next
  case False
  note cmp = strncmp_take[OF entry_cases(1)[OF d] str_lengths(4), unfolded str_lengths(1)]
  show ?thesis by (rule scan_step_cong[OF scan_step_skip]) (use False cmp in \<open>auto simp: scan_block_def\<close>)
qed

lemma scan_level0:
  assumes d: "tame d" and room: "length d + card (dom bm0) \<le> cap"
  shows "scan_step cap d s0 bm0 Q (scan_subdir_subdir d dir) (found 0 d dir)"
proof (cases "readdir dir d")
  case None
  then have "map_of d dir \<noteq> Some Dir" by (auto simp: readdir_def)
  then show ?thesis using None by (intro scan_step_cong[OF scan_step_skip]) (auto simp: scan_subdir_subdir_def)
next
  case (Some es)
  let ?G = "\<lambda>name is_file. if is_file \<and> prefix (str ''blk_'') name then {blk_number (dir @ slash8 # name)} else {}"
  have sub: "found 0 d dir \<subseteq> (\<Union>(name, is_file) \<in> set es. ?G name is_file)"
  proof
    fix b assume "b \<in> found 0 d dir"
    then obtain name c where name: "b = blk_number (dir @ slash8 # name)" "(dir @ slash8 # name, File c) \<in> set d"
        "slash8 \<notin> set name" "prefix (str ''blk_'') name" by (auto split: if_splits)
    from readdir_entry[OF Some name(2,3)] have "(name, True) \<in> set es" by simp
    then show "b \<in> (\<Union>(name, is_file) \<in> set es. ?G name is_file)" using name(1,4) by (intro UN_I[of "(name, True)"]) auto
  qed
  show ?thesis
    by (rule scan_step_cong[OF scan_step_mono[OF scan_entries[OF scan_block_step[OF d Some _ room]] sub]])
      (simp_all add: Some scan_subdir_subdir_def)
qed

text \<open>A level whose subdirectories are scanned by \<open>f\<close>.\<close>

lemma scan_level:
  assumes d: "tame d" and f: "\<And>root. length root < PATH_LEN \<Longrightarrow> scan_step cap d s0 bm0 Q (f root) (found k d root)"
    and g: "\<And>dir s. g dir s = (case readdir dir d of None \<Rightarrow> Some s
      | Some es \<Rightarrow> each_entry (\<lambda>name is_file s. if \<not> is_file \<and> string_strncmp name (str ''subdir'') 6 = 0
          then do { root \<leftarrow> c_strcpy PATH_LEN (dir @ slash8 # name); f root s } else Some s) es s)"
  shows "scan_step cap d s0 bm0 Q (g dir) (found (Suc k) d dir)"
proof (cases "readdir dir d")
  case None
  then have "map_of d dir \<noteq> Some Dir" by (auto simp: readdir_def)
  then show ?thesis using None by (intro scan_step_cong[OF scan_step_skip]) (auto simp: g)
next
  case (Some es)
  let ?G = "\<lambda>name is_file. if \<not> is_file \<and> prefix (str ''subdir'') name then found k d (dir @ slash8 # name) else {}"
    and ?f = "\<lambda>name is_file s. if \<not> is_file \<and> string_strncmp name (str ''subdir'') 6 = 0
          then do { root \<leftarrow> c_strcpy PATH_LEN (dir @ slash8 # name); f root s } else Some s"
  have step: "scan_step cap d s0 bm0 Q (?f name is_file) (?G name is_file)" if e: "(name, is_file) \<in> set es" for name is_file
  proof (cases "\<not> is_file \<and> prefix (str ''subdir'') name")
    case True
    note cmp = strncmp_take[OF entry_cases(1)[OF d Some e] str_lengths(5), unfolded str_lengths(2)]
    obtain n where n: "(dir @ slash8 # name, n) \<in> set d" using entry_cases(2)[OF d Some e] True dots by auto
    then have len: "length (dir @ slash8 # name) < PATH_LEN" using d by (auto simp: tame_def)
    show ?thesis by (rule scan_step_cong[OF f[OF len]]) (use True cmp len in \<open>simp_all add: c_strcpy_def\<close>)
  next
    case False
    note cmp = strncmp_take[OF entry_cases(1)[OF d Some e] str_lengths(5), unfolded str_lengths(2)]
    show ?thesis by (rule scan_step_cong[OF scan_step_skip]) (use False cmp in auto)
  qed
  have sub: "found (Suc k) d dir \<subseteq> (\<Union>(name, is_file) \<in> set es. ?G name is_file)"
  proof
    fix b assume "b \<in> found (Suc k) d dir"
    then obtain name where name: "b \<in> found k d (dir @ slash8 # name)" "(dir @ slash8 # name, Dir) \<in> set d"
        "slash8 \<notin> set name" "prefix (str ''subdir'') name" by (auto split: if_splits)
    from readdir_entry[OF Some name(2,3)] have "(name, False) \<in> set es" by simp
    then show "b \<in> (\<Union>(name, is_file) \<in> set es. ?G name is_file)" using name(1,4) by (intro UN_I[of "(name, False)"]) auto
  qed
  show ?thesis by (rule scan_step_cong[OF scan_step_mono[OF scan_entries[OF step] sub]]) (simp_all add: Some g)
qed

lemma scan_level1: "tame d \<Longrightarrow> length d + card (dom bm0) \<le> cap \<Longrightarrow> scan_step cap d s0 bm0 Q (scan_subdir d dir) (found 1 d dir)"
  unfolding One_nat_def by (rule scan_level[where f = "scan_subdir_subdir d"]) (assumption, erule (1) scan_level0, simp add: scan_subdir_def)

lemma scan_level2: "tame d \<Longrightarrow> length d + card (dom bm0) \<le> cap \<Longrightarrow> scan_step cap d s0 bm0 Q (scan_namespace_dir d dir) (found 2 d dir)"
  unfolding numeral_2_eq_2
  by (rule scan_level[where f = "scan_subdir d"]) (assumption, erule (1) scan_level1[unfolded One_nat_def], simp add: scan_namespace_dir_def)

definition found_current :: "disk \<Rightarrow> bytes \<Rightarrow> u64 set" where
  "found_current d cur = (if map_of d cur = Some Dir then \<Union> {found 2 d (cur @ slash8 # name @ str ''/current'') | name.
     (cur @ slash8 # name, Dir) \<in> set d \<and> slash8 \<notin> set name \<and> prefix (str ''NS-'') name} else {})"

lemma scan_current_step:
  assumes d: "tame d" and room: "length d + card (dom bm0) \<le> cap"
  shows "scan_step cap d s0 bm0 Q (scan_current_dir d dir) (found_current d dir)"
proof (cases "readdir dir d")
  case None
  then have "map_of d dir \<noteq> Some Dir" by (auto simp: readdir_def)
  then show ?thesis using None by (intro scan_step_cong[OF scan_step_skip]) (auto simp: scan_current_dir_def found_current_def)
next
  case (Some es)
  let ?root = "\<lambda>name. dir @ slash8 # name @ str ''/current''"
  let ?G = "\<lambda>name is_file. if \<not> is_file \<and> prefix (str ''NS-'') name then found 2 d (?root name) else {}"
    and ?f = "\<lambda>name is_file s. if \<not> is_file \<and> string_strncmp name (str ''NS-'') 3 = 0
          then do { num \<leftarrow> get_namespace_id name; root \<leftarrow> c_strcpy PATH_LEN (?root name); _ \<leftarrow> scan_long num; scan_namespace_dir d root s }
          else Some s"
  have step: "scan_step cap d s0 bm0 Q (?f name is_file) (?G name is_file)" if e: "(name, is_file) \<in> set es" for name is_file
  proof -
    note cmp = strncmp_take[OF entry_cases(1)[OF d Some e] str_lengths(6), unfolded str_lengths(3)]
    show ?thesis
    proof (cases "\<not> is_file \<and> prefix (str ''NS-'') name")
      case True
      obtain n where n: "(dir @ slash8 # name, n) \<in> set d" "slash8 \<notin> set name" using entry_cases(2)[OF d Some e] True dots by auto
      then have len: "length (?root name) < PATH_LEN" "length (drop 3 name) < 16"
        using d split_last(2)[OF n(2)] by (auto simp: tame_def str_def)
      from scan_long_small[OF len(2)] obtain v where "scan_long (drop 3 name) = Some v" by blast
      then show ?thesis
        by (intro scan_step_cong[OF scan_level2[OF d room]]) (use True cmp len in \<open>simp_all add: c_strcpy_def get_namespace_id_def\<close>)
    next
      case False
      show ?thesis by (rule scan_step_cong[OF scan_step_skip]) (use False cmp in auto)
    qed
  qed
  have sub: "found_current d dir \<subseteq> (\<Union>(name, is_file) \<in> set es. ?G name is_file)"
  proof
    fix b assume "b \<in> found_current d dir"
    then obtain name where name: "b \<in> found 2 d (?root name)" "(dir @ slash8 # name, Dir) \<in> set d"
        "slash8 \<notin> set name" "prefix (str ''NS-'') name" by (auto simp: found_current_def simp del: found.simps split: if_splits)
    from readdir_entry[OF Some name(2,3)] have "(name, False) \<in> set es" by simp
    then show "b \<in> (\<Union>(name, is_file) \<in> set es. ?G name is_file)" using name(1,4) by (intro UN_I[of "(name, False)"]) auto
  qed
  show ?thesis by (rule scan_step_cong[OF scan_step_mono[OF scan_entries[OF step] sub]]) (simp_all add: Some scan_current_dir_def)
qed

lemma scanner_step:
  assumes "tame d" "length d + card (dom bm0) \<le> cap"
  shows "scan_step cap d s0 bm0 Q (blk_scanner_turn d sds) (\<Union>sd \<in> set sds. found_current d (sd_current sd))"
proof (induction sds)
  case Nil
  then show ?case by (intro scan_step_cong[OF scan_step_skip]) simp_all
next
  case (Cons sd sds)
  show ?case
    unfolding scan_step_def
  proof (intro allI impI)
    fix s bm R assume "scan_inv cap d s0 bm0 Q s bm R"
    then obtain s1 bm1 R1 where s1: "scan_current_dir d (sd_current sd) s = Some s1" "scan_inv cap d s0 bm0 Q s1 bm1 R1"
        "dom bm \<union> found_current d (sd_current sd) \<subseteq> dom bm1"
      using scan_current_step[OF assms, unfolded scan_step_def] by blast
    with Cons.IH[unfolded scan_step_def] obtain s2 bm2 R2 where s2: "blk_scanner_turn d sds s1 = Some s2" "scan_inv cap d s0 bm0 Q s2 bm2 R2"
        "dom bm1 \<union> (\<Union>sd \<in> set sds. found_current d (sd_current sd)) \<subseteq> dom bm2" by blast
    have "dom bm \<union> (\<Union>sd \<in> set (sd # sds). found_current d (sd_current sd)) \<subseteq> dom bm2"
      using subset_trans[OF s1(3), of "dom bm2"] s2(3) by simp
    with s1(1) s2(1,2) show "\<exists>s' bm' R'. blk_scanner_turn d (sd # sds) s = Some s' \<and> scan_inv cap d s0 bm0 Q s' bm' R' \<and>
        dom bm \<union> (\<Union>sd \<in> set (sd # sds). found_current d (sd_current sd)) \<subseteq> dom bm'" by auto
  qed
qed

section \<open>Block files\<close>

text \<open>A file in the second level of the subdirectories of a name space, with the directories on its path.\<close>

definition block_file :: "disk \<Rightarrow> bytes \<Rightarrow> bytes \<Rightarrow> bool" where
  "block_file d cur p \<longleftrightarrow> (\<exists>ns a b name c. let root = cur @ slash8 # ns @ str ''/current'' in
     p = root @ slash8 # a @ slash8 # b @ slash8 # name \<and> slash8 \<notin> set ns \<union> set a \<union> set b \<union> set name \<and>
     prefix (str ''NS-'') ns \<and> prefix (str ''subdir'') a \<and> prefix (str ''subdir'') b \<and> prefix (str ''blk_'') name \<and>
     map_of d cur = Some Dir \<and> map_of d (cur @ slash8 # ns) = Some Dir \<and> map_of d root = Some Dir \<and>
     map_of d (root @ slash8 # a) = Some Dir \<and> map_of d (root @ slash8 # a @ slash8 # b) = Some Dir \<and> map_of d p = Some (File c))"

lemma block_file_found: "block_file d cur p \<Longrightarrow> blk_number p \<in> found_current d cur"
proof -
  assume "block_file d cur p"
  then obtain ns a b name c where root: "p = (cur @ slash8 # ns @ str ''/current'') @ slash8 # a @ slash8 # b @ slash8 # name"
      "slash8 \<notin> set ns" "slash8 \<notin> set a" "slash8 \<notin> set b" "slash8 \<notin> set name"
      "prefix (str ''NS-'') ns" "prefix (str ''subdir'') a" "prefix (str ''subdir'') b" "prefix (str ''blk_'') name"
      "map_of d cur = Some Dir" "map_of d (cur @ slash8 # ns) = Some Dir" "map_of d (cur @ slash8 # ns @ str ''/current'') = Some Dir"
      "map_of d ((cur @ slash8 # ns @ str ''/current'') @ slash8 # a) = Some Dir"
      "map_of d ((cur @ slash8 # ns @ str ''/current'') @ slash8 # a @ slash8 # b) = Some Dir" "map_of d p = Some (File c)"
    unfolding block_file_def Let_def by auto
  let ?r = "cur @ slash8 # ns @ str ''/current''"
  have "blk_number p \<in> found 0 d (?r @ slash8 # a @ slash8 # b)" using root map_of_SomeD[OF root(15)] by auto
  then have "blk_number p \<in> found 1 d (?r @ slash8 # a)" using root map_of_SomeD[OF root(14)] by auto
  then have "blk_number p \<in> found 2 d ?r" using root map_of_SomeD[OF root(13)] by (auto simp: numeral_2_eq_2 simp del: found.simps(1)) 
  then show ?thesis using root(2,6,10) map_of_SomeD[OF root(11)] by (auto simp: found_current_def simp del: found.simps)
qed

end
