(* ===== verification/Dn_Storage.thy ===== *)
theory Dn_Storage
  imports Dn_Scan Nn_Dn_Runs
begin

text \<open>
  The directory tree that a data node makes for a name space: it is made completely, every operation keeps
  each path inside a directory, and the place of a block follows from its number.
\<close>

section \<open>The tree of a name space\<close>

lemma decimal_inject: "decimal m = decimal n \<longleftrightarrow> m = n"
  by (metis decimal_value)

lemma decimal_no_slash: "slash8 \<notin> set (decimal n)"
  using decimal_digits[of n] by (auto simp: is_digit_def)

lemma int_dec_nat: "0 \<le> i \<Longrightarrow> int_dec i = decimal (nat i)"
  by (simp add: int_dec_def)

lemma subdir_split: "subdir path i = path @ slash8 # str ''subdir'' @ int_dec i"
  by (simp add: subdir_def str_def)

lemma subdir_dir: "0 \<le> i \<Longrightarrow> dir_of (subdir path i) = path"
  unfolding subdir_split by (rule split_last) (simp add: int_dec_nat decimal_no_slash str_def)

lemma subdir_inject: "0 \<le> i \<Longrightarrow> 0 \<le> j \<Longrightarrow> subdir path i = subdir path j \<longleftrightarrow> i = j"
  by (auto simp: subdir_def int_dec_nat decimal_inject)

lemma subdir_neq: "subdir path i \<noteq> path"
  by (simp add: subdir_def str_def)

lemma mkdirs_ok:
  "distinct ps \<Longrightarrow> (\<And>us p vs. ps = us @ p # vs \<Longrightarrow> map_of d p = None \<and> (map_of d (dir_of p) = Some Dir \<or> dir_of p \<in> set us)) \<Longrightarrow>
     mkdirs (\<lambda>_. True) ps d = (DFS_OK, d @ map (\<lambda>p. (p, Dir)) ps)"
proof (induction ps arbitrary: d)
  case (Cons p ps)
  have p: "map_of d p = None" "map_of d (dir_of p) = Some Dir" using Cons.prems(2)[of "[]" p ps] by auto
  have "mkdirs (\<lambda>_. True) ps (d @ [(p, Dir)]) = (DFS_OK, (d @ [(p, Dir)]) @ map (\<lambda>p. (p, Dir)) ps)"
  proof (rule Cons.IH)
    show "distinct ps" using Cons.prems(1) by simp
    fix us q vs assume q: "ps = us @ q # vs"
    have "q \<noteq> p" using Cons.prems(1) q by auto
    with Cons.prems(2)[of "p # us" q vs] q p(1)
    show "map_of (d @ [(p, Dir)]) q = None \<and> (map_of (d @ [(p, Dir)]) (dir_of q) = Some Dir \<or> dir_of q \<in> set us)"
      by (auto simp: map_add_def split: option.splits)
  qed
  then show ?case using p by (simp add: sys_mkdir_def)
qed simp

definition subdir_block :: "bytes \<Rightarrow> int \<Rightarrow> bytes list" where
  "subdir_block path i = subdir path i # map (subdir (subdir path i)) [0..int SUBDIR_LEN - 1]"

lemma subdir_block_mem: "p \<in> set (subdir_block path i) \<longleftrightarrow> p = subdir path i \<or> (\<exists>j. 0 \<le> j \<and> j < 64 \<and> p = subdir (subdir path i) j)"
  by (auto simp: subdir_block_def SUBDIR_LEN_def)

lemma subdir_block_disjoint:
  assumes "0 \<le> i" "0 \<le> i'" "i \<noteq> i'"
  shows "set (subdir_block path i) \<inter> set (subdir_block path i') = {}"
proof -
  have "subdir path i \<noteq> subdir (subdir path k) j" if "0 \<le> j" "0 \<le> i" for i j k
    using arg_cong[of _ _ dir_of] subdir_dir[of i path] subdir_dir[of j "subdir path k"] subdir_neq[of path k] that by metis
  moreover have "subdir (subdir path i) j \<noteq> subdir (subdir path i') j'" if "0 \<le> j" "0 \<le> j'" for j j'
    using subdir_dir[OF that(1), of "subdir path i"] subdir_dir[OF that(2), of "subdir path i'"] subdir_inject[OF assms(1,2)] assms(3) by metis
  moreover have "subdir path i \<noteq> subdir path i'" using subdir_inject[OF assms(1,2)] assms(3) by blast
  ultimately show ?thesis using assms(1,2) unfolding disjoint_iff subdir_block_mem by metis
qed

lemma mkdirs_block:
  assumes "0 \<le> i" "map_of d path = Some Dir" "\<forall>p \<in> set (subdir_block path i). map_of d p = None"
  shows "mkdirs (\<lambda>_. True) (subdir_block path i) d = (DFS_OK, d @ map (\<lambda>p. (p, Dir)) (subdir_block path i))"
proof (rule mkdirs_ok)
  have "inj_on (subdir (subdir path i)) {0..int SUBDIR_LEN - 1}" by (rule inj_onI) (auto simp: subdir_inject)
  moreover have "subdir path i \<noteq> subdir (subdir path i) j" if "0 \<le> j" for j
    using subdir_neq[of "subdir path i" j] by metis
  ultimately show "distinct (subdir_block path i)" by (auto simp: subdir_block_def distinct_map)
  fix us p vs assume p: "subdir_block path i = us @ p # vs"
  have none: "map_of d p = None" using assms(3) p by simp
  show "map_of d p = None \<and> (map_of d (dir_of p) = Some Dir \<or> dir_of p \<in> set us)"
  proof (cases us)
    case Nil
    then have "p = subdir path i" using p by (simp add: subdir_block_def)
    then show ?thesis using none subdir_dir[OF assms(1), of path] assms(2) by simp
  next
    case (Cons u us')
    then have u: "u = subdir path i" and rest: "map (subdir (subdir path i)) [0..int SUBDIR_LEN - 1] = us' @ p # vs"
      using p by (auto simp: subdir_block_def)
    have "p \<in> set (map (subdir (subdir path i)) [0..int SUBDIR_LEN - 1])" unfolding rest by simp
    with u show ?thesis using none Cons subdir_dir[of _ "subdir path i"] by auto
  qed
qed

lemma subdirs_loop_ok:
  "distinct is \<Longrightarrow> \<forall>i \<in> set is. 0 \<le> i \<Longrightarrow> map_of d path = Some Dir \<Longrightarrow> \<forall>i \<in> set is. \<forall>p \<in> set (subdir_block path i). map_of d p = None \<Longrightarrow>
     subdirs_loop (\<lambda>_. True) path is d = (DFS_OK, d @ map (\<lambda>p. (p, Dir)) (concat (map (subdir_block path) is)))"
proof (induction "is" arbitrary: d)
  case (Cons i "is")
  let ?d = "d @ map (\<lambda>p. (p, Dir)) (subdir_block path i)"
  have mk: "mkdirs (\<lambda>_. True) (subdir_block path i) d = (DFS_OK, ?d)" using Cons.prems by (intro mkdirs_block) auto
  have free: "\<not> access_ok (subdir path i) d" using Cons.prems(4) by (simp add: access_ok_def subdir_block_def)
  have "subdirs_loop (\<lambda>_. True) path is ?d = (DFS_OK, ?d @ map (\<lambda>p. (p, Dir)) (concat (map (subdir_block path) is)))"
  proof (rule Cons.IH)
    show "map_of ?d path = Some Dir" using Cons.prems(3) by (simp add: map_add_def split: option.splits)
    show "\<forall>j \<in> set is. \<forall>p \<in> set (subdir_block path j). map_of ?d p = None"
    proof (intro ballI)
      fix j p assume j: "j \<in> set is" "p \<in> set (subdir_block path j)"
      then have "p \<notin> set (subdir_block path i)" using subdir_block_disjoint[of i j path] Cons.prems(1,2) by auto
      then have "map_of (map (\<lambda>p. (p, Dir)) (subdir_block path i)) p = None" by (auto simp: map_of_eq_None_iff)
      then show "map_of ?d p = None" using j Cons.prems(4) by simp
    qed
  qed (use Cons.prems in auto)
  then show ?case using mk free by (simp add: subdir_block_def[symmetric])
qed simp

section \<open>Directories stay\<close>

text \<open>Every path below the root is in a directory of the disk.\<close>

definition fs_closed :: "disk \<Rightarrow> bool" where
  "fs_closed d \<longleftrightarrow> (\<forall>(p, n) \<in> set d. dir_of p \<noteq> [] \<longrightarrow> map_of d (dir_of p) = Some Dir)"

lemma fs_closedI: "(\<And>p n. (p, n) \<in> set d \<Longrightarrow> dir_of p \<noteq> [] \<Longrightarrow> map_of d (dir_of p) = Some Dir) \<Longrightarrow> fs_closed d"
  unfolding fs_closed_def by blast

lemma fs_closedD: "fs_closed d \<Longrightarrow> (p, n) \<in> set d \<Longrightarrow> dir_of p \<noteq> [] \<Longrightarrow> map_of d (dir_of p) = Some Dir"
  unfolding fs_closed_def by blast

lemma fs_up: "fs_closed d \<Longrightarrow> map_of d (dir @ slash8 # name) = Some n \<Longrightarrow> slash8 \<notin> set name \<Longrightarrow> dir \<noteq> [] \<Longrightarrow> map_of d dir = Some Dir"
  using fs_closedD[of d "dir @ slash8 # name" n] split_last(1)[of name dir] by (auto dest: map_of_SomeD)

lemma map_of_keep: "map_of d q = Some n \<Longrightarrow> map_of (d @ [x]) q = Some n"
  by (simp add: map_add_def)

lemma fs_closed_snoc:
  assumes "fs_closed d" "map_of d (dir_of p) = Some Dir"
  shows "fs_closed (d @ [(p, n)])"
proof (rule fs_closedI)
  fix q m assume "(q, m) \<in> set (d @ [(p, n)])" "dir_of q \<noteq> []"
  then have "map_of d (dir_of q) = Some Dir" using assms fs_closedD[OF assms(1), of q m] by auto
  then show "map_of (d @ [(p, n)]) (dir_of q) = Some Dir" by (rule map_of_keep)
qed

lemma map_of_filter_key: "map_of (filter (\<lambda>(q, n). P q) d) q = (if P q then map_of d q else None)"
  by (induction d) auto

lemma fs_closed_drop:
  assumes "fs_closed d" "\<And>q. \<not> P q \<Longrightarrow> map_of d q \<noteq> Some Dir"
  shows "fs_closed (filter (\<lambda>(q, n). P q) d)"
proof (rule fs_closedI)
  fix p n assume "(p, n) \<in> set (filter (\<lambda>(q, n). P q) d)" "dir_of p \<noteq> []"
  then have "map_of d (dir_of p) = Some Dir" using fs_closedD[OF assms(1), of p n] by auto
  then show "map_of (filter (\<lambda>(q, n). P q) d) (dir_of p) = Some Dir" using assms(2) by (auto simp: map_of_filter_key)
qed

lemma mkdir_closed: "fs_closed d \<Longrightarrow> sys_mkdir sys p d = (rc, d') \<Longrightarrow> fs_closed d'"
  using fs_closed_snoc[of d p Dir] by (auto simp: sys_mkdir_def split: if_splits)

lemma write_closed:
  assumes "fs_closed d" "sys_write sys p c d = (rc, d')"
  shows "fs_closed d'"
proof (cases "sys p \<and> map_of d p \<noteq> Some Dir \<and> map_of d (dir_of p) = Some Dir")
  case True
  then have "fs_closed (filter (\<lambda>(q, n). q \<noteq> p) d)" by (intro fs_closed_drop[OF assms(1)]) auto
  moreover have "map_of (filter (\<lambda>(q, n). q \<noteq> p) d) (dir_of p) = Some Dir"
    using True by (simp add: map_of_filter_key) metis
  ultimately show ?thesis using True assms(2) fs_closed_snoc by (auto simp: sys_write_def)
qed (use assms in \<open>auto simp: sys_write_def split: if_splits\<close>)

lemma rename_ok:
  assumes "map_of d old = Some (File c)" "sys new" "map_of d new \<noteq> Some Dir" "map_of d (dir_of new) = Some Dir"
  shows "sys_rename sys old new d = (DFS_OK, filter (\<lambda>(q, n). q \<noteq> old \<and> q \<noteq> new) d @ [(new, File c)])"
  using assms by (simp add: sys_rename_def)

lemma rename_closed:
  assumes "fs_closed d" "sys_rename sys old new d = (rc, d')"
  shows "fs_closed d'"
proof (cases "\<exists>c. map_of d old = Some (File c) \<and> sys new \<and> map_of d new \<noteq> Some Dir \<and> map_of d (dir_of new) = Some Dir")
  case True
  then obtain c where c: "map_of d old = Some (File c)" "sys new" "map_of d new \<noteq> Some Dir" "map_of d (dir_of new) = Some Dir" by blast
  have "fs_closed (filter (\<lambda>(q, n). q \<noteq> old \<and> q \<noteq> new) d)" using c(1,3) by (intro fs_closed_drop[OF assms(1)]) auto
  moreover have "dir_of new \<noteq> old" "dir_of new \<noteq> new" using c by auto
  then have "map_of (filter (\<lambda>(q, n). q \<noteq> old \<and> q \<noteq> new) d) (dir_of new) = Some Dir" using c(4) by (simp add: map_of_filter_key)
  ultimately show ?thesis using assms(2) fs_closed_snoc rename_ok[where sys = sys and new = new, OF c] by auto
next
  case False
  then have "d' = d" using assms(2) by (auto simp: sys_rename_def split: option.splits file_node.splits if_splits)
  then show ?thesis using assms(1) by simp
qed

lemma unlink_closed: "fs_closed d \<Longrightarrow> fs_closed (sys_unlink p d)"
proof (rule fs_closedI)
  fix q n assume d: "fs_closed d" and "(q, n) \<in> set (sys_unlink p d)" "dir_of q \<noteq> []"
  then have "map_of d (dir_of q) = Some Dir" using fs_closedD[OF d, of q n] by (auto simp: sys_unlink_def)
  then show "map_of (sys_unlink p d) (dir_of q) = Some Dir" unfolding sys_unlink_def by (induction d) (auto split: if_splits)
qed

lemma unlinks_closed: "fs_closed d \<Longrightarrow> fs_closed (fold sys_unlink ps d)"
  by (induction ps arbitrary: d) (simp_all add: unlink_closed)

lemma mkdirs_closed: "fs_closed d \<Longrightarrow> mkdirs sys ps d = (rc, d') \<Longrightarrow> fs_closed d'"
  by (induction ps arbitrary: d) (auto split: prod.splits if_splits intro: mkdir_closed)

lemma subdirs_closed: "fs_closed d \<Longrightarrow> subdirs_loop sys path is d = (rc, d') \<Longrightarrow> fs_closed d'"
  by (induction "is" arbitrary: d) (auto split: prod.splits if_splits intro: mkdirs_closed simp del: mkdirs.simps)

lemma storage_dirs_closed: "fs_closed d \<Longrightarrow> create_storage_dirs sys sds d = (rc, d') \<Longrightarrow> fs_closed d'"
  by (induction sds arbitrary: d) (auto split: prod.splits if_splits intro: mkdir_closed)

lemma version_disk: "check_version sys ip now path ver d = Some (rc, ver', d') \<Longrightarrow> d' = d \<or> (\<exists>c. d' = snd (sys_write sys path c d))"
  by (cases "map_of d path") (auto simp: check_version_def Let_def bind_eq_Some_conv case_prod_unfold split: file_node.splits if_splits)

lemma version_closed: "fs_closed d \<Longrightarrow> check_version sys ip now path ver d = Some (rc, ver', d') \<Longrightarrow> fs_closed d'"
  using write_closed[OF _ prod.collapse[symmetric]] by (drule_tac version_disk) auto

lemma namespace_closed: "fs_closed d \<Longrightarrow> check_namespace sys path ns d = Some (rc, d') \<Longrightarrow> fs_closed d'"
proof (cases "access_ok path d")
  case True
  assume "fs_closed d" "check_namespace sys path ns d = Some (rc, d')"
  with True show ?thesis by (auto simp: check_namespace_def Let_def bind_eq_Some_conv split: option.splits file_node.splits if_splits)
next
  case False
  assume d: "fs_closed d" and c: "check_namespace sys path ns d = Some (rc, d')"
  let ?cur = "path @ str ''/current''"
  obtain r1 d1 where d1: "mkdirs sys [path, path @ str ''/blocksBeingWritten'', ?cur] d = (r1, d1)" by fastforce
  obtain r2 d2 where d2: "sys_write sys (?cur @ str ''/VERSION'') (str ''namespaceID='' @ int_dec ns @ [10]) d1 = (r2, d2)" by fastforce
  obtain r3 d3 where d3: "create_storage_subdirs sys ?cur d2 = (r3, d3)" by fastforce
  have "d' \<in> {d1, d2, d3}" using c False d1 d2 d3 by (auto simp: check_namespace_def Let_def simp del: mkdirs.simps split: if_splits)
  moreover have "fs_closed d1" by (rule mkdirs_closed[OF d d1])
  moreover from this have "fs_closed d2" by (rule write_closed[OF _ d2])
  moreover from this have "fs_closed d3" by (rule subdirs_closed[OF _ d3[unfolded create_storage_subdirs_def]])
  ultimately show ?thesis by auto
qed

lemma setup_closed: "fs_closed d \<Longrightarrow> setup_ns_storage sys ip now ns sds ver d = Some (rc, ver', d') \<Longrightarrow> fs_closed d'"
proof (induction sds arbitrary: ver d)
  case (Cons sd sds)
  obtain r1 v1 d1 where v: "check_version sys ip now (sd_current sd @ str ''/VERSION'') ver d = Some (r1, v1, d1)"
    using Cons.prems(2) by (auto simp: bind_eq_Some_conv)
  have d1: "fs_closed d1" by (rule version_closed[OF Cons.prems(1) v])
  show ?case
  proof (cases "r1 = DFS_OK")
    case True
    then obtain r2 d2 where n: "check_namespace sys (sd_current sd @ str ''/NS-'' @ int_dec ns) ns d1 = Some (r2, d2)"
      using Cons.prems(2) v by (auto simp: bind_eq_Some_conv)
    have "fs_closed d2" by (rule namespace_closed[OF d1 n])
    with Cons.IH[of d2 v1] Cons.prems(2) v n True show ?thesis by (auto split: if_splits)
  qed (use Cons.prems(2) v d1 in auto)
qed simp

lemma write_block_cases:
  assumes "write_block_done sys sds ns b len path (d, s) = Some (rc, d', s')"
  obtains p where "block_dir sds ns b = Some p" "d' = snd (sys_rename sys path p d)"
    "fst (sys_rename sys path p d) = DFS_OK \<and> recv_blk_report b len p s = Some (rc, s') \<or>
     fst (sys_rename sys path p d) \<noteq> DFS_OK \<and> rc = DFS_ERROR \<and> s' = s"
  using assms that by (auto simp: write_block_done_def Let_def bind_eq_Some_conv case_prod_unfold split: if_splits)

lemma write_block_closed: "fs_closed d \<Longrightarrow> write_block_done sys sds ns b len path (d, s) = Some (rc, d', s') \<Longrightarrow> fs_closed d'"
  using rename_closed[OF _ prod.collapse[symmetric]] by (erule_tac write_block_cases) auto

lemma delete_closed: "fs_closed d \<Longrightarrow> delete_blocks ids (d, s) = Some (d', s') \<Longrightarrow> fs_closed d'"
  by (auto simp: delete_blocks_def bind_eq_Some_conv intro: unlinks_closed)

section \<open>The place of a block is found by its number\<close>

lemma int_dec_no_slash: "slash8 \<notin> set (int_dec v)"
  by (simp add: int_dec_def decimal_no_slash)

lemma decimal_length: "n < 10 ^ k \<Longrightarrow> 0 < k \<Longrightarrow> length (decimal n) \<le> k"
proof (induction n arbitrary: k rule: decimal.induct)
  case (1 n)
  show ?case
  proof (cases "n < 10")
    case False
    obtain m where k: "k = Suc m" using 1(3) by (cases k) auto
    then have m: "k = Suc m" "0 < m" using False 1(2) by (cases "m = 0"; simp)+
    then have "n div 10 < 10 ^ m" using 1(2) by (simp add: div_less_iff_less_mult mult.commute)
    with 1(1)[OF False, of m] m False show ?thesis by (subst decimal.simps) simp
  qed (use 1(3) in \<open>subst decimal.simps, simp\<close>)
qed

definition block_name :: "u64 \<Rightarrow> bytes" where
  "block_name b = str ''blk_'' @ int_dec (sint b)"

lemma block_name_no_slash: "slash8 \<notin> set (block_name b)"
  by (simp add: block_name_def int_dec_no_slash str_def)

lemma block_number:
  assumes "0 \<le> sint b"
  shows "blk_number (dir @ slash8 # block_name b) = b"
proof -
  have "sint b < 2 ^ 63" using sint_lt[of b] by simp
  then have "nat (sint b) < 2 ^ 63" using assms by (simp add: nat_less_iff)
  then have "scan_long (int_dec (sint b)) = Some (int (nat (sint b)))" using scan_long_decimal assms by (simp add: int_dec_nat)
  moreover have "drop 4 (block_name b) = int_dec (sint b)" by (simp add: block_name_def str_def)
  ultimately show ?thesis using assms by (simp add: blk_number_def split_last(2)[OF block_name_no_slash])
qed

definition ns_name :: "u64 \<Rightarrow> bytes" where
  "ns_name ns = str ''NS-'' @ int_dec (sint ns)"

lemma disk_ids:
  "storage_loop buf i toks = Some sds \<Longrightarrow> map sd_id sds = [i..i + int (length sds) - 1]"
proof (induction toks arbitrary: buf i sds)
  case (Cons t toks)
  then obtain buf' cur sds' where r: "storage_loop buf' (i + 1) toks = Some sds'" "sds = \<lparr>sd_id = i, sd_current = cur\<rparr> # sds'"
    by (auto simp: bind_eq_Some_conv split: if_splits)
  have "[i..i + int (length sds') ] = i # [i + 1..i + int (length sds')]" by (rule upto_rec1) simp
  then show ?case using Cons.IH[OF r(1)] r(2) by simp
qed simp

text \<open>The storage directories as \<open>init_storage_dirs\<close> numbers them.\<close>

definition disks_ok :: "storage_dir list \<Rightarrow> bool" where
  "disks_ok sds \<longleftrightarrow> sds \<noteq> [] \<and> map sd_id sds = [0..int (length sds) - 1] \<and> (\<forall>sd \<in> set sds. sd_current sd \<noteq> [])"

lemma smod_nonneg: "0 \<le> a \<Longrightarrow> 0 < b \<Longrightarrow> a smod b = a mod (b :: int)"
  by (cases "a = 0") (simp_all add: smod_int_alt_def)

lemma disk_of_block:
  assumes "disks_ok sds" "0 \<le> sint b"
  shows "\<exists>sd \<in> set sds. get_disk_id sds b path = Some (sd_current sd)"
proof -
  let ?i = "sint b smod int (length sds)"
  have "0 < int (length sds)" using assms(1) by (simp add: disks_ok_def)
  then have "?i = sint b mod int (length sds)" using assms(2) by (intro smod_nonneg)
  then have "?i \<in> set (map sd_id sds)" using assms(1) \<open>0 < int (length sds)\<close> by (simp add: disks_ok_def)
  then obtain sd where "find (\<lambda>sd. sd_id sd = ?i) sds = Some sd" by (cases "find (\<lambda>sd. sd_id sd = ?i) sds") (auto simp: find_None_iff)
  moreover from this have "sd \<in> set sds" by (auto simp: find_Some_iff)
  ultimately show ?thesis using assms(1) by (auto simp: get_disk_id_def disks_ok_def)
qed

end
