(* ===== verification/Dn_Runs.thy ===== *)
theory Dn_Runs
  imports Dn_Storage Nn_Dn_Runs
begin

text \<open>
  The life of a block on a data node: it is written and moved to its place, reported to the name node,
  deleted, and found again by the scan after a restart. In every state that such steps reach the index
  only has blocks that are on disk.
\<close>

section \<open>Runs of a data node\<close>

text \<open>
  The steps of the storage of a data node for one name space. A client writes a block that is not known
  to the place of the unfinished blocks; a block that was written is moved to its place; the name node
  asks for a deletion when no report waits; the scanner looks at the disks; a report is sent. The start
  is a disk with any directories and files, and an empty index.
\<close>

inductive dn_run :: "(bytes \<Rightarrow> bool) \<Rightarrow> storage_dir list \<Rightarrow> u64 \<Rightarrow> disk \<Rightarrow> dn_cache \<Rightarrow> bool" for sys sds ns where
  start: "\<forall>r. ok r \<Longrightarrow> fs_closed d \<Longrightarrow> dn_index_init mem ok s0 = Some (DFS_OK, s) \<Longrightarrow> dn_run sys sds ns d s"
| temp: "dn_run sys sds ns d s \<Longrightarrow> 0 \<le> sint b \<Longrightarrow> dn_block_object_get b s = Some None \<Longrightarrow> get_block_temp_path sds ns b = Some tmp \<Longrightarrow>
    sys_write sys tmp c d = (rc, d') \<Longrightarrow> dn_run sys sds ns d' s"
| written: "dn_run sys sds ns d s \<Longrightarrow> 0 \<le> sint b \<Longrightarrow> dn_block_object_get b s = Some None \<Longrightarrow> get_block_temp_path sds ns b = Some tmp \<Longrightarrow>
    write_block_done sys sds ns b len tmp (d, s) = Some (rc, d', s') \<Longrightarrow> dn_run sys sds ns d' s'"
| deleted: "dn_run sys sds ns d s \<Longrightarrow> recv_num s = 0 \<Longrightarrow> report_num s = 0 \<Longrightarrow> delete_blocks ids (d, s) = Some (d', s') \<Longrightarrow> dn_run sys sds ns d' s'"
| scanned: "dn_run sys sds ns d s \<Longrightarrow> tame d \<Longrightarrow> 2 * length d \<le> BLK_NUM_IN_DN \<Longrightarrow> blk_scanner_turn d sds s = Some s' \<Longrightarrow> dn_run sys sds ns d s'"
| recv_told: "dn_run sys sds ns d s \<Longrightarrow> 0 < recv_num s \<Longrightarrow> receivedblock_report ip answer s = Some (rc, s') \<Longrightarrow> dn_run sys sds ns d s'"
| found_told: "dn_run sys sds ns d s \<Longrightarrow> 0 < report_num s \<Longrightarrow> block_report ip answer s = Some (rc, s') \<Longrightarrow> dn_run sys sds ns d s'"

text \<open>The blocks of the index are files of the disk, under a name that has their number.\<close>

definition on_disk :: "disk \<Rightarrow> dn_cache \<Rightarrow> (u64 \<rightharpoonup> nat) \<Rightarrow> bool" where
  "on_disk d s bm \<longleftrightarrow> (\<forall>b \<in> dom bm. \<exists>sz p c. dn_view s bm b = Some (sz, p) \<and> map_of d p = Some (File c) \<and> blk_number p = b)"

lemma on_diskD: "on_disk d s bm \<Longrightarrow> b \<in> dom bm \<Longrightarrow> \<exists>sz p c. dn_view s bm b = Some (sz, p) \<and> map_of d p = Some (File c) \<and> blk_number p = b"
  unfolding on_disk_def by blast

lemma on_disk_card:
  assumes "on_disk d s bm"
  shows "card (dom bm) \<le> length d"
proof -
  let ?path = "\<lambda>b. snd (the (dn_view s bm b))"
  have p: "?path b \<in> set (map fst d) \<and> blk_number (?path b) = b" if "b \<in> dom bm" for b
  proof -
    from on_diskD[OF assms that] obtain sz p c where "dn_view s bm b = Some (sz, p)" "map_of d p = Some (File c)" "blk_number p = b" by blast
    then show ?thesis using map_of_SomeD[of d p] by (force simp: image_iff)
  qed
  then have "inj_on ?path (dom bm)" by (intro inj_onI) metis
  moreover have "?path ` dom bm \<subseteq> set (map fst d)" using p by blast
  ultimately have "card (dom bm) \<le> card (set (map fst d))" by (intro card_inj_on_le) auto
  then show ?thesis using card_length[of "map fst d"] by simp
qed

text \<open>A change of the disk that keeps the files of the other numbers.\<close>

lemma on_disk_change:
  assumes "on_disk d s bm" "dom bm' \<subseteq> dom bm" "\<And>b. b \<in> dom bm' \<Longrightarrow> dn_view s' bm' b = dn_view s bm b"
    "\<And>p c. map_of d p = Some (File c) \<Longrightarrow> blk_number p \<in> dom bm' \<Longrightarrow> map_of d' p = Some (File c)"
  shows "on_disk d' s' bm'"
  unfolding on_disk_def
proof
  fix b assume b: "b \<in> dom bm'"
  then have "b \<in> dom bm" using assms(2) by blast
  from on_diskD[OF assms(1) this] obtain sz p c where p: "dn_view s bm b = Some (sz, p)" "map_of d p = Some (File c)" "blk_number p = b" by blast
  then have "map_of d' p = Some (File c)" using assms(4) b by blast
  then show "\<exists>sz p c. dn_view s' bm' b = Some (sz, p) \<and> map_of d' p = Some (File c) \<and> blk_number p = b"
    using p assms(3)[OF b] by auto
qed

lemma temp_number: "get_block_temp_path sds ns b = Some tmp \<Longrightarrow> 0 \<le> sint b \<Longrightarrow> blk_number tmp = b"
proof -
  assume t: "get_block_temp_path sds ns b = Some tmp" and b: "0 \<le> sint b"
  then obtain cur where "tmp = (cur @ str ''/NS-'' @ int_dec (sint ns) @ str ''/blocksBeingWritten'') @ slash8 # block_name b"
    by (auto simp: get_block_temp_path_def c_strcpy_def bind_eq_Some_conv block_name_def str_def split: if_splits)
  then show ?thesis using block_number[OF b] by blast
qed

lemma place_number: "block_dir sds ns b = Some p \<Longrightarrow> 0 \<le> sint b \<Longrightarrow> blk_number p = b"
proof -
  assume t: "block_dir sds ns b = Some p" and b: "0 \<le> sint b"
  then obtain dir where "p = dir @ slash8 # block_name b"
    by (auto simp: block_dir_def c_strcpy_def bind_eq_Some_conv block_name_def Let_def split: if_splits) (simp add: str_def)
  then show ?thesis using block_number[OF b] by blast
qed

lemma place_fits: "block_dir sds ns b = Some p \<Longrightarrow> length p < PATH_LEN"
  by (auto simp: block_dir_def c_strcpy_def bind_eq_Some_conv Let_def split: if_splits)

section \<open>What runs keep\<close>

definition dn_inv :: "nat \<Rightarrow> disk \<Rightarrow> dn_cache \<Rightarrow> (u64 \<rightharpoonup> nat) \<Rightarrow> nat list \<Rightarrow> nat list \<Rightarrow> bool" where
  "dn_inv cap d s bm Q R \<longleftrightarrow> BLK_NUM_IN_DN \<le> cap \<and> dn_rel cap s bm Q R \<and> fs_closed d \<and> on_disk d s bm"

lemma get_none: "dn_rel cap s bm Q R \<Longrightarrow> dn_block_object_get b s = Some None \<Longrightarrow> bm b = None"
  using dn_get[of cap s bm b] by (simp add: dn_rel_def)

lemma write_other: "p \<noteq> old \<Longrightarrow> map_of d p = Some n \<Longrightarrow> map_of (snd (sys_write sys old c d)) p = Some n"
  by (simp add: sys_write_def map_of_filter_key map_add_def)

lemma temp_inv:
  assumes inv: "dn_inv cap d s bm Q R" and b: "blk_number tmp \<notin> dom bm" and w: "sys_write sys tmp c d = (rc, d')"
  shows "dn_inv cap d' s bm Q R"
proof -
  have kept: "map_of d' p = Some (File k)" if "map_of d p = Some (File k)" "blk_number p \<in> dom bm" for p k
  proof -
    have "p \<noteq> tmp" using that(2) b by blast
    from write_other[OF this that(1), of sys c] w show ?thesis by simp
  qed
  have "on_disk d s bm" using inv by (simp add: dn_inv_def)
  from on_disk_change[OF this subset_refl refl kept] have "on_disk d' s bm" .
  then show ?thesis using inv write_closed[OF _ w] by (simp add: dn_inv_def)
qed

lemma recv_room:
  assumes rel: "dn_rel cap s bm Q R" and r: "recv_blk_report b len p s = Some x"
  shows "card (dom bm) < cap"
proof (rule ccontr)
  assume full: "\<not> ?thesis"
  from rel have tab: "bcm_table cap s bm" by (simp add: dn_rel_def)
  then have pool: "pool_state cap (bcm_pool s) (ran bm)" by (simp add: bcm_table_def)
  then have "card (ran bm) \<le> cap" using card_mono[of "{..<cap}" "ran bm"] by (simp add: pool_state_def)
  then have "card (ran bm) = cap" using full bcm_table_card[OF tab] by simp
  from mem_get0_full[OF pool this, of block_info0] r show False by (simp add: recv_blk_report_def dn_block_new_def)
qed

lemma rename_file:
  assumes "fst (sys_rename sys old new d) = DFS_OK"
  shows "\<exists>c. map_of d old = Some (File c) \<and> snd (sys_rename sys old new d) = filter (\<lambda>(q, n). q \<noteq> old \<and> q \<noteq> new) d @ [(new, File c)]"
  using assms by (auto simp: sys_rename_def dfs_code split: option.splits file_node.splits if_splits)

lemma rename_other:
  assumes "p \<noteq> old" "p \<noteq> new" "map_of d p = Some n"
  shows "map_of (snd (sys_rename sys old new d)) p = Some n"
  using assms by (simp add: sys_rename_def map_of_filter_key map_add_def split: option.splits file_node.splits)

lemma written_inv:
  assumes inv: "dn_inv cap d s bm Q R" and b: "0 \<le> sint b" "bm b = None" and tmp: "blk_number tmp = b"
    and w: "write_block_done sys sds ns b len tmp (d, s) = Some (rc, d', s')"
  shows "\<exists>bm' Q'. dn_inv cap d' s' bm' Q' R"
proof -
  from inv have rel: "dn_rel cap s bm Q R" and disk: "on_disk d s bm" by (auto simp: dn_inv_def)
  from w obtain p where p: "block_dir sds ns b = Some p" "d' = snd (sys_rename sys tmp p d)"
    "fst (sys_rename sys tmp p d) = DFS_OK \<and> recv_blk_report b len p s = Some (rc, s') \<or>
     fst (sys_rename sys tmp p d) \<noteq> DFS_OK \<and> rc = DFS_ERROR \<and> s' = s" by (rule write_block_cases)
  note num = place_number[OF p(1) b(1)]
  have closed: "fs_closed d'" using write_block_closed[OF _ w] inv by (simp add: dn_inv_def)
  have kept: "map_of d' q = Some (File k)" if "map_of d q = Some (File k)" "blk_number q \<in> dom bm" for q k
  proof -
    have "b \<notin> dom bm" using b(2) by auto
    then have "q \<noteq> tmp" "q \<noteq> p" using that(2) tmp num by metis+
    then show ?thesis unfolding p(2) using that(1) by (rule rename_other)
  qed
  have old: "on_disk d' s bm" by (rule on_disk_change[OF disk subset_refl refl kept])
  from p(3) show ?thesis
  proof
    assume ok: "fst (sys_rename sys tmp p d) = DFS_OK \<and> recv_blk_report b len p s = Some (rc, s')"
    then have room: "card (dom bm) < cap" using recv_room[OF rel] by blast
    from recv_blk_report_ok[OF rel b(2) room place_fits[OF p(1)], of len] ok obtain q where
      q: "dn_rel cap s' (bm(b \<mapsto> q)) (Q @ [q]) R" "dn_view s' (bm(b \<mapsto> q)) = (dn_view s bm)(b \<mapsto> (len, p))" by auto
    obtain c where "d' = filter (\<lambda>(x, n). x \<noteq> tmp \<and> x \<noteq> p) d @ [(p, File c)]" using rename_file ok p(2) by blast
    then have "map_of d' p = Some (File c)" by (simp add: map_add_def map_of_filter_key)
    then have "on_disk d' s' (bm(b \<mapsto> q))" using old num b(2) unfolding on_disk_def q(2) by auto
    then show ?thesis using q(1) closed inv unfolding dn_inv_def by blast
  next
    assume "fst (sys_rename sys tmp p d) \<noteq> DFS_OK \<and> rc = DFS_ERROR \<and> s' = s"
    then show ?thesis using old closed inv rel unfolding dn_inv_def by blast
  qed
qed

lemma delete_blks_ok:
  "dn_rel cap s bm [] [] \<Longrightarrow> \<exists>gone s'. delete_blks ids s = Some (gone, s') \<and> dn_rel cap s' (bm |` (- set ids)) [] [] \<and>
     dn_view s' (bm |` (- set ids)) = dn_view s bm |` (- set ids) \<and> (\<forall>p \<in> set gone. \<exists>b \<in> set ids. \<exists>sz. dn_view s bm b = Some (sz, p))"
proof (induction ids arbitrary: s bm)
  case (Cons b ids)
  from Cons.prems have tab: "bcm_table cap s bm" by (simp add: dn_rel_def)
  show ?case
  proof (cases "bm b")
    case None
    have "bm |` (- set (b # ids)) = bm |` (- set ids)" using None by (auto simp: restrict_map_def fun_eq_iff)
    moreover have "dn_view s bm |` (- set (b # ids)) = dn_view s bm |` (- set ids)" using None by (auto simp: restrict_map_def fun_eq_iff dn_view_def)
    moreover have "dn_block_object_del b s = Some (DFS_ERROR, None, s)" using dn_get[OF tab, of b] None by (simp add: dn_block_object_del_def)
    ultimately show ?thesis using Cons.IH[OF Cons.prems] by fastforce
  next
    case (Some q)
    from dn_block_object_del_ok[OF Cons.prems Some] obtain s1 where
      s1: "dn_block_object_del b s = Some (DFS_OK, Some (bi_path (mb_data (bcm_pool s) q)), s1)" "dn_rel cap s1 (bm(b := None)) [] []"
        "dn_view s1 (bm(b := None)) = (dn_view s bm)(b := None)" by auto
    from Cons.IH[OF s1(2)] obtain gone s' where
      r: "delete_blks ids s1 = Some (gone, s')" "dn_rel cap s' ((bm(b := None)) |` (- set ids)) [] []"
        "dn_view s' ((bm(b := None)) |` (- set ids)) = ((dn_view s bm)(b := None)) |` (- set ids)"
        "\<forall>p \<in> set gone. \<exists>a \<in> set ids. \<exists>sz. ((dn_view s bm)(b := None)) a = Some (sz, p)" unfolding s1(3) by blast
    have eq: "(m(b := None)) |` (- set ids) = m |` (- set (b # ids))" for m :: "u64 \<rightharpoonup> 'x" by (auto simp: restrict_map_def fun_eq_iff)
    have v: "dn_view s bm b = Some (bi_size (mb_data (bcm_pool s) q), bi_path (mb_data (bcm_pool s) q))" using Some by (simp add: dn_view_def)
    have gone: "\<exists>a \<in> set (b # ids). \<exists>sz. dn_view s bm a = Some (sz, p)" if "p \<in> set (bi_path (mb_data (bcm_pool s) q) # gone)" for p
      using that v r(4) by (auto split: if_splits)
    show ?thesis using s1(1) r(1) r(2,3)[unfolded eq] gone by auto
  qed
qed (simp add: restrict_map_def)

lemma unlinks_other: "p \<notin> set gone \<Longrightarrow> map_of (fold sys_unlink gone d) p = map_of d p"
proof (induction gone arbitrary: d)
  case (Cons g gone)
  have "map_of (sys_unlink g d) p = map_of d p" using Cons.prems unfolding sys_unlink_def by (induction d) auto
  then show ?case using Cons by simp
qed simp

lemma deleted_inv:
  assumes inv: "dn_inv cap d s bm [] []" and del: "delete_blocks ids (d, s) = Some (d', s')"
  shows "dn_inv cap d' s' (bm |` (- set ids)) [] []"
proof -
  from inv have rel: "dn_rel cap s bm [] []" and disk: "on_disk d s bm" and closed: "fs_closed d" by (auto simp: dn_inv_def)
  from delete_blks_ok[OF rel, of ids] obtain gone s1 where
    g: "delete_blks ids s = Some (gone, s1)" "dn_rel cap s1 (bm |` (- set ids)) [] []"
      "dn_view s1 (bm |` (- set ids)) = dn_view s bm |` (- set ids)" "\<forall>p \<in> set gone. \<exists>b \<in> set ids. \<exists>sz. dn_view s bm b = Some (sz, p)" by blast
  have d': "d' = fold sys_unlink gone d" "s' = s1" using del g(1) by (simp_all add: delete_blocks_def)
  have kept: "map_of d' q = Some (File k)" if "map_of d q = Some (File k)" "blk_number q \<in> dom (bm |` (- set ids))" for q k
  proof -
    have "q \<notin> set gone"
    proof
      assume "q \<in> set gone"
      then obtain b sz where b: "b \<in> set ids" "dn_view s bm b = Some (sz, q)" using g(4) by blast
      from on_diskD[OF disk dom_view[OF b(2)]] b(2) have "blk_number q = b" by auto
      then show False using that(2) b(1) by simp
    qed
    then show ?thesis using unlinks_other that(1) unfolding d'(1) by simp
  qed
  have same: "dn_view s' (bm |` (- set ids)) b = dn_view s bm b" if "b \<in> dom (bm |` (- set ids))" for b
    using that unfolding d'(2) g(3) by simp
  have "dom (bm |` (- set ids)) \<subseteq> dom bm" by auto
  from on_disk_change[OF disk this same kept] have "on_disk d' s' (bm |` (- set ids))" .
  then show ?thesis using inv g(2) unlinks_closed[OF closed] unfolding dn_inv_def d' by blast
qed

lemma scan_returns:
  assumes inv: "dn_inv cap d s bm Q R" and tame: "tame d" and room: "2 * length d \<le> BLK_NUM_IN_DN"
  shows "\<exists>s' bm' R'. blk_scanner_turn d sds s = Some s' \<and> dn_inv cap d s' bm' Q R' \<and>
    dom bm \<union> (\<Union>sd \<in> set sds. found_current d (sd_current sd)) \<subseteq> dom bm' \<and> (\<forall>b \<in> dom bm. dn_view s' bm' b = dn_view s bm b) \<and>
    (\<forall>b \<in> dom bm' - dom bm. \<exists>p c. dn_view s' bm' b = Some (of_nat (length c), p) \<and> map_of d p = Some (File c) \<and> blk_number p = b)"
proof -
  from inv have cap: "BLK_NUM_IN_DN \<le> cap" and rel: "dn_rel cap s bm Q R" and disk: "on_disk d s bm" and closed: "fs_closed d"
    by (auto simp: dn_inv_def)
  have "length d + card (dom bm) \<le> cap" using on_disk_card[OF disk] room cap by simp
  note step = scanner_step[OF tame this, of s Q sds, unfolded scan_step_def]
  have "scan_inv cap d s bm Q s bm R" using rel by (simp add: scan_inv_def)
  with step obtain s' bm' R' where
    r: "blk_scanner_turn d sds s = Some s'" "scan_inv cap d s bm Q s' bm' R'"
      "dom bm \<union> (\<Union>sd \<in> set sds. found_current d (sd_current sd)) \<subseteq> dom bm'" by blast
  have view: "\<forall>b \<in> dom bm. dn_view s' bm' b = dn_view s bm b"
    and new: "\<forall>b \<in> dom bm' - dom bm. \<exists>p c. dn_view s' bm' b = Some (of_nat (length c), p) \<and> map_of d p = Some (File c) \<and> blk_number p = b"
    and rel': "dn_rel cap s' bm' Q R'" using r(2) by (simp_all add: scan_inv_def)
  have "on_disk d s' bm'"
    unfolding on_disk_def
  proof
    fix b assume b: "b \<in> dom bm'"
    show "\<exists>sz p c. dn_view s' bm' b = Some (sz, p) \<and> map_of d p = Some (File c) \<and> blk_number p = b"
      using view new on_diskD[OF disk] b by (cases "b \<in> dom bm") (metis, blast)
  qed
  then have "dn_inv cap d s' bm' Q R'" using rel' cap closed unfolding dn_inv_def by blast
  then show ?thesis using r(1,3) view new by blast
qed

lemma queue_owner: "dn_rel cap s bm Q R \<Longrightarrow> p \<in> set Q \<union> set R \<Longrightarrow> \<exists>b. bm b = Some p"
  unfolding dn_rel_def ran_def by blast

lemma on_disk_pool: "bcm_pool s' = bcm_pool s \<Longrightarrow> on_disk d s' bm = on_disk d s bm"
  using dn_view_links[of s' s bm] by (simp add: on_disk_def)

lemma recv_told_inv:
  assumes inv: "dn_inv cap d s bm (p # Q) R" and r: "receivedblock_report ip answer s = Some (rc, s')"
  shows "dn_inv cap d s' bm Q R"
proof -
  from inv have rel: "dn_rel cap s bm (p # Q) R" by (simp add: dn_inv_def)
  from queue_owner[OF this, of p] obtain b where "bm b = Some p" by auto
  from take_recv[OF rel this] obtain l where
    l: "take_report RecvQ s = Some ((b, fst (the (dn_view s bm b))), s\<lparr>dn_links := l\<rparr>)" "dn_rel cap (s\<lparr>dn_links := l, recv_num := recv_num s - 1\<rparr>) bm Q R"
    by blast
  have "s' = s\<lparr>dn_links := l, recv_num := recv_num s - 1\<rparr>" using r l(1) by (auto simp: receivedblock_report_def bind_eq_Some_conv)
  then show ?thesis using inv l(2) on_disk_pool[of s' s d bm] by (simp add: dn_inv_def)
qed

lemma found_told_inv:
  assumes inv: "dn_inv cap d s bm Q (p # R)" and r: "block_report ip answer s = Some (rc, s')"
  shows "dn_inv cap d s' bm Q R"
proof -
  from inv have rel: "dn_rel cap s bm Q (p # R)" by (simp add: dn_inv_def)
  from queue_owner[OF this, of p] obtain b where "bm b = Some p" by auto
  from take_found[OF rel this] obtain l where
    l: "take_report ReportQ s = Some ((b, fst (the (dn_view s bm b))), s\<lparr>dn_links := l\<rparr>)" "dn_rel cap (s\<lparr>dn_links := l, report_num := report_num s - 1\<rparr>) bm Q R"
    by blast
  have "s' = s\<lparr>dn_links := l, report_num := report_num s - 1\<rparr>" using r l(1) by (auto simp: block_report_def bind_eq_Some_conv)
  then show ?thesis using inv l(2) on_disk_pool[of s' s d bm] by (simp add: dn_inv_def)
qed

lemma run_inv: "dn_run sys sds ns d s \<Longrightarrow> \<exists>cap bm Q R. dn_inv cap d s bm Q R"
proof (induction rule: dn_run.induct)
  case (start ok d mem s0 s)
  from dn_index_init_ok[OF start(1), of mem s0] start(3) obtain cap where "BLK_NUM_IN_DN \<le> cap" "dn_rel cap s Map.empty [] []" by auto
  then show ?case using start(2) unfolding dn_inv_def on_disk_def by blast
next
  case (temp d s b tmp c rc d')
  then obtain cap bm Q R where inv: "dn_inv cap d s bm Q R" by blast
  then have "bm b = None" using get_none temp(3) by (auto simp: dn_inv_def)
  then have "blk_number tmp \<notin> dom bm" using temp_number[OF temp(4,2)] by auto
  from temp_inv[OF inv this temp(5)] show ?case by blast
next
  case (written d s b tmp len rc d' s')
  then obtain cap bm Q R where inv: "dn_inv cap d s bm Q R" by blast
  then have "bm b = None" using get_none written(3) by (auto simp: dn_inv_def)
  from written_inv[OF inv written(2) this temp_number[OF written(4,2)] written(5)] show ?case by blast
next
  case (deleted d s ids d' s')
  then obtain cap bm Q R where inv: "dn_inv cap d s bm Q R" by blast
  then have "Q = []" "R = []" using deleted(2,3) by (auto simp: dn_inv_def dn_rel_def)
  with inv deleted_inv[OF _ deleted(4)] show ?case by blast
next
  case (scanned d s s')
  then obtain cap bm Q R where inv: "dn_inv cap d s bm Q R" by blast
  from scan_returns[OF inv scanned(2,3), of sds] scanned(4) show ?case by auto
next
  case (recv_told d s ip answer rc s')
  then obtain cap bm Q R where inv: "dn_inv cap d s bm Q R" by blast
  then obtain p Q' where "Q = p # Q'" using recv_told(2) by (cases Q) (auto simp: dn_inv_def dn_rel_def)
  with recv_told_inv[of cap d s bm p Q' R] inv recv_told(3) show ?case by blast
next
  case (found_told d s ip answer rc s')
  then obtain cap bm Q R where inv: "dn_inv cap d s bm Q R" by blast
  then obtain p R' where "R = p # R'" using found_told(2) by (cases R) (auto simp: dn_inv_def dn_rel_def)
  with found_told_inv[of cap d s bm Q p R'] inv found_told(3) show ?case by blast
qed

section \<open>Properties\<close>

lemma view_record:
  assumes rel: "dn_rel cap s bm Q R" and v: "dn_view s bm b = Some (sz, p)"
  shows "\<exists>q. dn_block_object_get b s = Some (Some q) \<and> pool_at q (bcm_pool s) = Some \<lparr>bi_id = b, bi_size = sz, bi_path = p\<rparr>"
proof -
  from rel have tab: "bcm_table cap s bm" by (simp add: dn_rel_def)
  from v obtain q where q: "bm b = Some q" "sz = bi_size (mb_data (bcm_pool s) q)" "p = bi_path (mb_data (bcm_pool s) q)"
    by (auto simp: dn_view_def)
  moreover have "bi_id (mb_data (bcm_pool s) q) = b" using tab q(1) by (simp add: bcm_table_def)
  moreover have "pool_at q (bcm_pool s) = Some (mb_data (bcm_pool s) q)" using bcm_at[OF tab ranI] q(1) .
  ultimately show ?thesis using dn_get[OF tab, of b] by simp
qed

text \<open>
  C7. In every state a run of a data node reaches, the lookup of a block returns; a block that the index
  has is a file of the disk, under a name that has its number, and its record has its number too. Every
  path of the disk is inside a directory.
\<close>

theorem index_on_disk:
  assumes "dn_run sys sds ns d s"
  shows "fs_closed d \<and> (\<exists>r. dn_block_object_get b s = Some r \<and>
    (case r of None \<Rightarrow> True | Some q \<Rightarrow> \<exists>blk c. pool_at q (bcm_pool s) = Some blk \<and> bi_id blk = b \<and>
       map_of d (bi_path blk) = Some (File c) \<and> blk_number (bi_path blk) = b))"
proof -
  from run_inv[OF assms] obtain cap bm Q R where inv: "dn_inv cap d s bm Q R" by blast
  then have rel: "dn_rel cap s bm Q R" and disk: "on_disk d s bm" and closed: "fs_closed d" by (auto simp: dn_inv_def)
  show ?thesis
  proof (cases "b \<in> dom bm")
    case True
    from on_diskD[OF disk True] obtain sz p c where p: "dn_view s bm b = Some (sz, p)" "map_of d p = Some (File c)" "blk_number p = b" by blast
    from view_record[OF rel p(1)] p(2,3) closed show ?thesis by auto
  next
    case False
    then have "bm b = None" by auto
    then show ?thesis using dn_get[of cap s bm b] rel closed by (simp add: dn_rel_def)
  qed
qed

lemma place_file:
  assumes "disks_ok sds" "0 \<le> sint b" "block_dir sds ns b = Some p" "fs_closed d" "map_of d p = Some (File c)"
  shows "\<exists>sd \<in> set sds. block_file d (sd_current sd) p"
proof -
  obtain sd where sd: "sd \<in> set sds" "get_disk_id sds b [] = Some (sd_current sd)" using disk_of_block[OF assms(1,2)] by blast
  then have cur: "sd_current sd \<noteq> []" using assms(1) by (simp add: disks_ok_def)
  let ?i = "sint b smod int SUBDIR_LEN" and ?j = "(sint b smod 1000) smod int SUBDIR_LEN"
  let ?a = "str ''subdir'' @ int_dec ?i" and ?b = "str ''subdir'' @ int_dec ?j" and ?root = "sd_current sd @ slash8 # ns_name ns @ str ''/current''"
  have p: "p = ?root @ slash8 # ?a @ slash8 # ?b @ slash8 # block_name b"
    using assms(3) sd(2) by (simp add: block_dir_def c_strcpy_def Let_def subdir_def ns_name_def block_name_def str_def split: if_splits)
  have ns: "slash8 \<notin> set ?a" "slash8 \<notin> set ?b" "slash8 \<notin> set (block_name b)" "slash8 \<notin> set (ns_name ns)" "slash8 \<notin> set (str ''current'')"
    by (simp_all add: block_name_no_slash int_dec_no_slash str_def ns_name_def)
  have split_root: "?root = (sd_current sd @ slash8 # ns_name ns) @ slash8 # str ''current''" by (simp add: str_def)
  have d3: "map_of d (?root @ slash8 # ?a @ slash8 # ?b) = Some Dir"
    using fs_up[OF assms(4), of "?root @ slash8 # ?a @ slash8 # ?b" "block_name b"] ns(3) assms(5) p by simp
  then have d2: "map_of d (?root @ slash8 # ?a) = Some Dir" using fs_up[OF assms(4), of "?root @ slash8 # ?a" ?b] ns(2) by simp
  then have d1: "map_of d ?root = Some Dir" using fs_up[OF assms(4), of ?root ?a] ns(1) by simp
  then have d0: "map_of d (sd_current sd @ slash8 # ns_name ns) = Some Dir"
    using fs_up[OF assms(4), of "sd_current sd @ slash8 # ns_name ns" "str ''current''"] ns(5) unfolding split_root by simp
  then have "map_of d (sd_current sd) = Some Dir" using fs_up[OF assms(4), of "sd_current sd" "ns_name ns"] ns(4) cur by simp
  then have "block_file d (sd_current sd) p"
    unfolding block_file_def Let_def using p ns(1-4) d0 d1 d2 d3 assms(5)
    by (intro exI[of _ "ns_name ns"] exI[of _ ?a] exI[of _ ?b] exI[of _ "block_name b"] exI[of _ c])
      (simp add: ns_name_def block_name_def)
  then show ?thesis using sd(1) by blast
qed


section \<open>A small disk\<close>

definition demo_sds :: "storage_dir list" where
  "demo_sds = [\<lparr>sd_id = 0, sd_current = str ''/d''\<rparr>]"

definition demo_place :: bytes where
  "demo_place = str ''/d/NS-1/current/subdir5/subdir5/blk_5''"

definition demo_temp :: bytes where
  "demo_temp = str ''/d/NS-1/blocksBeingWritten/blk_5''"

definition demo_dirs :: disk where
  "demo_dirs = map (\<lambda>p. (p, Dir)) [str ''/d'', str ''/d/NS-1'', str ''/d/NS-1/blocksBeingWritten'', str ''/d/NS-1/current'',
     str ''/d/NS-1/current/subdir5'', str ''/d/NS-1/current/subdir5/subdir5'']"

definition demo_disk :: disk where
  "demo_disk = demo_dirs @ [(demo_temp, File [1, 2, 3])]"

definition demo_after :: disk where
  "demo_after = demo_dirs @ [(demo_place, File [1, 2, 3])]"

lemmas demo_defs = demo_sds_def demo_place_def demo_temp_def demo_dirs_def demo_disk_def

lemma demo_dir_of:
  "dir_of (str ''/d'') = []" "dir_of (str ''/d/NS-1'') = str ''/d''" "dir_of (str ''/d/NS-1/blocksBeingWritten'') = str ''/d/NS-1''"
  "dir_of (str ''/d/NS-1/current'') = str ''/d/NS-1''" "dir_of (str ''/d/NS-1/current/subdir5'') = str ''/d/NS-1/current''"
  "dir_of (str ''/d/NS-1/current/subdir5/subdir5'') = str ''/d/NS-1/current/subdir5''"
  "dir_of demo_temp = str ''/d/NS-1/blocksBeingWritten''" "dir_of demo_place = str ''/d/NS-1/current/subdir5/subdir5''"
  by (simp_all add: dir_of_def str_def demo_temp_def demo_place_def)

lemma demo_at:
  "map_of demo_disk (str ''/d'') = Some Dir" "map_of demo_disk (str ''/d/NS-1'') = Some Dir"
  "map_of demo_disk (str ''/d/NS-1/blocksBeingWritten'') = Some Dir" "map_of demo_disk (str ''/d/NS-1/current'') = Some Dir"
  "map_of demo_disk (str ''/d/NS-1/current/subdir5'') = Some Dir" "map_of demo_disk (str ''/d/NS-1/current/subdir5/subdir5'') = Some Dir"
  "map_of demo_disk demo_temp = Some (File [1, 2, 3])" "map_of demo_disk demo_place = None"
  by (simp_all add: demo_defs str_def)

lemma demo_closed: "fs_closed demo_disk"
proof (rule fs_closedI)
  fix p n assume "(p, n) \<in> set demo_disk" "dir_of p \<noteq> []"
  then show "map_of demo_disk (dir_of p) = Some Dir"
    unfolding demo_disk_def[unfolded demo_dirs_def, symmetric] using demo_at demo_dir_of
    by (auto simp: demo_disk_def[unfolded demo_dirs_def])
qed

lemma demo_moved: "sys_rename (\<lambda>_. True) demo_temp demo_place demo_disk = (DFS_OK, demo_after)"
proof -
  have "filter (\<lambda>(q, n). q \<noteq> demo_temp \<and> q \<noteq> demo_place) demo_disk = demo_dirs" by (simp add: demo_defs str_def)
  with rename_ok[where sys = "\<lambda>_. True" and new = demo_place, OF demo_at(7)] demo_at demo_dir_of show ?thesis by (simp add: demo_after_def)
qed

lemma demo_numbers: "sint (5 :: u64) = 5" "sint (1 :: u64) = 1" "int_dec 5 = str ''5''" "int_dec 1 = str ''1''"
  by (simp_all add: int_dec_def decimal.simps str_def)

lemma demo_paths: "get_block_temp_path demo_sds 1 5 = Some demo_temp" "block_dir demo_sds 1 5 = Some demo_place"
  by (simp_all add: get_block_temp_path_def block_dir_def get_disk_id_def demo_numbers subdir_def SUBDIR_LEN_def smod_nonneg c_strcpy_def dfs_code demo_sds_def)
    (simp_all add: demo_temp_def demo_place_def str_def)

lemma demo_tame: "tame demo_after"
  by (simp add: tame_def demo_after_def demo_defs name_of_def str_def dfs_code)

lemma demo_index: "\<exists>s cap. dn_run (\<lambda>_. True) demo_sds 1 demo_disk s \<and> dn_rel cap s Map.empty [] [] \<and> BLK_NUM_IN_DN \<le> cap"
proof -
  obtain cap s where s: "BLK_NUM_IN_DN \<le> cap" "dn_index_init undefined (\<lambda>_. True) undefined = Some (DFS_OK, s)" "dn_rel cap s Map.empty [] []"
    using dn_index_init_ok[of "\<lambda>_. True"] by blast
  from dn_run.start[OF _ demo_closed s(2)] s show ?thesis by blast
qed

text \<open>The block of the small disk is moved to its place.\<close>

lemma demo_written: "\<exists>s s' q cap. dn_run (\<lambda>_. True) demo_sds 1 demo_disk s \<and> dn_block_object_get 5 s = Some None \<and> BLK_NUM_IN_DN \<le> cap \<and>
    write_block_done (\<lambda>_. True) demo_sds 1 5 3 demo_temp (demo_disk, s) = Some (DFS_OK, demo_after, s') \<and>
    dn_run (\<lambda>_. True) demo_sds 1 demo_after s' \<and> dn_rel cap s' [5 \<mapsto> q] [q] []"
proof -
  from demo_index obtain s cap where s: "dn_run (\<lambda>_. True) demo_sds 1 demo_disk s" "dn_rel cap s Map.empty [] []" "BLK_NUM_IN_DN \<le> cap" by blast
  have get: "dn_block_object_get 5 s = Some None" using dn_get[of cap s Map.empty 5] s(2) by (simp add: dn_rel_def)
  have "0 < cap" using s(3) by (simp add: dfs_code)
  with recv_blk_report_ok[OF s(2) _ _ place_fits[OF demo_paths(2)], of 5 3] obtain q s' where
    r: "recv_blk_report 5 3 demo_place s = Some (DFS_OK, s')" "dn_rel cap s' [5 \<mapsto> q] [q] []" by auto
  then have w: "write_block_done (\<lambda>_. True) demo_sds 1 5 3 demo_temp (demo_disk, s) = Some (DFS_OK, demo_after, s')"
    by (simp add: write_block_done_def demo_paths demo_moved)
  have "0 \<le> sint (5 :: u64)" by simp
  from dn_run.written[OF s(1) this get demo_paths(1) w] s r w get show ?thesis by blast
qed

theorem index_on_disk_witness:
  "\<exists>s. \<exists>blk c q. dn_run (\<lambda>_. True) demo_sds 1 demo_after s \<and> dn_block_object_get 5 s = Some (Some q) \<and>
    pool_at q (bcm_pool s) = Some blk \<and> bi_id blk = 5 \<and> map_of demo_after (bi_path blk) = Some (File c)"
proof -
  from demo_written obtain s q cap where s: "dn_run (\<lambda>_. True) demo_sds 1 demo_after s" "dn_rel cap s [5 \<mapsto> q] [q] []" by blast
  have "dn_block_object_get 5 s = Some (Some q)" using dn_get[of cap s "[5 \<mapsto> q]" 5] s(2) by (simp add: dn_rel_def)
  with index_on_disk[OF s(1), of 5] s(1) show ?thesis by auto
qed


end
