(* ===== verification/Dn_Reports.thy ===== *)
theory Dn_Reports
  imports Dn_Runs
begin

text \<open>
  What a data node makes for a name space, what its reports do at the name node, and where its code leaves
  what it means to do: a deletion while a report waits, a report that is lost, and numbers and paths that
  do not fit.
\<close>

section \<open>The tree is complete\<close>

lemma append_dir: "slash8 \<notin> set name \<Longrightarrow> dir_of (dir @ slash8 # name) = dir"
  by (rule split_last)

lemma fresh_none: "\<forall>(q, n) \<in> set d. \<not> prefix path q \<Longrightarrow> prefix path p \<Longrightarrow> map_of d p = None"
  by (auto simp: map_of_eq_None_iff)

lemma ns_base_ok:
  assumes dir: "map_of d (dir_of path) = Some Dir" and fresh: "\<forall>(q, n) \<in> set d. \<not> prefix path q"
  shows "mkdirs (\<lambda>_. True) [path, path @ str ''/blocksBeingWritten'', path @ str ''/current''] d =
    (DFS_OK, d @ [(path, Dir), (path @ str ''/blocksBeingWritten'', Dir), (path @ str ''/current'', Dir)])"
proof -
  have up: "dir_of (path @ str ''/blocksBeingWritten'') = path" "dir_of (path @ str ''/current'') = path"
    using append_dir[of "str ''blocksBeingWritten''" path] append_dir[of "str ''current''" path] by (simp_all add: str_def)
  have none: "map_of d (path @ r) = None" for r by (rule fresh_none[OF fresh]) simp
  show ?thesis using dir none[of "[]"] none up by (simp add: sys_mkdir_def map_add_def) (simp add: str_def)
qed

lemma version_write:
  assumes "map_of d p = None" "map_of d (dir_of p) = Some Dir"
  shows "sys_write (\<lambda>_. True) p c d = (DFS_OK, d @ [(p, File c)])"
proof -
  have "filter (\<lambda>(q, n). q \<noteq> p) d = d" using assms(1) by (force simp: filter_id_conv map_of_eq_None_iff)
  then show ?thesis using assms by (simp add: sys_write_def)
qed

lemma subdir_block_prefix: "p \<in> set (subdir_block cur i) \<Longrightarrow> prefix (cur @ str ''/subdir'') p"
  by (auto simp: subdir_block_mem subdir_def)

lemma prefix_neq: "prefix (cur @ str ''/subdir'') p \<Longrightarrow> p \<noteq> cur \<and> p \<noteq> cur @ str ''/VERSION''"
  by (auto simp: prefix_def str_def)

lemma prefix_neq_path:
  assumes "prefix ((path @ str ''/current'') @ str ''/subdir'') p"
  shows "p \<noteq> path \<and> p \<noteq> path @ str ''/blocksBeingWritten''"
proof -
  from assms obtain r where r: "p = path @ str ''/current'' @ str ''/subdir'' @ r" by (auto simp: prefix_def)
  show ?thesis unfolding r by (simp add: str_def)
qed

lemma check_namespace_made:
  assumes dir: "map_of d (dir_of path) = Some Dir" and fresh: "\<forall>(q, n) \<in> set d. \<not> prefix path q"
  shows "\<exists>c. check_namespace (\<lambda>_. True) path ns d = Some (DFS_OK, (d @ [(path, Dir), (path @ str ''/blocksBeingWritten'', Dir),
    (path @ str ''/current'', Dir), (path @ str ''/current/VERSION'', File c)]) @
    map (\<lambda>p. (p, Dir)) (concat (map (subdir_block (path @ str ''/current'')) [0..int SUBDIR_LEN - 1])))"
proof -
  let ?cur = "path @ str ''/current''" and ?c = "str ''namespaceID='' @ int_dec ns @ [10]"
  let ?d1 = "d @ [(path, Dir), (path @ str ''/blocksBeingWritten'', Dir), (?cur, Dir)]" and ?v = "?cur @ str ''/VERSION''"
  let ?d2 = "?d1 @ [(?v, File ?c)]"
  have none: "map_of d (path @ r) = None" for r by (rule fresh_none[OF fresh]) simp
  have cur: "map_of ?d1 ?cur = Some Dir" using none[of "str ''/current''"] by (simp add: map_add_def str_def)
  have "dir_of ?v = ?cur" using append_dir[of "str ''VERSION''" ?cur] by (simp add: str_def)
  moreover have "map_of ?d1 ?v = None" using none[of "str ''/current'' @ str ''/VERSION''"] by (simp add: map_add_def str_def)
  ultimately have w: "sys_write (\<lambda>_. True) ?v ?c ?d1 = (DFS_OK, ?d2)" using cur by (intro version_write) simp_all
  have "map_of ?d2 p = None" if "p \<in> set (subdir_block ?cur i)" for p i
  proof -
    note pre = subdir_block_prefix[OF that]
    from pre have "prefix path p" by (auto simp: prefix_def)
    from fresh_none[OF fresh this] prefix_neq[OF pre] prefix_neq_path[of path p] pre show ?thesis by (simp add: map_add_def)
  qed
  moreover have "map_of ?d2 ?cur = Some Dir" by (rule map_of_keep[OF cur])
  ultimately have "create_storage_subdirs (\<lambda>_. True) ?cur ?d2 =
      (DFS_OK, ?d2 @ map (\<lambda>p. (p, Dir)) (concat (map (subdir_block ?cur) [0..int SUBDIR_LEN - 1])))"
    unfolding create_storage_subdirs_def by (intro subdirs_loop_ok) simp_all
  then have "check_namespace (\<lambda>_. True) path ns d =
      Some (DFS_OK, ?d2 @ map (\<lambda>p. (p, Dir)) (concat (map (subdir_block ?cur) [0..int SUBDIR_LEN - 1])))"
    using ns_base_ok[OF dir fresh] w none[of "[]"] by (simp add: check_namespace_def Let_def access_ok_def del: mkdirs.simps)
  then show ?thesis by (intro exI[of _ ?c]) (simp add: str_def)
qed

lemma map_of_dirs: "p \<in> set ps \<Longrightarrow> map_of (map (\<lambda>p. (p, Dir)) ps) p = Some Dir"
  by (induction ps) auto

lemma smod_small: "0 \<le> a \<Longrightarrow> 0 \<le> a smod 64 \<and> a smod 64 < (64 :: int)"
  by (simp add: smod_nonneg)



section \<open>Reports at the name node\<close>

text \<open>The answer of a name node in state \<open>n\<close> to the report in \<open>task\<close>.\<close>

definition nn_answer :: "task \<Rightarrow> bd_index \<Rightarrow> task_data \<Rightarrow> int option" where
  "nn_answer task n data = map_option (\<lambda>(r, _). t_ret r) (nn_dn_recv_blk_report (task\<lparr>t_data := data\<rparr>) n)"

text \<open>
  C9. A block that waits at the head of the queue of a data node is known to the name node after its
  report: when the data node is registered under its address and the name node has room and does not know
  the block, the exchange succeeds, the data node has the rest of its queue, and the lookup of the name
  node gives a record with the number and the size of the block and the address.
\<close>

theorem report_reaches_name_node:
  assumes rel: "dn_rel cap s bm (p # Q) R" and p: "bm b = Some p" and ip: "length ip < 32"
    and nn: "cluster ids" "bd_inv ids ncap dcap n A" and key: "t_key task = ip" "ip \<in> ids" "ip \<in> dom (ab_dn A)"
    and room: "card (dom (ab_blk A)) < ncap" and new: "ab_blk A b = None"
  shows "\<exists>s' n' r q. receivedblock_report ip (nn_answer task n) s = Some (DFS_OK, s') \<and> dn_rel cap s' bm Q R \<and>
    nn_dn_recv_blk_report (task\<lparr>t_data := TReport b (fst (the (dn_view s bm b))) ip\<rparr>) n = Some (r, n') \<and>
    get_blk_store_obj b n' = Some (Some q) \<and>
    pool_at q (blk_pool n') = Some \<lparr>b_id = b, b_size = fst (the (dn_view s bm b)), b_dn_ip = ip\<rparr>"
proof -
  let ?sz = "fst (the (dn_view s bm b))"
  let ?t = "task\<lparr>t_data := TReport b ?sz ip\<rparr>"
  from nn(2) have nrel: "bd_rel ncap dcap n A" "dom (ab_dn A) \<subseteq> ids" by (auto simp: bd_inv_def)
  have "id_ok (t_key ?t) n A" using cluster_id_ok[OF nn(1) nrel, of ip] key by simp
  from report_ok[OF nrel(1) _ this room ip _ new] key obtain k q n' where
    r: "nn_dn_recv_blk_report ?t n = Some (?t\<lparr>t_data := TNull, t_ret := DFS_OK\<rparr>, n')"
      "mb_data (blk_pool n') = (mb_data (blk_pool n))(q := \<lparr>b_id = b, b_size = ?sz, b_dn_ip = ip\<rparr>)"
      "bd_rel ncap dcap n' (A\<lparr>ab_blk := (ab_blk A)(b \<mapsto> q), ab_blks := (ab_blks A)(k := ab_blks A k @ [q])\<rparr>)" by auto
  from take_recv[OF rel p] obtain l where
    l: "take_report RecvQ s = Some ((b, ?sz), s\<lparr>dn_links := l\<rparr>)" "dn_rel cap (s\<lparr>dn_links := l, recv_num := recv_num s - 1\<rparr>) bm Q R" by blast
  have "receivedblock_report ip (nn_answer task n) s = Some (DFS_OK, s\<lparr>dn_links := l, recv_num := recv_num s - 1\<rparr>)"
    using l(1) r(1) ip by (simp add: receivedblock_report_def c_strcpy_def nn_answer_def)
  moreover have tab: "blk_table ncap n' ((ab_blk A)(b \<mapsto> q))" using bd_blk[OF r(3)] by simp
  then have "get_blk_store_obj b n' = Some (Some q)" using get_blk_table[OF tab, of b] by simp
  moreover have "pool_at q (blk_pool n') = Some (mb_data (blk_pool n') q)" 
    using tab by (intro pool_at_used[of ncap _ "ran ((ab_blk A)(b \<mapsto> q))"]) (auto simp: blk_table_def ran_def)
  ultimately show ?thesis using l(2) r(1,2) by auto
qed

lemma demo_registered:
  "\<exists>n A cap dcap. bd_inv {demo_ip} cap dcap n A \<and> demo_ip \<in> dom (ab_dn A) \<and> card (dom (ab_blk A)) < cap \<and> ab_blk A 5 = None"
proof -
  obtain s0 cap dcap where s0: "bd_inv {demo_ip} cap dcap s0 bd_abs0" "BLK_NUM_IN_DN \<le> cap" "DN_NUM_IN_CLUSTER \<le> dcap"
    using demo_start by blast
  then have rel: "bd_rel cap dcap s0 bd_abs0" by (simp add: bd_inv_def)
  have k: "t_key (demo_task TNull) = demo_ip" by (simp add: demo_task_def)
  have ok: "id_ok (t_key (demo_task TNull)) s0 bd_abs0" using cluster_id_ok[OF demo_cluster rel] by (simp add: bd_abs0_def k)
  have "t_key (demo_task TNull) \<notin> dom (ab_dn bd_abs0)" "card (dom (ab_dn bd_abs0)) < dcap" "length (t_key (demo_task TNull)) < ID_LEN"
    using s0(3) by (simp_all add: bd_abs0_def k demo_ip_def str_def dfs_code)
  from register_unknown[OF rel this(1) ok this(2,3), of 0 1] obtain s1 p t where
    "bd_rel cap dcap s1 (bd_add_dn demo_ip p t bd_abs0)" unfolding k by blast
  moreover have "0 < cap" using s0(2) by (simp add: dfs_code)
  ultimately show ?thesis
    by (intro exI[of _ s1] exI[of _ "bd_add_dn demo_ip p t bd_abs0"] exI[of _ cap] exI[of _ dcap]) (simp add: bd_inv_def bd_abs0_def)
qed

theorem report_reaches_name_node_witness:
  "\<exists>s s' n n' sz r q. receivedblock_report demo_ip (nn_answer (demo_task TNull) n) s = Some (DFS_OK, s') \<and>
    nn_dn_recv_blk_report ((demo_task TNull)\<lparr>t_data := TReport 5 sz demo_ip\<rparr>) n = Some (r, n') \<and> get_blk_store_obj 5 n' = Some (Some q)"
proof -
  from demo_written obtain s q cap where s: "dn_rel cap s [5 \<mapsto> q] [q] []" by blast
  from demo_registered obtain n A ncap dcap where
    n: "bd_inv {demo_ip} ncap dcap n A" "demo_ip \<in> dom (ab_dn A)" "card (dom (ab_blk A)) < ncap" "ab_blk A 5 = None" by blast
  have "length demo_ip < 32" "t_key (demo_task TNull) = demo_ip" "demo_ip \<in> {demo_ip}" by (simp_all add: demo_ip_def str_def demo_task_def)
  from report_reaches_name_node[OF s _ this(1) demo_cluster n(1) this(2,3) n(2-4)] show ?thesis by fastforce
qed

section \<open>Deletions and reports that get lost\<close>

lemma pool_free: "pool_state cap m used \<Longrightarrow> p < cap \<Longrightarrow> p \<notin> used \<Longrightarrow> pool_at p m = None"
  unfolding pool_state_def pool_at_def using free_chain_next[of "mb_next m"] by fastforce

text \<open>
  C29. A block that is deleted while it waits to be reported is read after it was given back: the deletion
  takes the record out of the table and returns it to the pool, but not out of the queue, so the next
  report reads a record that is not allocated.
\<close>

theorem deleted_while_pending:
  assumes rel: "dn_rel cap s bm (p # Q) R" and p: "bm b = Some p"
  shows "\<exists>path s'. delete_blks [b] s = Some ([path], s') \<and> receivedblock_report ip answer s' = None"
proof -
  from rel have tab: "bcm_table cap s bm" and fam: "qfam (dn_links s) (dn_fam (p # Q) R)" by (auto simp: dn_rel_def)
  from del_table[OF tab p] obtain ht m where
    d: "dn_block_object_del b s = Some (DFS_OK, Some (bi_path (mb_data (bcm_pool s) p)), s\<lparr>bcm_htable := ht, bcm_pool := m\<rparr>)"
      "bcm_table cap (s\<lparr>bcm_htable := ht, bcm_pool := m\<rparr>) (bm(b := None))" by blast
  have "p < cap" using tab p unfolding bcm_table_def pool_state_def by (auto simp: ran_def)
  moreover have "p \<notin> ran (bm(b := None))"
  proof
    assume "p \<in> ran (bm(b := None))"
    then obtain a where "a \<noteq> b" "bm a = Some p" by (auto simp: ran_def split: if_splits)
    then show False using bcm_table_inj[OF tab p] by blast
  qed
  moreover have "pool_state cap m (ran (bm(b := None)))" using d(2) by (simp add: bcm_table_def)
  ultimately have free: "pool_at p m = None" by (intro pool_free)
  have "queue_head RecvQ (dn_links s) = Some (InfoMe p)" using qfam_head[OF fam, of RecvQ] by (simp add: queue_head_def)
  then have "receivedblock_report ip answer (s\<lparr>bcm_htable := ht, bcm_pool := m\<rparr>) = None"
    using free by (cases "queue_remove (InfoMe p) (dn_links s)") (simp_all add: receivedblock_report_def take_report_def)
  then show ?thesis using d(1) by simp
qed

theorem deleted_while_pending_witness:
  "\<exists>s path s'. dn_run (\<lambda>_. True) demo_sds 1 demo_after s \<and> delete_blks [5] s = Some ([path], s') \<and>
    receivedblock_report demo_ip (\<lambda>_. None) s' = None"
proof -
  from demo_written obtain s q cap where s: "dn_run (\<lambda>_. True) demo_sds 1 demo_after s" "dn_rel cap s [5 \<mapsto> q] [q] []" by blast
  from deleted_while_pending[OF s(2), of 5] s(1) show ?thesis by fastforce
qed

text \<open>
  C30. A report whose exchange fails is lost: the block is off the queue, and the scanner, which finds the
  block in the index, does not put it on a queue again.
\<close>

theorem failed_report_lost:
  assumes rel: "dn_rel cap s bm [p] []" and p: "bm b = Some p" and ip: "length ip < 32"
  shows "\<exists>s'. receivedblock_report ip (\<lambda>_. None) s = Some (DFS_ERROR, s') \<and> recv_num s' = 0 \<and> report_num s' = 0 \<and>
    (\<forall>path sz. dn_block_object_add path sz b s' = Some (DFS_OK, s'))"
proof -
  from take_recv[OF rel p] obtain l where
    l: "take_report RecvQ s = Some ((b, fst (the (dn_view s bm b))), s\<lparr>dn_links := l\<rparr>)"
      "dn_rel cap (s\<lparr>dn_links := l, recv_num := recv_num s - 1\<rparr>) bm [] []" by blast
  have "b \<in> dom bm" using p by auto
  from dn_block_object_add_known[OF l(2) this] l ip show ?thesis
    by (intro exI[of _ "s\<lparr>dn_links := l, recv_num := recv_num s - 1\<rparr>"]) (auto simp: receivedblock_report_def c_strcpy_def dn_rel_def)
qed

theorem failed_report_lost_witness:
  "\<exists>s s'. dn_run (\<lambda>_. True) demo_sds 1 demo_after s \<and> receivedblock_report demo_ip (\<lambda>_. None) s = Some (DFS_ERROR, s') \<and>
    recv_num s' = 0 \<and> report_num s' = 0"
proof -
  from demo_written obtain s q cap where s: "dn_run (\<lambda>_. True) demo_sds 1 demo_after s" "dn_rel cap s [5 \<mapsto> q] [q] []" by blast
  have "length demo_ip < 32" by (simp add: demo_ip_def str_def)
  from failed_report_lost[OF s(2) _ this, of 5] s(1) show ?thesis by fastforce
qed

end
