(* ===== verification/Dn_Limits.thy ===== *)
theory Dn_Limits
  imports Dn_Reports
begin

text \<open>
  Sizes on a data node: the array for the number of a block, the memory of the path of a block that is
  written, and the array that the storage directories are printed into.
\<close>

section \<open>Block numbers\<close>

lemma decimal_long: "10 ^ k \<le> n \<Longrightarrow> k < length (decimal n)"
proof (induction n arbitrary: k rule: decimal.induct)
  case (1 n)
  show ?case
  proof (cases "n < 10")
    case True
    have "k = 0"
    proof (rule ccontr)
      assume "k \<noteq> 0"
      then have "(10 :: nat) ^ 1 \<le> 10 ^ k" by (intro power_increasing) auto
      then show False using True 1(2) by simp
    qed
    then show ?thesis by simp
  next
    case False
    show ?thesis
    proof (cases k)
      case (Suc m)
      then have "10 ^ m \<le> n div 10" using 1(2) by (simp add: less_eq_div_iff_mult_less_eq mult.commute)
      with 1(1)[OF False] Suc False show ?thesis by (subst decimal.simps) simp
    qed simp
  qed
qed

lemma block_name_cstring: "0 \<le> sint b \<Longrightarrow> cstring (block_name b)"
  using decimal_digits[of "nat (sint b)"] by (auto simp: block_name_def int_dec_nat cstring_def str_def is_digit_def)



section \<open>Paths\<close>



section \<open>Storage directories\<close>

lemma print_current:
  assumes "cstring t" "length t < 65536 - 8"
  shows "string_xxvsnprintf 65536 (str ''%s/current'') [VaStr t] = Some (t @ str ''/current'')"
proof -
  have "takeWhile (\<lambda>b. b \<noteq> 0) t = t" using assms(1) by (auto simp: takeWhile_eq_all_conv cstring_def)
  then have eq: "take 65536 (takeWhile (\<lambda>b. b \<noteq> 0) t) = t" using assms(2) by (simp del: takeWhile_eq_all_conv)
  have "fmt_conv (str ''s/current'') [VaStr t] 65536 = Some (t, str ''/current'', [])"
    by (simp add: fmt_conv_def str_def is_digit_def eq)
  then show ?thesis using assms(2) by (simp add: str_def)
qed

lemma until_nul: "cstring s \<Longrightarrow> takeWhile (\<lambda>b. b \<noteq> 0) (s @ 0 # r) = s"
  by (induction s) simp_all

lemma strtok_word: "c \<notin> set t \<Longrightarrow> strtok c tok (t @ s) = strtok c (tok @ t) s"
  by (induction t arbitrary: tok) auto

text \<open>
  C35. Of two storage directories the second one keeps the end of the first one, when it is shorter: the
  array they are printed into is not cleared and the output has no end of the string.
\<close>

theorem second_storage_dir:
  assumes t: "44 \<notin> set t1" "44 \<notin> set t2" "t1 \<noteq> []" "t2 \<noteq> []" "cstring t1" "cstring t2"
    and len: "length t2 \<le> length t1" "length t1 + 8 < PATH_LEN"
  shows "init_storage_dirs (t1 @ 44 # t2) = Some [\<lparr>sd_id = 0, sd_current = t1 @ str ''/current''\<rparr>,
    \<lparr>sd_id = 1, sd_current = t2 @ str ''/current'' @ drop (length t2 + 8) (t1 @ str ''/current'')\<rparr>]"
proof -
  have toks: "strtok 44 [] (t1 @ 44 # t2) = [t1, t2]" using t strtok_word[of 44 t2 "[]" "[]"] by (simp add: strtok_word)
  let ?c = "str ''/current''"
  have c: "length ?c = 8" "cstring ?c" by (simp_all add: str_def cstring_def)
  let ?b0 = "replicate PATH_LEN 0 :: bytes"
  let ?b1 = "t1 @ ?c @ replicate (PATH_LEN - (length t1 + 8)) 0"
  have big: "length t1 < 65536 - 8" "length t2 < 65536 - 8" using len by (simp_all add: dfs_code)
  have p1: "string_xxsprintf ?b0 (str ''%s/current'') [VaStr t1] = Some ?b1"
    using print_current[OF t(5) big(1)] c(1) len(2) by (simp add: string_xxsprintf_def)
  have p2: "string_xxsprintf ?b1 (str ''%s/current'') [VaStr t2] = Some (t2 @ ?c @ drop (length t2 + 8) ?b1)"
    using print_current[OF t(6) big(2)] c(1) len by (simp add: string_xxsprintf_def)
  obtain k where k: "PATH_LEN - (length t1 + 8) = Suc k" using len(2) by (metis Suc_diff_Suc)
  let ?r = "drop (length t2 + 8) (t1 @ ?c)"
  have d: "drop (length t2 + 8) ?b1 = ?r @ 0 # replicate k 0" using c(1) len(1) by (simp add: k)
  have "cstring ?r" using t(5) c(2) unfolding cstring_def by (metis UnE in_set_dropD set_append)
  then have cs: "cstring (t2 @ ?c @ ?r)" "cstring (t1 @ ?c)" using t(5,6) c(2) by (simp_all add: cstring_def)
  have "takeWhile (\<lambda>b. b \<noteq> 0) (t2 @ ?c @ ?r @ 0 # replicate k 0) = t2 @ ?c @ ?r"
    "takeWhile (\<lambda>b. b \<noteq> 0) (t1 @ ?c @ 0 # replicate k 0) = t1 @ ?c"
    using until_nul[OF cs(1), of "replicate k 0"] until_nul[OF cs(2), of "replicate k 0"] by (simp_all del: drop_append)
  then show ?thesis unfolding init_storage_dirs_def toks using p1 p2 d by (simp add: k del: drop_append)
qed

theorem second_storage_dir_witness:
  "init_storage_dirs (str ''/disk10,/disk2'') = Some [\<lparr>sd_id = 0, sd_current = str ''/disk10/current''\<rparr>,
    \<lparr>sd_id = 1, sd_current = str ''/disk2/currentt''\<rparr>]"
  using second_storage_dir[of "str ''/disk10''" "str ''/disk2''"] by (simp add: str_def cstring_def dfs_code)

end
