(* ===== verification/Spec2Isabelle.thy ===== *)
theory Spec2Isabelle
  imports Nn_Task_Queue Nn_Handlers Dn_Limits
begin

text \<open>
  A model of Opendfs, a distributed file system in C and C++. All paths below are under \<open>src/src\<close>.

  \<^bold>\<open>The program.\<close> A name node keeps the tree of files and directories in memory
  (\<open>namenode/nn_file_index.c\<close>), knows which data node holds which block (\<open>nn_blk_index.c\<close>,
  \<open>nn_dn_index.c\<close>), and lets several members agree on every change through a paxos log
  (\<open>nn_paxos.c\<close>, \<open>paxos/FSEditlog.cpp\<close>, \<open>paxos/EditlogSM.cpp\<close>, \<open>paxos/phxeditlog.pb.cpp\<close>). A data node
  stores blocks as files and reports them (\<open>datanode/dn_data_storage.c\<close>, \<open>dn_ns_service.c\<close>). Both are
  built on a small C library (\<open>core\<close>) of queues, hash tables, block pools, timers and strings.

  \<^bold>\<open>Conventions.\<close> A C function is an Isabelle function that takes the state and returns it changed; its
  result is an option, and \<open>None\<close> is undefined behaviour of C: a NULL or freed pointer, an array that
  overflows, a signed overflow, a loop that does not end. Return codes are the integers of the headers.
  Fixed width integers are words. A C string is the list of its bytes, an array of \<open>n\<close> bytes is checked
  where something is copied into it (\<open>c_strcpy\<close>). Pointers into pools are numbers; intrusive queues are
  link fields in a store that maps nodes to their neighbours. What is not in the repository is an
  argument: the paxos library (the record \<open>paxos\<close> and the run of proposals of \<open>Nn_Handlers\<close>), the compiled part
  of the protobuf runtime (the record \<open>wire\<close>), the clock, the outcomes of allocations, the answers of
  the peer on a socket, and whether the system refuses a file operation.

  \<^bold>\<open>Library.\<close>
  \<^item> \<open>Dfs_Prelude\<close>: types, codes (the collection \<open>dfs_code\<close>), strings, generic lemmas.
  \<^item> \<open>Dfs_Math\<close> (\<open>core/dfs_math.c\<close>): the search of the next prime ends and finds the least one, below the
    bound \<open>prime_bound\<close> up to which trial divisors can be squared in 64 bits.
  \<^item> \<open>Dfs_Queue\<close>, \<open>Dfs_Queue_Family\<close> (\<open>core/dfs_queue.h\<close>, \<open>dfs_queue.c\<close>): rings in a pointer store, the
    interface \<open>queue_interface\<close>, the sort, and several queues in one store.
  \<^item> \<open>Dfs_Hashtable\<close> (\<open>core/dfs_hashtable.c\<close>): \<open>ht_rep\<close> relates a table to a finite map; interface
    \<open>key_index\<close>; keys are compared by a function that may confuse them, hence the condition \<open>no_clash\<close>.
  \<^item> \<open>Dfs_Mblks\<close> (\<open>core/dfs_mblks.c\<close>): \<open>pool_state\<close>, interface \<open>block_pool\<close>.
  \<^item> \<open>Dfs_Event_Timer\<close> (\<open>core/dfs_event_timer.c\<close>), \<open>Dfs_String\<close>, \<open>Dfs_Base64\<close>, \<open>Dfs_Format\<close>
    (\<open>core/dfs_string.c\<close>): comparison, number readers, base64, formatted output.

  \<^bold>\<open>Name node.\<close>
  \<^item> \<open>Nn_State\<close>, \<open>Nn_Mem\<close>: records, commands, and the construction of an index, which leaks nothing on
    any path.
  \<^item> \<open>Fs_Permission\<close> (\<open>common/fs_permission.c\<close>).
  \<^item> \<open>Nn_Blk_Index\<close>, \<open>Nn_Dn_Index\<close>, \<open>Nn_Dn_Runs\<close>: block and data node index with their handlers; \<open>bd_rel\<close>
    relates them to maps and lists, \<open>bd_step\<close> and \<open>bd_reachable\<close> are the runs, and every handler returns
    in every state they reach.
  \<^item> \<open>Nn_File_Index\<close>: the file index. \<open>Nn_File_Rel\<close>, \<open>Nn_File_Steps\<close>, \<open>Nn_File_Clear\<close>, \<open>Nn_File_Ops\<close>,
    \<open>Nn_File_Remove\<close>: its representation, the memory steps, the recursive removal (over the interface
    \<open>block_deleter\<close>, which the block index implements) and one lemma for each update.
  \<^item> \<open>Nn_File_System\<close>: the abstract file system, a map from keys to entries, and the refinement.
  \<^item> \<open>Phx_Editlog\<close>, \<open>Phx_Wire\<close>, \<open>Phx_Codec\<close>: the messages of the edit log, their wire format (with the
    inline functions of \<open>src/include/google/protobuf\<close>), parsing and serialising.
  \<^item> \<open>Nn_Paxos\<close>: handlers of logged operations, the proposal and the state machine. \<open>Nn_File_Log\<close>: a
    record executed by any member is an operation of the abstract file system. \<open>Nn_Handlers\<close>: what a
    client is answered agrees with what the file system becomes.
  \<^item> \<open>Nn_Task_Queue\<close> (\<open>nn_task_queue.c\<close>, \<open>nn_task_handler.c\<close>): the order of tasks between threads.

  \<^bold>\<open>Data node.\<close>
  \<^item> \<open>Dn_Index\<close>: the block index and the two report queues; \<open>dn_rel\<close> is its relation to a map and two lists.
  \<^item> \<open>Dn_Disk\<close>: storage directories, the tree of a name space, places of blocks, the scan, on a disk that
    is the list of its paths in the order of \<open>readdir\<close>.
  \<^item> \<open>Dn_Scan\<close>: the scan returns and enters every block file, on a disk whose paths fit the arrays (\<open>tame\<close>).
  \<^item> \<open>Dn_Storage\<close>, \<open>Dn_Runs\<close>: the operations keep every path inside a directory; \<open>dn_run\<close> are the runs of a
    data node, in which the index only has blocks that are on disk; a block survives a restart.
  \<^item> \<open>Dn_Reports\<close>, \<open>Dn_Limits\<close>: the tree is complete, a report reaches the name node, and the places where
    the code leaves its arrays, loses a report or reads a freed record.

  \<^bold>\<open>Bounds and recursion.\<close> No model has fuel. A loop that ends is a total function with its termination
  proof; one that may not (chains of pointers, the recursive removal, the search of a prime) is a partial
  function into an option, and the properties state that it returns. The runs assume what the code
  does not check itself: identifiers of data nodes that are no prefix of each other, fewer than \<open>2 ^ 64\<close>
  allocations, block numbers that are not negative, no deletion on a data node while a report waits.

  \<^bold>\<open>Not modelled.\<close> Sockets, epoll, pipes, signals, processes, threads and locks (each operation is one
  step, as under its lock); the transfer of blocks and the asynchronous file I/O behind it (\<open>faio\<close>,
  \<open>cfs\<close>); the byte form of tasks on a socket (\<open>common/dfs_task.c\<close>); the checkpoint and image files of
  the file index; the parser of the configuration, whose values are parameters; the red-black tree
  behind the timers, which are the set of armed events here; the memory pools below the block pools;
  the command line client; logging and clock texts; descriptors and reflection of the messages. In
  \<open>write_block_done\<close> the copy of the new path beyond the memory of the old one is shown as a property of
  the lengths, and what lies behind it in the pool of the request is left out.
\<close>

end
